(* ===== verification/Prelude.thy ===== *)
theory Prelude
  imports Main "HOL-Library.Word"
begin

text \<open>
  The shared vocabulary of the development: the fixed-width integers of the Rust sources, the
  error type of \<^verbatim>\<open>src/src/error.rs\<close>, the \<^verbatim>\<open>Result\<close> type with its
  question-mark operator, checked and saturating arithmetic, and the list and set lemmas that
  several components use.

  Every \<^verbatim>\<open>u8\<close>, \<^verbatim>\<open>u32\<close> and \<^verbatim>\<open>u64\<close> of the sources is a word of that width, so that a
  wrap-around or a failed \<^verbatim>\<open>checked_add\<close> is a branch of the model. A
  \<^verbatim>\<open>usize\<close> that only counts elements of a collection is a \<^typ>\<open>nat\<close>. An
  \<^verbatim>\<open>Instant\<close> is an \<^typ>\<open>int\<close> and a \<^verbatim>\<open>Duration\<close> a \<^typ>\<open>nat\<close>, both in nanoseconds.
\<close>

section \<open>Machine integers\<close>

type_synonym u8 = "8 word"
type_synonym u32 = "32 word"
type_synonym u64 = "64 word"

type_synonym shard_id = u32
type_synonym node_id = u64
type_synonym epoch_term = u64
type_synonym lsn = u64

type_synonym instant = int
type_synonym duration = nat

named_theorems result_simps \<open>unfolding of fallible code\<close>
named_theorems wf_intros \<open>preservation of representation invariants\<close>

definition checked_add :: "'a::len word \<Rightarrow> 'a word \<Rightarrow> 'a word option" where
  "checked_add a b = (if unat a + unat b < 2 ^ LENGTH('a) then Some (a + b) else None)"

definition saturating_add :: "'a::len word \<Rightarrow> 'a word \<Rightarrow> 'a word" where
  "saturating_add a b = (if unat a + unat b < 2 ^ LENGTH('a) then a + b else - 1)"

definition saturating_sub :: "'a::len word \<Rightarrow> 'a word \<Rightarrow> 'a word" where
  "saturating_sub a b = (if a \<le> b then 0 else a - b)"

text \<open>\<^verbatim>\<open>Instant::duration_since\<close> is zero, not negative, when the argument is later.\<close>

definition duration_since :: "instant \<Rightarrow> instant \<Rightarrow> duration" where
  "duration_since now earlier = nat (now - earlier)"

lemma unat_bound: "unat (w :: 'a::len word) < 2 ^ LENGTH('a)"
  by (rule unsigned_less)

lemma checked_add_Some_iff:
  "checked_add a b = Some c \<longleftrightarrow> unat a + unat b < 2 ^ LENGTH('a) \<and> c = a + b"
  for a b :: "'a::len word"
  by (auto simp: checked_add_def)

lemma unat_checked_add: "checked_add a b = Some c \<Longrightarrow> unat c = unat a + unat b"
  by (auto simp: checked_add_def unat_word_ariths split: if_splits)

lemma checked_succ_greater:
  assumes "checked_add a 1 = Some c"
  shows "a < (c :: 'a::len word)"
proof -
  have "unat c = unat a + unat (1 :: 'a word)" using assms by (rule unat_checked_add)
  then show ?thesis by (simp add: word_less_nat_alt)
qed

lemma succ_fits_iff: "unat a + unat (1 :: 'a word) < 2 ^ LENGTH('a) \<longleftrightarrow> a \<noteq> - 1"
  for a :: "'a::len word"
proof
  assume "unat a + unat (1 :: 'a word) < 2 ^ LENGTH('a)"
  then have "unat (a + 1) = unat a + unat (1 :: 'a word)"
    by (rule unat_add_lem [THEN iffD1])
  then show "a \<noteq> - 1" by auto
next
  assume "a \<noteq> - 1"
  then have "1 + a \<noteq> 0" by (simp add: eq_neg_iff_add_eq_0 add.commute)
  then have "unat (1 + a) = Suc (unat a)" by (rule unatSuc)
  moreover have "unat (1 + a) < 2 ^ LENGTH('a)" by (rule unsigned_less)
  ultimately show "unat a + unat (1 :: 'a word) < 2 ^ LENGTH('a)" by simp
qed

lemma word_succ_greater: "t \<noteq> - 1 \<Longrightarrow> t < t + (1 :: 'a::len word)"
  using succ_fits_iff [of t] by (simp add: word_less_nat_alt unat_word_ariths)

lemma checked_add_None_iff: "checked_add (a :: 'a::len word) 1 = None \<longleftrightarrow> a = - 1"
  using succ_fits_iff [of a] by (auto simp: checked_add_def)

lemma saturating_sub_le: "saturating_sub a b \<le> a"
  by (auto simp: saturating_sub_def word_le_nat_alt unat_sub_if')

section \<open>Errors and results\<close>

text \<open>
  The error variants the modelled code constructs. A variant that wraps a formatted message keeps
  the literal head of that message, and the interpolated values are left out; variants with fields
  keep their fields. A panic (a failed \<^verbatim>\<open>expect\<close> or \<^verbatim>\<open>unreachable!\<close>) is the last variant, so that
  reaching one is a branch of the model too.
\<close>

datatype error =
    ShardConfig string
  | ClusterConfig string
  | Manifest string
  | Fenced epoch_term node_id epoch_term
  | NotLeader epoch_term
  | PromotionBlocked
  | ShardFollowed shard_id
  | NotReplicated shard_id lsn nat nat
  | ReplicationGap shard_id lsn lsn string
  | Departed
  | Protocol string
  | IoFailure string
  | BatchAborted string
  | CaptureOverflow shard_id nat
  | WriterUnavailable string
  | Panicked string

type_synonym 'a result = "error + 'a"

fun and_then :: "'a result \<Rightarrow> ('a \<Rightarrow> 'b result) \<Rightarrow> 'b result" where
  "and_then (Inl e) f = Inl e"
| "and_then (Inr x) f = f x"

definition ok_or :: "'a option \<Rightarrow> error \<Rightarrow> 'a result" where
  "ok_or x e = (case x of None \<Rightarrow> Inl e | Some v \<Rightarrow> Inr v)"

lemma and_then_Inr_iff [result_simps]:
  "and_then m f = Inr y \<longleftrightarrow> (\<exists>x. m = Inr x \<and> f x = Inr y)"
  by (cases m) auto

lemma ok_or_Inr_iff [result_simps]: "ok_or x e = Inr v \<longleftrightarrow> x = Some v"
  by (cases x) (auto simp: ok_or_def)

lemma ok_or_simps [simp]: "ok_or None e = Inl e" "ok_or (Some v) e = Inr v"
  by (simp_all add: ok_or_def)

lemma and_then_assoc: "and_then (and_then m f) g = and_then m (\<lambda>x. and_then (f x) g)"
  by (cases m) auto

definition is_ok :: "'a result \<Rightarrow> bool" where
  "is_ok r \<longleftrightarrow> (case r of Inl _ \<Rightarrow> False | Inr _ \<Rightarrow> True)"

lemma is_ok_simps [simp]: "\<not> is_ok (Inl e)" "is_ok (Inr x)"
  by (simp_all add: is_ok_def)

lemma is_ok_iff: "is_ok r \<longleftrightarrow> (\<exists>x. r = Inr x)"
  by (cases r) auto

text \<open>A loop body that may fail, run over a list: the \<^verbatim>\<open>for\<close> loop with \<^verbatim>\<open>?\<close> or an early
  \<^verbatim>\<open>return Err\<close> inside it.\<close>

fun check_all :: "('a \<Rightarrow> unit result) \<Rightarrow> 'a list \<Rightarrow> unit result" where
  "check_all f [] = Inr ()"
| "check_all f (x # xs) = and_then (f x) (\<lambda>_. check_all f xs)"

lemma check_all_ok_iff: "check_all f xs = Inr () \<longleftrightarrow> (\<forall>x \<in> set xs. f x = Inr ())"
  by (induction xs) (auto simp: result_simps)

section \<open>Majorities\<close>

text \<open>The majority test the sources write as \<^verbatim>\<open>count >= voters / 2 + 1\<close>.\<close>

definition majority :: "'a set \<Rightarrow> 'a set \<Rightarrow> bool" where
  "majority acks voters \<longleftrightarrow> card (acks \<inter> voters) \<ge> card voters div 2 + 1"

lemma majority_mono: "majority A V \<Longrightarrow> A \<subseteq> B \<Longrightarrow> finite V \<Longrightarrow> majority B V"
proof -
  assume m: "majority A V" and sub: "A \<subseteq> B" and fin: "finite V"
  have "card (A \<inter> V) \<le> card (B \<inter> V)"
    by (rule card_mono) (use sub fin in auto)
  with m show ?thesis by (simp add: majority_def)
qed

lemma majority_intersect:
  assumes "majority A V" and "majority B V" and fin: "finite V"
  shows "A \<inter> B \<inter> V \<noteq> {}"
proof
  assume disj: "A \<inter> B \<inter> V = {}"
  have "card (A \<inter> V) + card (B \<inter> V) = card ((A \<inter> V) \<union> (B \<inter> V))"
    by (rule card_Un_disjoint [symmetric]) (use disj fin in auto)
  also have "\<dots> \<le> card V"
    by (rule card_mono) (use fin in auto)
  finally show False using assms(1,2) by (simp add: majority_def)
qed

text \<open>
  What a quorum rule promises its users, whichever way the acknowledgements are counted: two
  quorums share a member, and acknowledgements never undo a quorum.
\<close>

locale quorum_rule =
  fixes quorum :: "'a set \<Rightarrow> bool"
  assumes quorum_intersect: "quorum A \<Longrightarrow> quorum B \<Longrightarrow> A \<inter> B \<noteq> {}"
    and quorum_mono: "quorum A \<Longrightarrow> A \<subseteq> B \<Longrightarrow> quorum B"
begin

lemma quorum_nonempty: "quorum A \<Longrightarrow> A \<noteq> {}"
  using quorum_intersect [of A A] by auto

text \<open>Two leaders elected by ballots in which every voter votes for one candidate agree.\<close>

lemma single_vote_single_winner:
  assumes qa: "quorum A" and qb: "quorum B"
    and va: "\<And>v. v \<in> A \<Longrightarrow> vote v = Some a" and vb: "\<And>v. v \<in> B \<Longrightarrow> vote v = Some b"
  shows "a = b"
proof -
  obtain v where "v \<in> A" and "v \<in> B" using quorum_intersect [OF qa qb] by auto
  with va vb show ?thesis by fastforce
qed

end

section \<open>Lists\<close>

lemma find_SomeD: "find P xs = Some x \<Longrightarrow> x \<in> set xs \<and> P x"
  by (induction xs) (auto split: if_splits)

lemma find_None_all: "find P xs = None \<longleftrightarrow> (\<forall>x \<in> set xs. \<not> P x)"
  by (induction xs) auto

text \<open>
  \<^verbatim>\<open>Iterator::min_by_key\<close> and \<^verbatim>\<open>min_by\<close> keep the first of equal minima and
  \<^verbatim>\<open>max_by\<close> keeps the last of equal maxima.
\<close>

fun min_by :: "('a \<Rightarrow> 'a \<Rightarrow> bool) \<Rightarrow> 'a list \<Rightarrow> 'a option" where
  "min_by lt [] = None"
| "min_by lt (x # xs) =
     Some (foldl (\<lambda>best y. if lt y best then y else best) x xs)"

fun max_by :: "('a \<Rightarrow> 'a \<Rightarrow> bool) \<Rightarrow> 'a list \<Rightarrow> 'a option" where
  "max_by lt [] = None"
| "max_by lt (x # xs) =
     Some (foldl (\<lambda>best y. if lt y best then best else y) x xs)"

lemma min_by_None_iff: "min_by lt xs = None \<longleftrightarrow> xs = []"
  by (cases xs) auto

lemma foldl_min_mem:
  "foldl (\<lambda>best y. if lt y best then y else best) x xs \<in> set (x # xs)"
proof (induction xs arbitrary: x)
  case Nil
  show ?case by simp
next
  case (Cons y ys)
  have "foldl (\<lambda>best y. if lt y best then y else best) (if lt y x then y else x) ys
        \<in> set ((if lt y x then y else x) # ys)"
    by (rule Cons.IH)
  then show ?case by (auto split: if_splits)
qed

lemma min_by_mem: "min_by lt xs = Some m \<Longrightarrow> m \<in> set xs"
  using foldl_min_mem [of lt] by (cases xs) auto

lemma foldl_max_mem:
  "foldl (\<lambda>best y. if lt y best then best else y) x xs \<in> set (x # xs)"
proof (induction xs arbitrary: x)
  case Nil
  show ?case by simp
next
  case (Cons y ys)
  have "foldl (\<lambda>best y. if lt y best then best else y) (if lt y x then x else y) ys
        \<in> set ((if lt y x then x else y) # ys)"
    by (rule Cons.IH)
  then show ?case by (auto split: if_splits)
qed

lemma max_by_mem: "max_by lt xs = Some m \<Longrightarrow> m \<in> set xs"
  using foldl_max_mem [of lt] by (cases xs) auto

text \<open>The result is a minimum when the comparison is a strict weak order on the list.\<close>

lemma foldl_min_least:
  assumes irr: "\<And>a. \<not> lt a a"
    and trans: "\<And>a b c. \<not> lt b a \<Longrightarrow> \<not> lt c b \<Longrightarrow> \<not> lt c a"
    and asym: "\<And>a b. lt a b \<Longrightarrow> \<not> lt b a"
  shows "y \<in> set (x # xs) \<Longrightarrow>
    \<not> lt y (foldl (\<lambda>best y. if lt y best then y else best) x xs)"
proof (induction xs arbitrary: x y)
  case Nil
  then show ?case using irr by simp
next
  case (Cons z zs)
  define x' where "x' = (if lt z x then z else x)"
  have best: "\<not> lt x' (foldl (\<lambda>best y. if lt y best then y else best) x' zs)"
    by (rule Cons.IH) simp
  have x: "\<not> lt x x'" and z: "\<not> lt z x'"
    using irr asym by (auto simp: x'_def)
  have "\<not> lt y (foldl (\<lambda>best y. if lt y best then y else best) x' zs)"
  proof (cases "y \<in> set zs")
    case True
    then show ?thesis by (intro Cons.IH) simp
  next
    case False
    with Cons.prems have "y = x \<or> y = z" by auto
    with x z have "\<not> lt y x'" by auto
    with best show ?thesis by (rule trans)
  qed
  then show ?case by (simp add: x'_def)
qed

lemma min_by_least:
  assumes "\<And>a. \<not> lt a a" and "\<And>a b c. \<not> lt b a \<Longrightarrow> \<not> lt c b \<Longrightarrow> \<not> lt c a"
    and "\<And>a b. lt a b \<Longrightarrow> \<not> lt b a"
    and "min_by lt xs = Some m" and "y \<in> set xs"
  shows "\<not> lt y m"
  using foldl_min_least [of lt, OF assms(1-3)] assms(4,5) by (cases xs) auto

end
