(* ===== verification/BTree.thy ===== *)
theory BTree
  imports Prelude
begin

text \<open>
  Rust's \<^verbatim>\<open>BTreeMap\<close> as an association list kept strictly sorted by key, so that iteration is
  in key order and the derived \<^verbatim>\<open>PartialEq\<close> is equality of lists. The locale
  \<open>ordered_map\<close> is the contract the components use, and its interpretation discharges it.
  A \<^verbatim>\<open>BTreeSet\<close> is a HOL set; where its iteration order shows, the code reads
  \<^const>\<open>sorted_list_of_set\<close>.
\<close>

type_synonym ('k, 'v) btree = "('k \<times> 'v) list"

definition bt_wf :: "('k::linorder, 'v) btree \<Rightarrow> bool" where
  "bt_wf m \<longleftrightarrow> sorted_wrt (<) (map fst m)"

fun bt_insert :: "'k::linorder \<Rightarrow> 'v \<Rightarrow> ('k, 'v) btree \<Rightarrow> ('k, 'v) btree" where
  "bt_insert k v [] = [(k, v)]"
| "bt_insert k v (e # m) =
     (if fst e < k then e # bt_insert k v m
      else if fst e = k then (k, v) # m
      else (k, v) # e # m)"

definition bt_get :: "('k, 'v) btree \<Rightarrow> 'k \<Rightarrow> 'v option" where
  "bt_get m k = map_of m k"

definition bt_remove :: "'k \<Rightarrow> ('k, 'v) btree \<Rightarrow> ('k, 'v) btree" where
  "bt_remove k m = filter (\<lambda>e. fst e \<noteq> k) m"

text \<open>\<^verbatim>\<open>get_mut\<close> followed by an assignment through the reference.\<close>

definition bt_adjust :: "'k \<Rightarrow> ('v \<Rightarrow> 'v) \<Rightarrow> ('k, 'v) btree \<Rightarrow> ('k, 'v) btree" where
  "bt_adjust k f m = map (\<lambda>e. if fst e = k then (fst e, f (snd e)) else e) m"

definition bt_keys :: "('k, 'v) btree \<Rightarrow> 'k list" where
  "bt_keys m = map fst m"

definition bt_values :: "('k, 'v) btree \<Rightarrow> 'v list" where
  "bt_values m = map snd m"

definition bt_mem :: "('k, 'v) btree \<Rightarrow> 'k \<Rightarrow> bool" where
  "bt_mem m k \<longleftrightarrow> bt_get m k \<noteq> None"

lemma bt_get_Nil [simp]: "bt_get [] k = None"
  by (simp add: bt_get_def)

lemma bt_get_Cons: "bt_get (e # m) k = (if k = fst e then Some (snd e) else bt_get m k)"
  by (simp add: bt_get_def)

lemma bt_wf_Nil [simp]: "bt_wf []"
  by (simp add: bt_wf_def)

lemma bt_wf_Cons: "bt_wf (e # m) \<longleftrightarrow> (\<forall>k \<in> set (map fst m). fst e < k) \<and> bt_wf m"
  by (simp add: bt_wf_def)

lemma keys_bt_insert: "set (map fst (bt_insert k v m)) = insert k (set (map fst m))"
  by (induction m) auto

lemma bt_insert_insert: "bt_insert k v (bt_insert k w m) = bt_insert k v m"
  by (induction m) auto

lemma bt_get_insert [simp]: "bt_get (bt_insert k v m) k' = (if k' = k then Some v else bt_get m k')"
  by (induction m) (auto simp: bt_get_Cons)

lemma bt_wf_insert [simp, wf_intros]: "bt_wf m \<Longrightarrow> bt_wf (bt_insert k v m)"
proof (induction m)
  case Nil
  show ?case by (simp add: bt_wf_def)
next
  case (Cons e m)
  then show ?case
    using keys_bt_insert [of k v m] by (auto simp: bt_wf_Cons simp del: set_map)
qed

lemma bt_get_remove [simp]: "bt_get (bt_remove k m) k' = (if k' = k then None else bt_get m k')"
  by (induction m) (auto simp: bt_get_def bt_remove_def)

lemma bt_wf_remove [simp, wf_intros]: "bt_wf m \<Longrightarrow> bt_wf (bt_remove k m)"
  by (induction m) (auto simp: bt_wf_Cons bt_remove_def)

lemma keys_bt_adjust [simp]: "map fst (bt_adjust k f m) = map fst m"
  by (auto simp: bt_adjust_def)

lemma bt_get_adjust [simp]:
  "bt_get (bt_adjust k f m) k' = (if k' = k then map_option f (bt_get m k') else bt_get m k')"
  by (induction m) (auto simp: bt_get_def bt_adjust_def)

lemma bt_adjust_adjust [simp]: "bt_adjust k f (bt_adjust k g m) = bt_adjust k (\<lambda>v. f (g v)) m"
  by (simp add: bt_adjust_def)

lemma bt_wf_adjust [simp, wf_intros]: "bt_wf (bt_adjust k f m) = bt_wf m"
  by (simp add: bt_wf_def)

lemma bt_get_map_values [simp]:
  "bt_get (map (\<lambda>e. (fst e, f (snd e))) m) k = map_option f (bt_get m k)"
  by (induction m) (simp_all add: bt_get_Cons)

lemma bt_wf_distinct: "bt_wf m \<Longrightarrow> distinct (map fst m)"
  by (simp add: bt_wf_def strict_sorted_iff)

lemma bt_get_mem: "bt_get m k = Some v \<Longrightarrow> (k, v) \<in> set m"
  by (simp add: bt_get_def map_of_SomeD)

lemma bt_mem_get: "bt_wf m \<Longrightarrow> (k, v) \<in> set m \<Longrightarrow> bt_get m k = Some v"
  by (simp add: bt_get_def bt_wf_distinct)

lemma bt_get_iff: "bt_wf m \<Longrightarrow> bt_get m k = Some v \<longleftrightarrow> (k, v) \<in> set m"
  by (blast intro: bt_get_mem bt_mem_get)

lemma bt_mem_iff: "bt_mem m k \<longleftrightarrow> k \<in> fst ` set m"
  by (simp add: bt_mem_def bt_get_def map_of_eq_None_iff)

lemma bt_mem_insert [simp]: "bt_mem (bt_insert k v m) k' \<longleftrightarrow> k' = k \<or> bt_mem m k'"
  by (simp add: bt_mem_def)

lemma bt_mem_adjust [simp]: "bt_mem (bt_adjust k f m) k' \<longleftrightarrow> bt_mem m k'"
  by (auto simp: bt_mem_def)

lemma bt_mem_remove [simp]: "bt_mem (bt_remove k m) k' \<longleftrightarrow> k' \<noteq> k \<and> bt_mem m k'"
  by (simp add: bt_mem_def)

lemma bt_values_mem: "v \<in> set (bt_values m) \<longleftrightarrow> (\<exists>k. (k, v) \<in> set m)"
  by (force simp: bt_values_def)

lemma length_bt_insert: "bt_wf m \<Longrightarrow> \<not> bt_mem m k \<Longrightarrow> length (bt_insert k v m) = Suc (length m)"
  by (induction m) (auto simp: bt_wf_Cons bt_mem_def bt_get_Cons split: if_splits)

text \<open>Two maps with the same lookups are equal: the derived equality is extensional.\<close>

lemma bt_eqI:
  assumes "bt_wf m" and "bt_wf n" and "\<And>k. bt_get m k = bt_get n k"
  shows "m = n"
proof -
  have eq: "set m = set n"
    using assms by (auto simp: bt_get_iff [symmetric])
  have inj: "inj_on fst (set m \<union> set n)"
    using bt_wf_distinct [OF assms(2)] by (simp add: eq distinct_map)
  from inj show ?thesis
    using assms(1,2) eq
    by (intro map_sorted_distinct_set_unique [of fst]) (auto simp: bt_wf_def strict_sorted_iff)
qed

text \<open>Filling a map in a loop whose values depend on the key alone.\<close>

lemma bt_get_fill:
  "bt_get (foldl (\<lambda>m k. bt_insert k (f k) m) m ks) k =
    (if k \<in> set ks then Some (f k) else bt_get m k)"
  by (induction ks arbitrary: m) auto

lemma bt_wf_fill: "bt_wf m \<Longrightarrow> bt_wf (foldl (\<lambda>m k. bt_insert k (f k) m) m ks)"
  by (induction ks arbitrary: m) auto

text \<open>The number of entries with a property is the number of keys that look up to one.\<close>

lemma length_filter_bt:
  assumes "bt_wf m"
  shows "length (filter P m) = card {k. \<exists>v. bt_get m k = Some v \<and> P (k, v)}"
proof -
  have dist: "distinct (map fst (filter P m))"
    using bt_wf_distinct [OF assms] by (rule distinct_map_filter)
  have "set (map fst (filter P m)) = {k. \<exists>v. bt_get m k = Some v \<and> P (k, v)}"
    using bt_get_iff [OF assms] by force
  then show ?thesis using distinct_card [OF dist] by simp
qed

text \<open>
  The contract of an ordered map, as the components rely on it: what a lookup returns after an
  insertion and a removal, and that the representation invariant is kept.
\<close>

locale ordered_map =
  fixes empty_map :: "'m"
    and get :: "'m \<Rightarrow> 'k \<Rightarrow> 'v option"
    and ins :: "'k \<Rightarrow> 'v \<Rightarrow> 'm \<Rightarrow> 'm"
    and rem :: "'k \<Rightarrow> 'm \<Rightarrow> 'm"
    and wf :: "'m \<Rightarrow> bool"
  assumes wf_empty: "wf empty_map"
    and get_empty: "get empty_map k = None"
    and wf_ins: "wf m \<Longrightarrow> wf (ins k v m)"
    and wf_rem: "wf m \<Longrightarrow> wf (rem k m)"
    and get_ins: "wf m \<Longrightarrow> get (ins k v m) k' = (if k' = k then Some v else get m k')"
    and get_rem: "wf m \<Longrightarrow> get (rem k m) k' = (if k' = k then None else get m k')"
    and map_ext: "wf m \<Longrightarrow> wf n \<Longrightarrow> (\<And>k. get m k = get n k) \<Longrightarrow> m = n"
begin

lemma ins_ins_same: "wf m \<Longrightarrow> ins k v (ins k w m) = ins k v m"
  by (rule map_ext) (simp_all add: wf_ins get_ins)

lemma ins_commute: "wf m \<Longrightarrow> k \<noteq> l \<Longrightarrow> ins k v (ins l w m) = ins l w (ins k v m)"
  by (rule map_ext) (auto simp: wf_ins get_ins)

lemma rem_ins_fresh: "wf m \<Longrightarrow> get m k = None \<Longrightarrow> rem k (ins k v m) = m"
  by (rule map_ext) (auto simp: wf_ins wf_rem get_ins get_rem)

lemma fold_ins_wf: "wf m \<Longrightarrow> wf (foldl (\<lambda>m e. ins (fst e) (snd e) m) m es)"
  by (induction es arbitrary: m) (auto simp: wf_ins)

end

interpretation bt: ordered_map "[]" bt_get bt_insert bt_remove bt_wf
proof (rule ordered_map.intro, goal_cases)
  case (7 m n)
  then show ?case by (rule bt_eqI)
qed (simp_all only: bt_wf_Nil bt_get_Nil bt_wf_insert bt_wf_remove bt_get_insert bt_get_remove)

end
