(* ===== verification/Text_Format.thy ===== *)
theory Text_Format
  imports Prelude
begin

text \<open>
  The part of Rust's string library the small state files are written and read with: decimal
  printing and \<^verbatim>\<open>str::parse\<close> of unsigned integers, \<^verbatim>\<open>str::lines\<close>,
  \<^verbatim>\<open>str::split_once\<close> and \<^verbatim>\<open>str::trim\<close>. A text is a list of characters with code points up
  to 255. The locale \<open>text_codec\<close> is the contract of a state file: what was written is what is
  read back.
\<close>

section \<open>Decimal numbers\<close>

definition digit :: "nat \<Rightarrow> char" where
  "digit d = char_of (48 + d)"

definition is_digit :: "char \<Rightarrow> bool" where
  "is_digit c \<longleftrightarrow> (48::nat) \<le> of_char c \<and> (of_char c :: nat) \<le> 57"

definition digit_val :: "char \<Rightarrow> nat" where
  "digit_val c = of_char c - 48"

fun show_nat :: "nat \<Rightarrow> string" where
  "show_nat n = (if n < 10 then [digit n] else show_nat (n div 10) @ [digit (n mod 10)])"

declare show_nat.simps [simp del]

definition show_word :: "'a::len word \<Rightarrow> string" where
  "show_word w = show_nat (unat w)"

definition read_digits :: "string \<Rightarrow> nat" where
  "read_digits ds = foldl (\<lambda>n c. 10 * n + digit_val c) 0 ds"

text \<open>
  A leading plus is accepted unless it is the whole text; the empty text, any other character and
  a value that does not fit the width are refused.
\<close>

definition parse_word :: "string \<Rightarrow> 'a::len word option" where
  "parse_word s =
     (let ds = (if s \<noteq> [] \<and> hd s = CHR ''+'' \<and> tl s \<noteq> [] then tl s else s) in
      if ds \<noteq> [] \<and> list_all is_digit ds \<and> read_digits ds < 2 ^ LENGTH('a)
      then Some (word_of_nat (read_digits ds)) else None)"

lemma of_char_digit: "d < 10 \<Longrightarrow> (of_char (digit d) :: nat) = 48 + d"
  by (simp add: digit_def)

lemma is_digit_digit: "d < 10 \<Longrightarrow> is_digit (digit d)"
  by (simp add: is_digit_def of_char_digit)

lemma digit_val_digit: "d < 10 \<Longrightarrow> digit_val (digit d) = d"
  by (simp add: digit_val_def of_char_digit)

lemma show_nat_digits: "list_all is_digit (show_nat n)"
  by (induction n rule: show_nat.induct)
    (subst show_nat.simps, auto simp: is_digit_digit)

lemma show_nat_nonempty [simp]: "show_nat n \<noteq> []"
  by (subst show_nat.simps) simp

lemma read_show_nat: "read_digits (show_nat n) = n"
proof (induction n rule: show_nat.induct)
  case (1 n)
  then show ?case
    by (subst show_nat.simps) (auto simp: read_digits_def digit_val_digit)
qed

lemma digit_not_plus: "is_digit c \<Longrightarrow> c \<noteq> CHR ''+''"
  by (auto simp: is_digit_def)

lemma parse_show_word [simp]: "parse_word (show_word w) = Some w"
proof -
  have "hd (show_nat (unat w)) \<noteq> CHR ''+''"
    using show_nat_digits [of "unat w"] digit_not_plus by (cases "show_nat (unat w)") auto
  then show ?thesis
    using unat_bound [of w]
    by (simp add: parse_word_def show_word_def show_nat_digits read_show_nat Let_def)
qed

section \<open>Lines and fields\<close>

definition newline :: char where
  "newline = CHR 0x0A"

definition strip_cr :: "string \<Rightarrow> string" where
  "strip_cr l = (if l \<noteq> [] \<and> last l = CHR 0x0D then butlast l else l)"

text \<open>A carriage return is part of the line ending only in front of a line feed.\<close>

function text_lines :: "string \<Rightarrow> string list" where
  "text_lines s =
     (if s = [] then []
      else if newline \<in> set s
      then strip_cr (takeWhile (\<lambda>c. c \<noteq> newline) s)
             # text_lines (tl (dropWhile (\<lambda>c. c \<noteq> newline) s))
      else [s])"
  by pat_completeness auto
termination
proof (relation "measure length")
  fix s :: string
  assume "s \<noteq> []"
  have "length (dropWhile (\<lambda>c. c \<noteq> newline) s) \<le> length s" by (rule length_dropWhile_le)
  moreover have "0 < length s" using \<open>s \<noteq> []\<close> by simp
  ultimately have "length (tl (dropWhile (\<lambda>c. c \<noteq> newline) s)) < length s"
    by (simp only: length_tl)
  then show "(tl (dropWhile (\<lambda>c. c \<noteq> newline) s), s) \<in> measure length" by simp
qed simp

declare text_lines.simps [simp del]

definition split_once :: "char \<Rightarrow> string \<Rightarrow> (string \<times> string) option" where
  "split_once c s =
     (if c \<in> set s then Some (takeWhile (\<lambda>x. x \<noteq> c) s, tl (dropWhile (\<lambda>x. x \<noteq> c) s)) else None)"

definition is_whitespace :: "char \<Rightarrow> bool" where
  "is_whitespace c \<longleftrightarrow>
     (let n = of_char c :: nat in 9 \<le> n \<and> n \<le> 13 \<or> n = 32 \<or> n = 133 \<or> n = 160)"

definition trim :: "string \<Rightarrow> string" where
  "trim s = rev (dropWhile is_whitespace (rev (dropWhile is_whitespace s)))"

lemma text_lines_Nil [simp]: "text_lines [] = []"
  by (simp add: text_lines.simps)

text \<open>A line as the writers produce it.\<close>

definition clean_line :: "string \<Rightarrow> bool" where
  "clean_line l \<longleftrightarrow> newline \<notin> set l \<and> strip_cr l = l"

lemma takeWhile_upto: "c \<notin> set l \<Longrightarrow> takeWhile (\<lambda>x. x \<noteq> c) (l @ c # r) = l"
  by (induction l) auto

lemma dropWhile_upto: "c \<notin> set l \<Longrightarrow> dropWhile (\<lambda>x. x \<noteq> c) (l @ c # r) = c # r"
  by (induction l) auto

lemma text_lines_line [simp]:
  "clean_line l \<Longrightarrow> text_lines (l @ newline # r) = l # text_lines r"
  by (subst text_lines.simps) (simp add: clean_line_def takeWhile_upto dropWhile_upto)

lemma text_lines_unlines:
  "list_all clean_line ls \<Longrightarrow> text_lines (concat (map (\<lambda>l. l @ [newline]) ls)) = ls"
  by (induction ls) auto

lemma split_once_field [simp]: "c \<notin> set k \<Longrightarrow> split_once c (k @ c # v) = Some (k, v)"
  by (simp add: split_once_def takeWhile_upto dropWhile_upto)

lemma trim_id:
  assumes "list_all (\<lambda>c. \<not> is_whitespace c) s"
  shows "trim s = s"
proof -
  have "dropWhile is_whitespace t = t" if "list_all (\<lambda>c. \<not> is_whitespace c) t" for t
    using that by (cases t) auto
  from this [of s] this [of "rev s"] show ?thesis using assms by (simp add: trim_def)
qed

lemma digit_not_whitespace: "is_digit c \<Longrightarrow> \<not> is_whitespace c"
  by (auto simp: is_digit_def is_whitespace_def Let_def)

lemma trim_show_word [simp]: "trim (show_word w) = show_word w"
  using show_nat_digits [of "unat w"] digit_not_whitespace
  by (intro trim_id) (auto simp: show_word_def list_all_iff)

lemma show_word_chars: "c \<in> set (show_word w) \<Longrightarrow> is_digit c"
  using show_nat_digits [of "unat w"] by (auto simp: show_word_def list_all_iff)

lemma show_word_nonempty [simp]: "show_word w \<noteq> []"
  by (simp add: show_word_def)

lemma clean_lineI: "newline \<notin> set l \<Longrightarrow> CHR 0x0D \<notin> set l \<Longrightarrow> clean_line l"
  by (metis clean_line_def last_in_set strip_cr_def)

lemma show_word_clean: "newline \<notin> set (show_word w)" "CHR 0x0D \<notin> set (show_word w)"
    "CHR ''='' \<notin> set (show_word w)" "CHR '' '' \<notin> set (show_word w)" "CHR '','' \<notin> set (show_word w)"
  by (auto dest!: show_word_chars simp: is_digit_def newline_def)

lemma show_word_inj: "show_word v = show_word w \<Longrightarrow> v = w"
  by (metis option.inject parse_show_word)

section \<open>The contract of a state file\<close>

text \<open>
  A component that keeps its state in a file relies on one law: decoding what was encoded returns
  the state. Different states then have different texts, and rewriting a state that was read back
  does not change the file.
\<close>

locale text_codec =
  fixes encode :: "'s \<Rightarrow> string" and decode :: "string \<Rightarrow> 's result" and valid :: "'s \<Rightarrow> bool"
  assumes decode_encode: "valid s \<Longrightarrow> decode (encode s) = Inr s"
begin

lemma encode_inj: "valid s \<Longrightarrow> valid t \<Longrightarrow> encode s = encode t \<Longrightarrow> s = t"
  by (metis decode_encode sum.inject(2))

lemma rewrite_stable: "valid s \<Longrightarrow> decode (encode s) = Inr t \<Longrightarrow> encode t = encode s"
  by (simp add: decode_encode)

end

end
