(* ===== verification/Disk_File.thy ===== *)
theory Disk_File
  imports Prelude
begin

text \<open>
  Replacing a file through a temporary and a rename, the way the catalog
  (\<^verbatim>\<open>persist_value\<close> of \<^verbatim>\<open>src/src/cluster/catalog.rs\<close>) and the join-token ledger
  (\<^verbatim>\<open>persist\<close> of \<^verbatim>\<open>src/src/cluster/control.rs\<close>) write to disk. A fault says where the write
  stops; a short write leaves a prefix in the temporary. A rename is atomic. The type of a byte is
  a parameter of the slot.
\<close>

type_synonym bytes = "u8 list"

datatype write_fault = WfOk | WfDir | WfCreate | WfShort nat | WfSync | WfRename | WfDirSync

record 'b file_slot =
  fs_file :: "'b list option"
  fs_tmp :: "'b list option"

definition replace_file :: "write_fault \<Rightarrow> 'b list \<Rightarrow> 'b file_slot \<Rightarrow> 'b file_slot \<times> unit result" where
  "replace_file fault body d =
     (case fault of
        WfDir \<Rightarrow> (d, Inl (Manifest ''creating''))
      | WfCreate \<Rightarrow> (d, Inl (Manifest ''creating''))
      | WfShort n \<Rightarrow> (d\<lparr>fs_tmp := Some (take n body)\<rparr>, Inl (Manifest ''writing''))
      | WfSync \<Rightarrow> (d\<lparr>fs_tmp := Some body\<rparr>, Inl (Manifest ''fsyncing''))
      | WfRename \<Rightarrow> (d\<lparr>fs_tmp := Some body\<rparr>, Inl (Manifest ''renaming into''))
      | WfDirSync \<Rightarrow> (d\<lparr>fs_file := Some body, fs_tmp := None\<rparr>, Inl (Manifest ''fsyncing''))
      | WfOk \<Rightarrow> (d\<lparr>fs_file := Some body, fs_tmp := None\<rparr>, Inr ()))"

text \<open>Whatever happens, the file is the old one or the whole new one; success means the new one.\<close>

lemma replace_file_cases:
  obtains (ok) d' where "replace_file fault body d = (d', Inr ())" "fs_file d' = Some body"
    | (late) d' e where "replace_file fault body d = (d', Inl e)" "fs_file d' = Some body"
    | (failed) d' e where "replace_file fault body d = (d', Inl e)" "fs_file d' = fs_file d"
proof -
  have "(fault = WfOk \<and> replace_file fault body d = (d\<lparr>fs_file := Some body, fs_tmp := None\<rparr>, Inr ())) \<or>
    (\<exists>d' e. replace_file fault body d = (d', Inl e) \<and>
      (fs_file d' = Some body \<or> fs_file d' = fs_file d))"
    by (cases fault) (simp_all add: replace_file_def)
  then show thesis using ok late failed by auto
qed

end
