(* ===== verification/Routing.thy ===== *)
theory Routing
  imports Prelude
begin

unbundle bit_operations_syntax

text \<open>
  The key routing of \<^verbatim>\<open>src/src/shard/routing.rs\<close>: the FNV-1a hash, the fixed-count router
  \<open>ModuloV1\<close> and the incrementally growing router \<open>LinearV1\<close>. The definitions keep
  the widths of the source (a 64-bit hash, 32-bit shard ids, an 8-bit level); the lemmas first
  relate them to linear hashing on natural numbers and then read the source's promises off that.
\<close>

section \<open>The hash and the modulo router\<close>

definition fnv_offset :: u64 where
  "fnv_offset = 0xcbf29ce484222325"

definition fnv_prime :: u64 where
  "fnv_prime = 0x00000100000001b3"

definition hash_key :: "u8 list \<Rightarrow> u64" where
  "hash_key key = foldl (\<lambda>hash byte. (hash XOR ucast byte) * fnv_prime) fnv_offset key"

record modulo_v1 =
  modulo_shard_count :: u32

definition modulo_new :: "u32 \<Rightarrow> modulo_v1 result" where
  "modulo_new shard_count =
     (if shard_count = 0
      then Inl (ShardConfig ''modulo routing requires at least one shard'')
      else Inr \<lparr>modulo_shard_count = shard_count\<rparr>)"

definition modulo_route_hash :: "modulo_v1 \<Rightarrow> u64 \<Rightarrow> shard_id" where
  "modulo_route_hash r hash = ucast (hash mod ucast (modulo_shard_count r))"

definition modulo_route :: "modulo_v1 \<Rightarrow> u8 list \<Rightarrow> shard_id" where
  "modulo_route r key = modulo_route_hash r (hash_key key)"

section \<open>The linear router\<close>

record linear_v1 =
  level :: u8
  split_pointer :: u32

definition linear_ONE :: linear_v1 where
  "linear_ONE = \<lparr>level = 0, split_pointer = 0\<rparr>"

definition base_for :: "u8 \<Rightarrow> u32 result" where
  "base_for l =
     (if unat l < 32 then Inr (push_bit (unat l) 1)
      else Inl (ShardConfig ''linear routing level exceeds the u32 shard-id space''))"

definition linear_new :: "u8 \<Rightarrow> u32 \<Rightarrow> linear_v1 result" where
  "linear_new l p =
     and_then (base_for l) (\<lambda>base.
       if base \<le> p then Inl (ShardConfig ''linear routing split_pointer is outside the level'')
       else Inr \<lparr>level = l, split_pointer = p\<rparr>)"

text \<open>\<^verbatim>\<open>u32::leading_zeros\<close>, by the number of significant bits.\<close>

fun bit_len :: "nat \<Rightarrow> nat" where
  "bit_len n = (if n = 0 then 0 else Suc (bit_len (n div 2)))"

declare bit_len.simps [simp del]

definition leading_zeros :: "u32 \<Rightarrow> nat" where
  "leading_zeros w = 32 - bit_len (unat w)"

definition linear_for_shard_count :: "u32 \<Rightarrow> linear_v1 result" where
  "linear_for_shard_count active_shards =
     (if active_shards = 0
      then Inl (ShardConfig ''linear routing requires at least one shard'')
      else
        let l = word_of_nat (31 - leading_zeros active_shards) :: u8;
            base = push_bit (unat l) 1 :: u32
        in linear_new l (active_shards - base))"

text \<open>A shift by the width or more is masked, as in a release build.\<close>

definition linear_base :: "linear_v1 \<Rightarrow> u32" where
  "linear_base r = push_bit (unat (level r) mod 32) 1"

definition linear_shard_count :: "linear_v1 \<Rightarrow> u32" where
  "linear_shard_count r = linear_base r + split_pointer r"

definition split_source :: "linear_v1 \<Rightarrow> shard_id" where
  "split_source r = split_pointer r"

definition split_destination :: "linear_v1 \<Rightarrow> shard_id" where
  "split_destination r = linear_base r + split_pointer r"

definition grown :: "linear_v1 \<Rightarrow> linear_v1 result" where
  "grown r =
     (let base = linear_base r; next_p = split_pointer r + 1 in
      if next_p = base
      then and_then (ok_or (checked_add (level r) 1)
                       (ShardConfig ''linear routing exhausted its level space''))
             (\<lambda>l. linear_new l 0)
      else linear_new (level r) next_p)"

definition linear_route_hash :: "linear_v1 \<Rightarrow> u64 \<Rightarrow> shard_id" where
  "linear_route_hash r hash =
     (let base = ucast (linear_base r) :: u64; first = ucast (hash mod base) :: u32 in
      if first < split_pointer r then ucast (hash mod (base * 2)) else first)"

definition linear_route :: "linear_v1 \<Rightarrow> u8 list \<Rightarrow> shard_id" where
  "linear_route r key = linear_route_hash r (hash_key key)"

section \<open>The versioned router\<close>

datatype routing = ModuloV1 modulo_v1 | LinearV1 linear_v1

fun routing_route :: "routing \<Rightarrow> u8 list \<Rightarrow> shard_id" where
  "routing_route (ModuloV1 r) key = modulo_route r key"
| "routing_route (LinearV1 r) key = linear_route r key"

fun routing_shard_count :: "routing \<Rightarrow> u32" where
  "routing_shard_count (ModuloV1 r) = modulo_shard_count r"
| "routing_shard_count (LinearV1 r) = linear_shard_count r"

section \<open>Linear hashing on the natural numbers\<close>

text \<open>The invariant the constructors establish.\<close>

definition linear_wf :: "linear_v1 \<Rightarrow> bool" where
  "linear_wf r \<longleftrightarrow> unat (level r) < 32 \<and> split_pointer r < linear_base r"

definition modulo_wf :: "modulo_v1 \<Rightarrow> bool" where
  "modulo_wf r \<longleftrightarrow> modulo_shard_count r \<noteq> 0"

fun routing_wf :: "routing \<Rightarrow> bool" where
  "routing_wf (ModuloV1 r) = modulo_wf r"
| "routing_wf (LinearV1 r) = linear_wf r"

text \<open>The textbook address function: level \<open>l\<close>, split pointer \<open>p\<close>.\<close>

definition lh_address :: "nat \<Rightarrow> nat \<Rightarrow> nat \<Rightarrow> nat" where
  "lh_address l p h = (if h mod 2 ^ l < p then h mod 2 ^ Suc l else h mod 2 ^ l)"

lemma mod_double: "h mod (2 * b) = h mod b \<or> h mod (2 * b) = h mod b + b" for h b :: nat
proof -
  have "h mod (2 * b) = b * (h div b mod 2) + h mod b"
    using mod_mult2_eq [of h b 2] by (simp add: mult.commute)
  then show ?thesis by (cases "h div b mod 2 = 0") auto
qed

lemma lh_address_bound:
  assumes "p < 2 ^ l"
  shows "lh_address l p h < 2 ^ l + p"
proof (cases "h mod 2 ^ l < p")
  case True
  then show ?thesis
    using mod_double [of h "2 ^ l"] by (auto simp: lh_address_def)
next
  case False
  have "h mod 2 ^ l < 2 ^ l" by simp
  then have "h mod 2 ^ l < 2 ^ l + p" by (rule trans_less_add1)
  with False show ?thesis by (simp add: lh_address_def)
qed

lemma lh_address_grow:
  assumes moved: "lh_address l (Suc p) h \<noteq> lh_address l p h"
  shows "lh_address l p h = p \<and> lh_address l (Suc p) h = 2 ^ l + p"
proof -
  have eq: "h mod 2 ^ l = p"
    using moved by (auto simp: lh_address_def split: if_splits)
  then show ?thesis
    using mod_double [of h "2 ^ l"] moved by (auto simp: lh_address_def)
qed

lemma lh_address_next_level: "lh_address (Suc l) 0 h = lh_address l (2 ^ l) h"
  by (simp add: lh_address_def)

lemma lh_address_surj:
  assumes "p < 2 ^ l" and "s < 2 ^ l + p"
  shows "lh_address l p s = s"
proof (cases "s < 2 ^ l")
  case True
  then show ?thesis by (simp add: lh_address_def)
next
  case False
  then have "s mod 2 ^ l = s - 2 ^ l"
    using assms by (simp add: mod_if)
  with False assms show ?thesis by (simp add: lh_address_def)
qed

section \<open>The word-level router computes that address\<close>

lemma unat_widen [simp]: "unat (ucast (w :: u32) :: u64) = unat w"
proof -
  have "unat w < 2 ^ 32" using unsigned_less [of w] by simp
  then have "unat w < 2 ^ 64" by simp
  then show ?thesis by (simp add: unsigned_ucast_eq take_bit_nat_eq_self)
qed

lemma unat_narrow: "unat (ucast (w :: u64) :: u32) = unat w mod 2 ^ 32"
  by (simp add: unsigned_ucast_eq take_bit_eq_mod)

lemma unat_narrow_small [simp]: "unat w < 2 ^ 32 \<Longrightarrow> unat (ucast (w :: u64) :: u32) = unat w"
  by (simp add: unat_narrow)

lemma unat_two_power: "n < 32 \<Longrightarrow> unat ((2 :: u32) ^ n) = 2 ^ n"
proof -
  assume "n < 32"
  then have "(2::nat) ^ n < 2 ^ 32" by (rule power_strict_increasing) simp
  then show ?thesis using unat_of_nat [where ?'a = 32, of "2 ^ n"] by simp
qed

lemma unat_shl_one: "n < 32 \<Longrightarrow> unat (push_bit n 1 :: u32) = 2 ^ n"
  by (simp add: unat_two_power)

lemma unat_linear_base: "unat (level r) < 32 \<Longrightarrow> unat (linear_base r) = 2 ^ unat (level r)"
  by (simp add: linear_base_def unat_two_power)

lemma linear_wf_nat:
  "linear_wf r \<longleftrightarrow> unat (level r) < 32 \<and> unat (split_pointer r) < 2 ^ unat (level r)"
  by (auto simp: linear_wf_def word_less_nat_alt unat_linear_base)

lemma pow_level_le: "l < 32 \<Longrightarrow> (2::nat) ^ l \<le> 2 ^ 31"
  by (rule power_increasing) auto

lemma linear_route_hash_address:
  assumes wf: "linear_wf r"
  shows "unat (linear_route_hash r h) =
    lh_address (unat (level r)) (unat (split_pointer r)) (unat h)"
proof -
  let ?l = "unat (level r)" and ?base = "ucast (linear_base r) :: u64"
  have l: "?l < 32" using wf by (simp add: linear_wf_def)
  have le: "(2::nat) ^ ?l \<le> 2 ^ 31" using l by (rule pow_level_le)
  have base: "unat ?base = 2 ^ ?l" using l by (simp add: unat_linear_base)
  have base2: "unat (?base * 2) = 2 ^ Suc ?l"
    using le base by (simp add: unat_word_ariths)
  have m1: "unat (h mod ?base) = unat h mod 2 ^ ?l"
    by (simp only: unat_mod base)
  have m2: "unat (h mod (?base * 2)) = unat h mod 2 ^ Suc ?l"
    by (simp only: unat_mod base2)
  have lt: "unat (h mod ?base) < 2 ^ 32" "unat (h mod (?base * 2)) < 2 ^ 32"
    unfolding m1 m2 by (rule less_le_trans [OF mod_less_divisor]; use le in simp)+
  have first: "unat (ucast (h mod ?base) :: u32) = unat h mod 2 ^ ?l"
    using lt(1) m1 by (simp only: unat_narrow_small)
  have second: "unat (ucast (h mod (?base * 2)) :: u32) = unat h mod 2 ^ Suc ?l"
    using lt(2) m2 by (simp only: unat_narrow_small)
  show ?thesis
    unfolding linear_route_hash_def lh_address_def Let_def word_less_nat_alt first
    by (simp only: second first split: if_split) blast
qed

lemma unat_linear_shard_count:
  assumes "linear_wf r"
  shows "unat (linear_shard_count r) = 2 ^ unat (level r) + unat (split_pointer r)"
proof -
  have "(2::nat) ^ unat (level r) \<le> 2 ^ 31"
    using assms by (intro pow_level_le) (simp add: linear_wf_def)
  then show ?thesis
    using assms by (simp add: linear_shard_count_def unat_word_ariths unat_linear_base linear_wf_nat)
qed

lemma linear_new_Inr_iff:
  "linear_new l p = Inr r \<longleftrightarrow> r = \<lparr>level = l, split_pointer = p\<rparr> \<and> linear_wf r"
  by (auto simp: linear_new_def base_for_def linear_wf_def linear_base_def not_le)

text \<open>The significant bits of a positive number bracket it between two powers of two.\<close>

lemma bit_len_bounds: "0 < n \<Longrightarrow> 0 < bit_len n \<and> 2 ^ (bit_len n - 1) \<le> n \<and> n < 2 ^ bit_len n"
proof (induction n rule: bit_len.induct)
  case (1 n)
  show ?case
  proof (cases "n div 2 = 0")
    case True
    with "1.prems" have "n = 1" by simp
    then show ?thesis by (simp add: bit_len.simps)
  next
    case False
    with 1 have IH: "0 < bit_len (n div 2)" "2 ^ (bit_len (n div 2) - 1) \<le> n div 2"
        "n div 2 < 2 ^ bit_len (n div 2)"
      by auto
    have "(2::nat) ^ bit_len (n div 2) = 2 * 2 ^ (bit_len (n div 2) - 1)"
      using IH(1) by (simp add: power_eq_if)
    also have "\<dots> \<le> n" using IH(2) by simp
    finally have "(2::nat) ^ bit_len (n div 2) \<le> n" .
    moreover have "n < 2 * 2 ^ bit_len (n div 2)" using IH(3) by linarith
    ultimately show ?thesis using "1.prems" by (simp add: bit_len.simps [of n])
  qed
qed

lemma bit_len_unique: "2 ^ l \<le> n \<Longrightarrow> n < 2 ^ Suc l \<Longrightarrow> bit_len n = Suc l"
proof -
  assume lo: "2 ^ l \<le> n" and hi: "n < 2 ^ Suc l"
  have "(0::nat) < 2 ^ l" by simp
  with lo have pos: "0 < n" by linarith
  note b = bit_len_bounds [OF pos]
  have "(2::nat) ^ (bit_len n - 1) < 2 ^ Suc l" using b hi by linarith
  then have "bit_len n - 1 < Suc l" by (rule power_less_imp_less_exp [rotated]) simp
  moreover have "(2::nat) ^ l < 2 ^ bit_len n" using b lo by linarith
  then have "l < bit_len n" by (rule power_less_imp_less_exp [rotated]) simp
  ultimately show ?thesis by simp
qed

lemma linear_for_shard_count_spec:
  assumes lo: "2 ^ l \<le> unat n" and hi: "unat n < 2 ^ Suc l"
  shows "linear_for_shard_count n =
    Inr \<lparr>level = word_of_nat l, split_pointer = n - push_bit l 1\<rparr> \<and> l < 32"
proof -
  have "unat n < 2 ^ 32" using unsigned_less [of n] by simp
  with lo have "(2::nat) ^ l < 2 ^ 32" by linarith
  then have l: "l < 32" by (rule power_less_imp_less_exp [rotated]) simp
  have bl: "bit_len (unat n) = Suc l" using lo hi by (rule bit_len_unique)
  then have lz: "31 - leading_zeros n = l" using l by (simp add: leading_zeros_def)
  have nz: "n \<noteq> 0" using lo by (auto simp: unat_eq_0)
  have ul: "unat (word_of_nat l :: u8) = l" using l by (simp add: unat_of_nat)
  have le: "push_bit l 1 \<le> n" using lo l by (simp add: word_le_nat_alt unat_two_power)
  have lt: "n - push_bit l 1 < push_bit l 1"
    using lo hi l le by (simp add: word_less_nat_alt word_le_nat_alt unat_sub_if' unat_two_power)
  show ?thesis
    using nz lz ul l lt by (simp add: linear_for_shard_count_def linear_new_def base_for_def not_le Let_def)
qed

lemma linear_for_shard_count_of_wf:
  assumes wf: "linear_wf r"
  shows "linear_for_shard_count (linear_shard_count r) = Inr r"
proof -
  have l: "unat (level r) < 32" using wf by (simp add: linear_wf_def)
  have base: "push_bit (unat (level r)) 1 = linear_base r" using l by (simp add: linear_base_def)
  have "linear_for_shard_count (linear_shard_count r) =
      Inr \<lparr>level = word_of_nat (unat (level r)),
           split_pointer = linear_shard_count r - push_bit (unat (level r)) 1\<rparr>"
    using linear_for_shard_count_spec [of "unat (level r)" "linear_shard_count r"] wf
    by (simp add: unat_linear_shard_count linear_wf_nat)
  then show ?thesis by (simp only: base) (simp add: linear_shard_count_def)
qed

lemma grown_wf: "grown r = Inr r' \<Longrightarrow> linear_wf r'"
  by (auto simp: grown_def Let_def result_simps linear_new_Inr_iff split: if_splits)

text \<open>One growth step on natural numbers: the pointer advances, or the level doubles.\<close>

lemma grown_cases:
  assumes wf: "linear_wf r" and g: "grown r = Inr r'"
  obtains (advance) "unat (level r') = unat (level r)"
      and "unat (split_pointer r') = Suc (unat (split_pointer r))"
  | (double) "unat (level r') = Suc (unat (level r))" and "unat (split_pointer r') = 0"
      and "Suc (unat (split_pointer r)) = 2 ^ unat (level r)"
proof -
  let ?p = "split_pointer r"
  have "(2::nat) ^ unat (level r) \<le> 2 ^ 31"
    using wf by (intro pow_level_le) (simp add: linear_wf_def)
  then have "Suc (unat ?p) < 2 ^ 32" using wf by (simp add: linear_wf_nat)
  then have succ: "unat (?p + 1) = Suc (unat ?p)" by (simp add: unat_word_ariths)
  show thesis
  proof (cases "?p + 1 = linear_base r")
    case True
    then have eq: "Suc (unat ?p) = 2 ^ unat (level r)"
      using wf succ by (simp add: linear_wf_def unat_linear_base)
    from True g obtain l where "checked_add (level r) 1 = Some l"
      and "r' = \<lparr>level = l, split_pointer = 0\<rparr>"
      by (auto simp: grown_def Let_def result_simps linear_new_Inr_iff)
    then show thesis using double eq unat_checked_add by fastforce
  next
    case False
    then show thesis using g succ advance
      by (auto simp: grown_def Let_def linear_new_Inr_iff)
  qed
qed

lemma grown_Inl:
  assumes wf: "linear_wf r" and g: "grown r = Inl e"
  shows "linear_shard_count r = - 1 \<and>
    e = ShardConfig ''linear routing level exceeds the u32 shard-id space''"
proof -
  have p: "unat (split_pointer r) < 2 ^ unat (level r)" and l: "unat (level r) < 32"
    using wf by (simp_all add: linear_wf_nat)
  have succ: "unat (split_pointer r + 1) = Suc (unat (split_pointer r))"
    using p pow_level_le [OF l] by (simp add: unat_word_ariths)
  have full: "split_pointer r + 1 = linear_base r"
  proof (rule ccontr)
    assume ne: "split_pointer r + 1 \<noteq> linear_base r"
    then have "Suc (unat (split_pointer r)) \<noteq> 2 ^ unat (level r)"
      using succ l by (metis unat_linear_base word_unat_eq_iff)
    then have "linear_wf \<lparr>level = level r, split_pointer = split_pointer r + 1\<rparr>"
      using p l succ by (simp add: linear_wf_nat)
    then have "linear_new (level r) (split_pointer r + 1) =
        Inr \<lparr>level = level r, split_pointer = split_pointer r + 1\<rparr>"
      by (simp add: linear_new_Inr_iff)
    with g ne show False by (simp add: grown_def Let_def)
  qed
  have lv: "unat (level r + 1) = Suc (unat (level r))" "checked_add (level r) 1 = Some (level r + 1)"
    using l by (simp_all add: checked_add_def unat_word_ariths)
  then have n: "linear_new (level r + 1) 0 = Inl e"
    using g full by (simp add: grown_def Let_def)
  have "unat (level r) = 31"
  proof (rule ccontr)
    assume "unat (level r) \<noteq> 31"
    then have "linear_wf \<lparr>level = level r + 1, split_pointer = 0\<rparr>"
      using l lv by (simp add: linear_wf_nat)
    then have "linear_new (level r + 1) 0 = Inr \<lparr>level = level r + 1, split_pointer = 0\<rparr>"
      by (simp add: linear_new_Inr_iff)
    with n show False by simp
  qed
  then show ?thesis
    using n lv full
    by (simp add: linear_new_def base_for_def linear_shard_count_def linear_base_def)
qed

lemma grown_address:
  assumes "linear_wf r" and "grown r = Inr r'"
  shows "unat (linear_route_hash r' h) =
    lh_address (unat (level r)) (Suc (unat (split_pointer r))) (unat h)"
proof -
  have addr: "unat (linear_route_hash r' h) =
      lh_address (unat (level r')) (unat (split_pointer r')) (unat h)"
    by (rule linear_route_hash_address) (rule grown_wf [OF assms(2)])
  from assms show ?thesis
  proof (cases rule: grown_cases)
    case advance
    with addr show ?thesis by simp
  next
    case double
    with addr lh_address_next_level show ?thesis by simp
  qed
qed

lemma unat_split_destination:
  "linear_wf r \<Longrightarrow> unat (split_destination r) = 2 ^ unat (level r) + unat (split_pointer r)"
  using unat_linear_shard_count by (simp add: split_destination_def linear_shard_count_def)

text \<open>
  (C35) A growth step of the linear router moves a key only from the bucket being split to the
  bucket the step creates; every other key keeps its shard.
\<close>

theorem growth_moves_only_source_to_destination:
  assumes "linear_wf r" and "grown r = Inr r'"
    and "linear_route_hash r' h \<noteq> linear_route_hash r h"
  shows "linear_route_hash r h = split_source r \<and> linear_route_hash r' h = split_destination r"
proof -
  note now = linear_route_hash_address [OF assms(1), of h]
    and later = grown_address [OF assms(1,2), of h]
  from assms(3) have "lh_address (unat (level r)) (Suc (unat (split_pointer r))) (unat h) \<noteq>
      lh_address (unat (level r)) (unat (split_pointer r)) (unat h)"
    by (simp add: word_unat_eq_iff now later)
  from lh_address_grow [OF this] show ?thesis
    using assms(1) by (simp add: word_unat_eq_iff now later split_source_def unat_split_destination)
qed

theorem growth_moves_only_source_to_destination_witness:
  "linear_wf linear_ONE \<and> grown linear_ONE = Inr \<lparr>level = 1, split_pointer = 0\<rparr> \<and>
   linear_route_hash linear_ONE 3 = split_source linear_ONE \<and>
   linear_route_hash \<lparr>level = 1, split_pointer = 0\<rparr> 3 = split_destination linear_ONE"
proof -
  let ?r = "\<lparr>level = 1, split_pointer = 0\<rparr> :: linear_v1"
  have wf: "linear_wf linear_ONE" by (simp add: linear_wf_def linear_ONE_def linear_base_def)
  have g: "grown linear_ONE = Inr ?r"
    by (simp add: grown_def linear_ONE_def linear_base_def checked_add_def linear_new_def base_for_def)
  have "linear_route_hash ?r 3 \<noteq> linear_route_hash linear_ONE 3"
    by (simp add: linear_route_hash_def linear_ONE_def linear_base_def)
  from growth_moves_only_source_to_destination [OF wf g this] wf g show ?thesis by simp
qed

lemma linear_route_hash_range:
  assumes "linear_wf r"
  shows "range (linear_route_hash r) = {s. s < linear_shard_count r}"
proof (intro set_eqI iffI)
  fix s assume "s \<in> range (linear_route_hash r)"
  then show "s \<in> {s. s < linear_shard_count r}"
    using assms lh_address_bound
    by (auto simp: word_less_nat_alt linear_route_hash_address unat_linear_shard_count linear_wf_nat)
next
  fix s assume "s \<in> {s. s < linear_shard_count r}"
  then have "unat (linear_route_hash r (ucast s)) = unat s"
    using assms by (simp add: word_less_nat_alt linear_route_hash_address unat_linear_shard_count
        linear_wf_nat lh_address_surj)
  then show "s \<in> range (linear_route_hash r)"
    by (metis rangeI word_unat_eq_iff)
qed

text \<open>
  (C36) The linear router only ever names active shards, and every active shard is named by some
  hash, so no shard is unreachable.
\<close>

theorem linear_routes_onto_active_shards:
  assumes "linear_wf r"
  shows "range (linear_route_hash r) = {s. s < linear_shard_count r}"
  using assms by (rule linear_route_hash_range)

theorem linear_routes_onto_active_shards_witness:
  "range (linear_route_hash \<lparr>level = 1, split_pointer = 1\<rparr>) = {s. s < 3}"
proof -
  let ?r = "\<lparr>level = 1, split_pointer = 1\<rparr> :: linear_v1"
  have "linear_wf ?r" by (simp add: linear_wf_def linear_base_def)
  from linear_routes_onto_active_shards [OF this] show ?thesis
    by (simp add: linear_shard_count_def linear_base_def)
qed

text \<open>The state built for a count is valid.\<close>

lemma linear_for_shard_count_wf:
  assumes "n \<noteq> 0"
  shows "\<exists>r. linear_for_shard_count n = Inr r \<and> linear_wf r \<and> linear_shard_count r = n"
proof -
  define l where "l = bit_len (unat n) - 1"
  have pos: "0 < unat n" using assms by (simp add: unat_gt_0)
  have lo: "2 ^ l \<le> unat n" and hi: "unat n < 2 ^ Suc l"
    using bit_len_bounds [OF pos] by (simp_all add: l_def)
  define r where "r = (\<lparr>level = word_of_nat l, split_pointer = n - push_bit l 1\<rparr> :: linear_v1)"
  have f: "linear_for_shard_count n = Inr r" and l: "l < 32"
    using linear_for_shard_count_spec [OF lo hi] by (simp_all add: r_def)
  have ul: "unat (level r) = l" using l by (simp add: r_def unat_of_nat)
  have le: "push_bit l 1 \<le> n" using lo l by (simp add: word_le_nat_alt unat_two_power)
  have "unat (split_pointer r) < 2 ^ l"
    using lo hi l le by (simp add: r_def word_le_nat_alt unat_sub_if' unat_two_power)
  then have "linear_wf r" using ul l by (simp add: linear_wf_nat)
  moreover have "linear_shard_count r = n"
    using ul l by (simp add: linear_shard_count_def linear_base_def r_def)
  ultimately show ?thesis using f by blast
qed

text \<open>
  (C37) Shard counts and linear routing states correspond one to one: for a non-zero count the
  constructor returns a valid state with that count, and every valid state with that count is the
  one it returns, so a router persisted by its count alone is rebuilt exactly.
\<close>

theorem shard_count_has_one_canonical_state:
  assumes "n \<noteq> 0"
  shows "\<exists>r. linear_for_shard_count n = Inr r \<and>
    (\<forall>r'. linear_wf r' \<and> linear_shard_count r' = n \<longleftrightarrow> r' = r)"
proof -
  obtain r where r: "linear_for_shard_count n = Inr r" "linear_wf r" "linear_shard_count r = n"
    using linear_for_shard_count_wf [OF assms] by blast
  have "r' = r" if "linear_wf r'" "linear_shard_count r' = n" for r'
    using linear_for_shard_count_of_wf [OF that(1)] that(2) r(1) by simp
  with r show ?thesis by blast
qed

theorem shard_count_has_one_canonical_state_witness:
  "linear_for_shard_count 6 = Inr \<lparr>level = 2, split_pointer = 2\<rparr> \<and>
   (\<forall>r'. linear_wf r' \<and> linear_shard_count r' = 6 \<longleftrightarrow> r' = \<lparr>level = 2, split_pointer = 2\<rparr>)"
proof -
  have f: "linear_for_shard_count 6 = Inr \<lparr>level = 2, split_pointer = 2\<rparr>"
    by (simp add: linear_for_shard_count_def leading_zeros_def bit_len.simps linear_new_def
        base_for_def)
  have "(6::u32) \<noteq> 0" by simp
  from shard_count_has_one_canonical_state [OF this] obtain r
    where "linear_for_shard_count 6 = Inr r"
      and r: "\<forall>r'. linear_wf r' \<and> linear_shard_count r' = 6 \<longleftrightarrow> r' = r" by blast
  then have "r = \<lparr>level = 2, split_pointer = 2\<rparr>" using f by simp
  with f r show ?thesis by blast
qed

text \<open>
  (C38) Growing is the same as rebuilding for one more shard: a growth step returns the canonical
  state of the next count, and it is refused only when the 32-bit shard-id space is exhausted.
\<close>

theorem grown_is_next_shard_count:
  assumes wf: "linear_wf r"
  shows "grown r =
    (if linear_shard_count r = - 1
     then Inl (ShardConfig ''linear routing level exceeds the u32 shard-id space'')
     else linear_for_shard_count (linear_shard_count r + 1))"
proof (cases "grown r")
  case (Inr r')
  have wf': "linear_wf r'" using Inr by (rule grown_wf)
  from wf Inr have c: "unat (linear_shard_count r') = Suc (unat (linear_shard_count r))"
    by (cases rule: grown_cases) (simp_all add: unat_linear_shard_count wf wf')
  then have ne: "linear_shard_count r \<noteq> - 1"
    using succ_fits_iff [of "linear_shard_count r"] unat_bound [of "linear_shard_count r'"] by simp
  then have "unat (linear_shard_count r + 1) = unat (linear_shard_count r')"
    using c succ_fits_iff [of "linear_shard_count r"] by (simp add: unat_word_ariths)
  then have "linear_shard_count r + 1 = linear_shard_count r'"
    by (simp add: word_unat_eq_iff)
  with ne show ?thesis using linear_for_shard_count_of_wf [OF wf'] Inr by simp
next
  case (Inl e)
  then show ?thesis using grown_Inl [OF wf] by simp
qed

theorem grown_is_next_shard_count_witness:
  "grown \<lparr>level = 1, split_pointer = 0\<rparr> = linear_for_shard_count 3"
proof -
  let ?r = "\<lparr>level = 1, split_pointer = 0\<rparr> :: linear_v1"
  have "linear_wf ?r" by (simp add: linear_wf_def linear_base_def)
  from grown_is_next_shard_count [OF this] show ?thesis
    by (simp add: linear_shard_count_def linear_base_def)
qed

section \<open>The contract of a router\<close>

text \<open>
  What the shard manager and the query planner rely on, whichever version is active: the shards a
  router names are exactly the active ones.
\<close>

locale router =
  fixes route :: "'r \<Rightarrow> u64 \<Rightarrow> shard_id" and shards :: "'r \<Rightarrow> u32" and valid :: "'r \<Rightarrow> bool"
  assumes route_range: "valid r \<Longrightarrow> range (route r) = {s. s < shards r}"
begin

lemma route_active: "valid r \<Longrightarrow> route r h < shards r"
  using route_range by blast

lemma some_shard: "valid r \<Longrightarrow> 0 < shards r"
  using route_active by (metis word_gt_0 word_not_simps(1))

text \<open>The hashes are partitioned between the active shards: none is lost and none is shared.\<close>

lemma hashes_partitioned: "valid r \<Longrightarrow> (\<Union>s \<in> {s. s < shards r}. {h. route r h = s}) = UNIV"
  using route_active by auto

end

lemma unat_modulo_route_hash:
  "modulo_wf r \<Longrightarrow> unat (modulo_route_hash r h) = unat h mod unat (modulo_shard_count r)"
proof -
  assume wf: "modulo_wf r"
  let ?c = "modulo_shard_count r"
  have pos: "0 < unat ?c" using wf by (simp add: modulo_wf_def unat_gt_0)
  have lt: "unat (h mod ucast ?c) < 2 ^ 32"
    using mod_less_divisor [OF pos, of "unat h"] unat_bound [of ?c] by (simp add: unat_mod)
  show ?thesis unfolding modulo_route_hash_def unat_narrow_small [OF lt] by (simp add: unat_mod)
qed

interpretation modulo_router: router modulo_route_hash modulo_shard_count modulo_wf
proof (unfold_locales, intro set_eqI iffI)
  fix r s assume wf: "modulo_wf r" and "s \<in> range (modulo_route_hash r)"
  then show "s \<in> {s. s < modulo_shard_count r}"
    by (auto simp: word_less_nat_alt unat_modulo_route_hash modulo_wf_def unat_gt_0)
next
  fix r s assume wf: "modulo_wf r" and "s \<in> {s. s < modulo_shard_count r}"
  then have "unat (modulo_route_hash r (ucast s)) = unat s"
    by (simp add: word_less_nat_alt unat_modulo_route_hash)
  then show "s \<in> range (modulo_route_hash r)" by (metis rangeI word_unat_eq_iff)
qed

interpretation linear_router: router linear_route_hash linear_shard_count linear_wf
  by unfold_locales (rule linear_route_hash_range)

text \<open>
  A linear router whose shard count is a power of two places every key where the modulo
  router with that count places it, so a fixed-count deployment can switch without moving data.
\<close>

theorem power_of_two_linear_is_modulo:
  assumes "linear_wf r" and "split_pointer r = 0" and "modulo_new (linear_shard_count r) = Inr m"
  shows "routing_route (LinearV1 r) key = routing_route (ModuloV1 m) key"
proof -
  have m: "modulo_shard_count m = linear_shard_count r" "modulo_wf m"
    using assms(3) by (auto simp: modulo_new_def modulo_wf_def split: if_splits)
  have "unat (linear_route_hash r h) = unat (modulo_route_hash m h)" for h
    using assms(1,2) m
    by (simp add: linear_route_hash_address unat_modulo_route_hash unat_linear_shard_count lh_address_def)
  then show ?thesis by (simp add: linear_route_def modulo_route_def word_unat_eq_iff)
qed

theorem power_of_two_linear_is_modulo_witness:
  "routing_route (LinearV1 \<lparr>level = 3, split_pointer = 0\<rparr>) [0x61] =
   routing_route (ModuloV1 \<lparr>modulo_shard_count = 8\<rparr>) [0x61]"
  by (rule power_of_two_linear_is_modulo)
    (simp_all add: linear_wf_def linear_base_def linear_shard_count_def modulo_new_def)

end
