(* ===== verification/Placement.thy ===== *)
theory Placement
  imports BTree
begin

text \<open>
  The shard-to-node map of \<^verbatim>\<open>src/src/cluster/placement.rs\<close>. The lemmas characterise the owner of
  each shard, from which the promises of the file follow: one owner per shard, an owner that is a
  live member, a spread that differs by at most one, and independence of the order in which the
  members were collected.
\<close>

record placement =
  pl_term :: epoch_term
  pl_assignments :: "(shard_id, node_id) btree"

text \<open>\<^verbatim>\<open>sort_unstable\<close> followed by \<^verbatim>\<open>dedup\<close>.\<close>

definition sort_dedup :: "'a::linorder list \<Rightarrow> 'a list" where
  "sort_dedup xs = remdups_adj (sort xs)"

text \<open>The range \<^verbatim>\<open>0..shard_count\<close>.\<close>

definition shard_range :: "u32 \<Rightarrow> shard_id list" where
  "shard_range n = map word_of_nat [0..<unat n]"

definition balanced :: "u32 \<Rightarrow> node_id list \<Rightarrow> epoch_term \<Rightarrow> placement" where
  "balanced shard_count members term =
     (let members = sort_dedup members in
      if members = [] then \<lparr>pl_term = term, pl_assignments = []\<rparr>
      else \<lparr>pl_term = term, pl_assignments =
        foldl (\<lambda>m s. bt_insert s (members ! (unat s mod length members)) m) [] (shard_range shard_count)\<rparr>)"

text \<open>One round of the loop; the counter counts the shards placed without a preference.\<close>

definition prefer_step ::
    "node_id list \<Rightarrow> (shard_id, node_id) btree \<Rightarrow> nat \<times> (shard_id, node_id) btree \<Rightarrow> shard_id \<Rightarrow>
     nat \<times> (shard_id, node_id) btree" where
  "prefer_step members preferences st shard =
     (case bt_get preferences shard of
        Some pref \<Rightarrow>
          if pref \<in> set members then (fst st, bt_insert shard pref (snd st))
          else (Suc (fst st), bt_insert shard (members ! (fst st mod length members)) (snd st))
      | None \<Rightarrow> (Suc (fst st), bt_insert shard (members ! (fst st mod length members)) (snd st)))"

definition with_preferences ::
    "u32 \<Rightarrow> node_id list \<Rightarrow> (shard_id, node_id) btree \<Rightarrow> epoch_term \<Rightarrow> placement" where
  "with_preferences shard_count members preferences term =
     (let members = sort_dedup members in
      if members = [] then \<lparr>pl_term = term, pl_assignments = []\<rparr>
      else \<lparr>pl_term = term, pl_assignments =
        snd (foldl (prefer_step members preferences) (0, []) (shard_range shard_count))\<rparr>)"

definition shards_for :: "placement \<Rightarrow> node_id \<Rightarrow> shard_id list" where
  "shards_for p node = map fst (filter (\<lambda>e. snd e = node) (pl_assignments p))"

definition owner :: "placement \<Rightarrow> shard_id \<Rightarrow> node_id option" where
  "owner p shard = bt_get (pl_assignments p) shard"

definition leaders :: "placement \<Rightarrow> node_id list" where
  "leaders p = sort_dedup (bt_values (pl_assignments p))"

definition imbalance :: "placement \<Rightarrow> node_id list \<Rightarrow> nat" where
  "imbalance p members =
     (if members = [] then 0
      else let counts = map (\<lambda>n. length (shards_for p n)) members in Max (set counts) - Min (set counts))"

section \<open>Who owns a shard\<close>

lemma set_sort_dedup [simp]: "set (sort_dedup xs) = set xs"
  by (simp add: sort_dedup_def)

lemma sorted_remdups_adj_strict: "sorted xs \<Longrightarrow> sorted_wrt (<) (remdups_adj xs)"
  by (induction xs rule: remdups_adj.induct) auto

lemma distinct_sort_dedup [simp]: "distinct (sort_dedup xs)"
  using sorted_remdups_adj_strict [of "sort xs"] by (simp add: sort_dedup_def strict_sorted_iff)

lemma sort_dedup_Nil_iff [simp]: "sort_dedup xs = [] \<longleftrightarrow> xs = []"
  by (metis set_empty set_sort_dedup)

lemma sort_dedup_canonical: "set xs = set ys \<Longrightarrow> sort_dedup xs = sort_dedup ys"
  by (rule sorted_distinct_set_unique)
    (simp_all add: sort_dedup_def sorted_remdups_adj_strict strict_sorted_imp_sorted
      strict_sorted_iff [THEN iffD1, OF sorted_remdups_adj_strict])

lemma set_shard_range [simp]: "set (shard_range n) = {s. s < n}"
proof (intro set_eqI iffI)
  fix s assume "s \<in> set (shard_range n)"
  then obtain i where "i < unat n" "s = word_of_nat i" by (auto simp: shard_range_def)
  then show "s \<in> {s. s < n}"
    using unat_bound [of n] by (simp add: word_less_nat_alt unat_of_nat)
next
  fix s assume "s \<in> {s. s < n}"
  then have "unat s \<in> {0..<unat n}" "s = word_of_nat (unat s)" by (simp_all add: word_less_nat_alt)
  then show "s \<in> set (shard_range n)" unfolding shard_range_def set_map set_upt by blast
qed

lemma balanced_wf: "bt_wf (pl_assignments (balanced n ms t))"
  by (simp add: balanced_def bt_wf_fill Let_def)

lemma balanced_owner:
  "owner (balanced n ms t) s =
    (if s < n \<and> ms \<noteq> [] then Some (sort_dedup ms ! (unat s mod length (sort_dedup ms))) else None)"
  by (simp add: balanced_def owner_def bt_get_fill Let_def)

lemma prefer_fold_wf: "bt_wf (snd st) \<Longrightarrow> bt_wf (snd (foldl (prefer_step ms prefs) st ss))"
proof (induction ss arbitrary: st)
  case (Cons s ss)
  have "bt_wf (snd (prefer_step ms prefs st s))"
    using Cons.prems by (auto simp: prefer_step_def split: option.split)
  then show ?case using Cons.IH by simp
qed simp

lemma prefer_fold:
  assumes "ms \<noteq> []"
  shows "if k \<in> set ss
      then \<exists>o' \<in> set ms. bt_get (snd (foldl (prefer_step ms prefs) st ss)) k = Some o' \<and>
        (\<forall>q \<in> set ms. bt_get prefs k = Some q \<longrightarrow> o' = q)
      else bt_get (snd (foldl (prefer_step ms prefs) st ss)) k = bt_get (snd st) k"
proof (induction ss arbitrary: st)
  case Nil
  show ?case by simp
next
  case (Cons s ss)
  let ?st = "prefer_step ms prefs st s"
  have "\<exists>o' \<in> set ms. bt_get (snd ?st) s = Some o' \<and> (\<forall>q \<in> set ms. bt_get prefs s = Some q \<longrightarrow> o' = q)"
    using assms by (auto simp: prefer_step_def split: option.split)
  moreover have "k \<noteq> s \<Longrightarrow> bt_get (snd ?st) k = bt_get (snd st) k"
    by (auto simp: prefer_step_def split: option.split)
  ultimately show ?case using Cons.IH [of ?st] by (auto split: if_splits)
qed

lemma shards_for_iff:
  "bt_wf (pl_assignments p) \<Longrightarrow> s \<in> set (shards_for p node) \<longleftrightarrow> owner p s = Some node"
  by (force simp: shards_for_def owner_def bt_get_iff)

lemma with_preferences_wf: "bt_wf (pl_assignments (with_preferences n ms prefs t))"
  by (simp add: with_preferences_def Let_def prefer_fold_wf)

lemma with_preferences_owner:
  assumes "members \<noteq> []"
  shows "if s < n
      then \<exists>o' \<in> set members. owner (with_preferences n members prefs t) s = Some o' \<and>
        (\<forall>q \<in> set members. bt_get prefs s = Some q \<longrightarrow> o' = q)
      else owner (with_preferences n members prefs t) s = None"
  using prefer_fold [of "sort_dedup members" s "shard_range n" prefs "(0, [])"] assms
  by (auto simp: with_preferences_def owner_def split: if_splits)

text \<open>
  (C39) Placement with operator preferences gives every shard below the count exactly one owner,
  drawn from the eligible members, and no other shard any; a preference naming an eligible member
  is honoured, and one naming anybody else is ignored in favour of a member.
\<close>

theorem placement_one_eligible_owner:
  assumes "members \<noteq> []"
  shows "(\<forall>s. s < n \<longrightarrow> (\<exists>!node. s \<in> set (shards_for (with_preferences n members prefs t) node))) \<and>
    (\<forall>s node. owner (with_preferences n members prefs t) s = Some node \<longrightarrow> s < n \<and> node \<in> set members) \<and>
    (\<forall>s pref. s < n \<and> bt_get prefs s = Some pref \<and> pref \<in> set members \<longrightarrow>
      owner (with_preferences n members prefs t) s = Some pref)"
proof -
  let ?p = "with_preferences n members prefs t"
  note own = with_preferences_owner [OF assms, of _ n prefs t]
  show ?thesis
  proof (intro conjI allI impI)
    fix s assume "s < n"
    then show "\<exists>!node. s \<in> set (shards_for ?p node)"
      using own [of s] by (auto simp: shards_for_iff with_preferences_wf)
  next
    fix s node assume "owner ?p s = Some node"
    then show "s < n" "node \<in> set members" using own [of s] by (auto split: if_splits)
  next
    fix s pref assume "s < n \<and> bt_get prefs s = Some pref \<and> pref \<in> set members"
    then show "owner ?p s = Some pref" using own [of s] by auto
  qed
qed

theorem placement_one_eligible_owner_witness:
  "owner (with_preferences 6 [1, 2, 3] [(3, 3)] 1) 3 = Some 3 \<and>
   (\<exists>!node. 5 \<in> set (shards_for (with_preferences 6 [1, 2, 3] [(3, 3)] 1) node))"
proof -
  have ne: "[1, 2, 3 :: node_id] \<noteq> []" by simp
  have "bt_get [(3 :: shard_id, 3 :: node_id)] 3 = Some 3" "(3 :: shard_id) < 6" "(5 :: shard_id) < 6"
    by (simp_all add: bt_get_def)
  with placement_one_eligible_owner [OF ne, of 6 "[(3, 3)]" 1] show ?thesis
    by (metis list.set_intros(1) list.set_intros(2))
qed

section \<open>An even spread\<close>

lemma card_residue:
  assumes "i < k"
  shows "card {j. j < n \<and> j mod k = i} = n div k + (if i < n mod k then 1 else 0)"
proof (induction n)
  case 0
  show ?case by simp
next
  case (Suc n)
  have fin: "finite {j. j < n \<and> j mod k = i}" by simp
  have split: "{j. j < Suc n \<and> j mod k = i} =
      (if n mod k = i then insert n {j. j < n \<and> j mod k = i} else {j. j < n \<and> j mod k = i})"
    by (auto simp: less_Suc_eq)
  then have "card {j. j < Suc n \<and> j mod k = i} =
      (if n mod k = i then Suc (card {j. j < n \<and> j mod k = i}) else card {j. j < n \<and> j mod k = i})"
    using fin by simp
  then have step: "card {j. j < Suc n \<and> j mod k = i} =
      n div k + (if i < n mod k then 1 else 0) + (if n mod k = i then 1 else 0)"
    using Suc.IH by simp
  have m: "n mod k < k" using assms by simp
  show ?case
  proof (cases "Suc (n mod k) = k")
    case True
    then have "Suc n div k = Suc (n div k)" "Suc n mod k = 0" by (simp_all add: mod_Suc div_Suc)
    then show ?thesis using step True assms by auto
  next
    case False
    then have "Suc n div k = n div k" "Suc n mod k = Suc (n mod k)" by (simp_all add: mod_Suc div_Suc)
    then show ?thesis using step by auto
  qed
qed

lemma card_below: "card {s :: 'a::len word. s < n \<and> P (unat s)} = card {j. j < unat n \<and> P j}"
proof -
  have img: "unat ` {s :: 'a word. s < n \<and> P (unat s)} = {j. j < unat n \<and> P j}" (is "_ ` ?A = ?B")
  proof (intro set_eqI iffI)
    fix j assume j: "j \<in> ?B"
    then have "j < unat n" by simp
    then have "j < 2 ^ LENGTH('a)" using unat_bound by (rule less_trans)
    then have u: "unat (word_of_nat j :: 'a word) = j" by (simp add: unat_of_nat)
    with j have "word_of_nat j \<in> ?A" by (simp add: word_less_nat_alt)
    then show "j \<in> unat ` ?A" using u by force
  qed (auto simp: word_less_nat_alt)
  have "inj_on unat ?A" by (rule inj_onI) (simp add: word_unat_eq_iff)
  from card_image [OF this] show ?thesis unfolding img by (rule sym)
qed

lemma balanced_count:
  assumes "i < length (sort_dedup ms)"
  shows "length (shards_for (balanced n ms t) (sort_dedup ms ! i)) =
    unat n div length (sort_dedup ms) + (if i < unat n mod length (sort_dedup ms) then 1 else 0)"
proof -
  let ?ms = "sort_dedup ms" and ?k = "length (sort_dedup ms)"
  have k: "0 < ?k" "ms \<noteq> []" using assms by (auto simp: sort_dedup_def)
  have eq: "?ms ! (unat s mod ?k) = ?ms ! i \<longleftrightarrow> unat s mod ?k = i" for s :: shard_id
    using assms k by (simp add: nth_eq_iff_index_eq)
  have "length (shards_for (balanced n ms t) (?ms ! i)) =
      card {s. owner (balanced n ms t) s = Some (?ms ! i)}"
    using length_filter_bt [OF balanced_wf, of "\<lambda>e. snd e = ?ms ! i"]
    by (simp add: shards_for_def owner_def)
  also have "{s. owner (balanced n ms t) s = Some (?ms ! i)} = {s. s < n \<and> unat s mod ?k = i}"
    using eq k by (auto simp: balanced_owner)
  also have "card \<dots> = card {j. j < unat n \<and> j mod ?k = i}"
    by (rule card_below)
  also have "\<dots> = unat n div ?k + (if i < unat n mod ?k then 1 else 0)"
    using assms by (rule card_residue)
  finally show ?thesis .
qed

text \<open>
  (C40) The balanced placement spreads the shards evenly: the busiest and the quietest of its
  members differ by at most one shard, whatever the order or repetition in the member list.
\<close>

theorem balanced_spread_is_even:
  assumes "set nodes \<subseteq> set members"
  shows "imbalance (balanced n members t) nodes \<le> 1"
proof (cases "nodes = []")
  case False
  let ?c = "\<lambda>node. length (shards_for (balanced n members t) node)"
  let ?q = "unat n div length (sort_dedup members)"
  have range: "?q \<le> ?c node \<and> ?c node \<le> ?q + 1" if "node \<in> set nodes" for node
  proof -
    have "node \<in> set (sort_dedup members)" using that assms by auto
    then obtain i where i: "i < length (sort_dedup members)" "node = sort_dedup members ! i"
      unfolding in_set_conv_nth by blast
    show ?thesis unfolding i(2) balanced_count [OF i(1)] by simp
  qed
  have "Max (?c ` set nodes) \<le> ?q + 1" "?q \<le> Min (?c ` set nodes)"
    using False range by auto
  then have "Max (?c ` set nodes) - Min (?c ` set nodes) \<le> 1" by linarith
  then show ?thesis using False by (simp add: imbalance_def)
qed (simp add: imbalance_def)

theorem balanced_spread_is_even_witness: "imbalance (balanced 64 [3, 1, 2, 1] 1) [1, 2, 3] \<le> 1"
  by (rule balanced_spread_is_even) auto

text \<open>Coordinators that see the same member set compute the same map.\<close>

lemma balanced_order_independent: "set ms = set ms' \<Longrightarrow> balanced n ms t = balanced n ms' t"
  using sort_dedup_canonical [of ms ms'] by (simp add: balanced_def)

end
