(* ===== verification/Term_Store.thy ===== *)
theory Term_Store
  imports Text_Format
begin

text \<open>
  The durable term and vote of \<^verbatim>\<open>src/src/cluster/term.rs\<close>. The store is the state in memory
  together with the two files the code writes (the record and its temporary), so that every point
  at which \<^verbatim>\<open>persist\<close> can fail and every restart is an operation of the model. The locale
  \<open>vote_ledger\<close> is the contract election safety rests on: terms never go back and a
  vote, once given, is kept for its term.
\<close>

section \<open>The record and its file format\<close>

record term_state =
  ts_term :: epoch_term
  ts_voted_for :: "node_id option"

definition term_default :: term_state where
  "term_default = \<lparr>ts_term = 0, ts_voted_for = None\<rparr>"

definition term_HEADER :: string where
  "term_HEADER = ''shardlite-term-v1''"

definition term_body :: "term_state \<Rightarrow> string" where
  "term_body s =
     term_HEADER @ newline #
     ''term='' @ show_word (ts_term s) @ newline #
     ''voted_for='' @ (case ts_voted_for s of Some n \<Rightarrow> show_word n | None \<Rightarrow> ''-'') @ [newline]"

text \<open>One round of the loop over the lines of the file.\<close>

definition term_read_line :: "string \<Rightarrow> term_state \<Rightarrow> term_state result" where
  "term_read_line line s =
     (case split_once CHR ''='' line of
        None \<Rightarrow> Inr s
      | Some (k, v) \<Rightarrow>
          let v = trim v in
          if trim k = ''term'' then
            and_then (ok_or (parse_word v) (Manifest ''has an unparseable term''))
              (\<lambda>t. Inr (s\<lparr>ts_term := t\<rparr>))
          else if trim k = ''voted_for'' then
            (if v = ''-'' then Inr (s\<lparr>ts_voted_for := None\<rparr>)
             else and_then (ok_or (parse_word v) (Manifest ''has an unparseable vote''))
                    (\<lambda>n. Inr (s\<lparr>ts_voted_for := Some n\<rparr>)))
          else Inr s)"

fun term_read_lines :: "string list \<Rightarrow> term_state \<Rightarrow> term_state result" where
  "term_read_lines [] s = Inr s"
| "term_read_lines (l # ls) s = and_then (term_read_line l s) (term_read_lines ls)"

definition term_read :: "string \<Rightarrow> term_state result" where
  "term_read text =
     (let ls = text_lines text; header = (case ls of [] \<Rightarrow> [] | h # _ \<Rightarrow> h) in
      if header \<noteq> term_HEADER then Inl (Manifest ''has header'')
      else term_read_lines (tl ls) term_default)"

section \<open>Durable writes\<close>

record term_disk =
  td_file :: "string option"
  td_tmp :: "string option"

text \<open>Where the write of the record stops, if it does; a torn write leaves a prefix.\<close>

datatype persist_fault = NoFault | CreateFails | WriteFails nat | SyncFails | RenameFails

definition term_persist :: "persist_fault \<Rightarrow> term_state \<Rightarrow> term_disk \<Rightarrow> term_disk \<times> unit result" where
  "term_persist fault s d =
     (let body = term_body s in
      case fault of
        CreateFails \<Rightarrow> (d, Inl (Manifest ''creating''))
      | WriteFails n \<Rightarrow> (d\<lparr>td_tmp := Some (take n body)\<rparr>, Inl (Manifest ''writing''))
      | SyncFails \<Rightarrow> (d\<lparr>td_tmp := Some body\<rparr>, Inl (Manifest ''fsyncing''))
      | RenameFails \<Rightarrow> (d\<lparr>td_tmp := Some body\<rparr>, Inl (Manifest ''renaming into''))
      | NoFault \<Rightarrow> (d\<lparr>td_file := Some body, td_tmp := None\<rparr>, Inr ()))"

record term_store =
  tst_mem :: term_state
  tst_disk :: term_disk

datatype open_fault = OpenOk | DirFails | ReadFails

definition term_open :: "open_fault \<Rightarrow> term_disk \<Rightarrow> term_store result" where
  "term_open fault d =
     (if fault = DirFails then Inl (Manifest ''creating'')
      else and_then
        (case td_file d of
           None \<Rightarrow> Inr term_default
         | Some text \<Rightarrow> if fault = ReadFails then Inl (Manifest ''reading'') else term_read text)
        (\<lambda>s. Inr \<lparr>tst_mem = s, tst_disk = d\<rparr>))"

text \<open>The write-then-publish step both operations end with.\<close>

definition term_commit :: "persist_fault \<Rightarrow> term_state \<Rightarrow> bool \<Rightarrow> term_store \<Rightarrow> term_store \<times> bool result" where
  "term_commit fault s answer st =
     (case term_persist fault s (tst_disk st) of
        (d, Inl e) \<Rightarrow> (st\<lparr>tst_disk := d\<rparr>, Inl e)
      | (d, Inr _) \<Rightarrow> (\<lparr>tst_mem = s, tst_disk = d\<rparr>, Inr answer))"

definition advance_to :: "persist_fault \<Rightarrow> epoch_term \<Rightarrow> term_store \<Rightarrow> term_store \<times> bool result" where
  "advance_to fault t st =
     (if t \<le> ts_term (tst_mem st) then (st, Inr False)
      else term_commit fault \<lparr>ts_term = t, ts_voted_for = None\<rparr> True st)"

definition grant_vote ::
    "persist_fault \<Rightarrow> epoch_term \<Rightarrow> node_id \<Rightarrow> term_store \<Rightarrow> term_store \<times> bool result" where
  "grant_vote fault t candidate st =
     (let g = tst_mem st in
      if t < ts_term g then (st, Inr False)
      else
        let nxt = (if t > ts_term g then \<lparr>ts_term = t, ts_voted_for = None\<rparr> else g) in
        case ts_voted_for nxt of
          Some already \<Rightarrow>
            if already \<noteq> candidate then
              (if ts_term nxt > ts_term g then term_commit fault nxt False st else (st, Inr False))
            else (st, Inr True)
        | None \<Rightarrow> term_commit fault (nxt\<lparr>ts_voted_for := Some candidate\<rparr>) True st)"

section \<open>The file format round-trips\<close>

lemma clean_term_lines:
  "clean_line term_HEADER" "clean_line (''term='' @ show_word (t :: u64))"
  "clean_line (''voted_for='' @ (case v of Some n \<Rightarrow> show_word (n :: u64) | None \<Rightarrow> ''-''))"
  by (auto intro!: clean_lineI simp: term_HEADER_def newline_def show_word_clean
      show_word_clean(1) [unfolded newline_def] split: option.splits)

lemma text_lines_term_body:
  "text_lines (term_body s) =
     [term_HEADER, ''term='' @ show_word (ts_term s),
      ''voted_for='' @ (case ts_voted_for s of Some n \<Rightarrow> show_word n | None \<Rightarrow> ''-'')]"
proof -
  let ?ls = "[term_HEADER, ''term='' @ show_word (ts_term s),
      ''voted_for='' @ (case ts_voted_for s of Some n \<Rightarrow> show_word n | None \<Rightarrow> ''-'')]"
  have "term_body s = concat (map (\<lambda>l. l @ [newline]) ?ls)" by (simp add: term_body_def)
  moreover have "list_all clean_line ?ls" using clean_term_lines by simp
  ultimately show ?thesis using text_lines_unlines by metis
qed

lemma split_term_line:
  "split_once CHR ''='' (''term='' @ v) = Some (''term'', v)"
  "split_once CHR ''='' (''voted_for='' @ v) = Some (''voted_for'', v)"
  using split_once_field [of "CHR ''=''" "''term''" v] split_once_field [of "CHR ''=''" "''voted_for''" v]
  by simp_all

lemma trim_term_keys: "trim ''term'' = ''term''" "trim ''voted_for'' = ''voted_for''" "trim ''-'' = ''-''"
  by (rule trim_id, simp add: is_whitespace_def)+

lemma show_word_not_dash: "show_word w \<noteq> ''-''"
  using show_word_chars [of "CHR ''-''" w] by (auto simp: is_digit_def)

lemma term_read_line_term: "term_read_line (''term='' @ show_word t) s = Inr (s\<lparr>ts_term := t\<rparr>)"
  unfolding term_read_line_def split_term_line by (simp add: trim_term_keys)

lemma term_read_line_vote:
  "term_read_line (''voted_for='' @ (case v of Some n \<Rightarrow> show_word n | None \<Rightarrow> ''-'')) s =
   Inr (s\<lparr>ts_voted_for := v\<rparr>)"
  unfolding term_read_line_def split_term_line
  by (cases v) (simp_all add: trim_term_keys show_word_not_dash)

lemma term_read_body: "term_read (term_body s) = Inr s"
  unfolding term_read_def text_lines_term_body Let_def list.case list.sel term_read_lines.simps
    term_read_line_term term_read_line_vote
  by (simp add: term_read_line_vote)

interpretation term_file: text_codec term_body term_read "\<lambda>_. True"
  by unfold_locales (rule term_read_body)

section \<open>Crash consistency\<close>

text \<open>The record on disk is the state in memory, whatever the temporary file holds.\<close>

definition term_store_wf :: "term_store \<Rightarrow> bool" where
  "term_store_wf st \<longleftrightarrow>
     (case td_file (tst_disk st) of
        None \<Rightarrow> tst_mem st = term_default
      | Some text \<Rightarrow> term_read text = Inr (tst_mem st))"

lemma term_open_wf: "term_open fault d = Inr st \<Longrightarrow> term_store_wf st \<and> tst_disk st = d"
  by (auto simp: term_open_def term_store_wf_def result_simps split: if_splits option.splits)

lemma term_open_mem: "term_store_wf st \<Longrightarrow> term_open fault (tst_disk st) = Inr st' \<Longrightarrow> st' = st"
  by (auto simp: term_open_def term_store_wf_def result_simps split: if_splits option.splits)

lemma term_open_ok: "term_store_wf st \<Longrightarrow> term_open OpenOk (tst_disk st) = Inr st"
  by (auto simp: term_open_def term_store_wf_def split: option.splits)

lemma term_commit_cases:
  obtains (ok) "fault = NoFault"
      "term_commit fault s answer st =
        (\<lparr>tst_mem = s, tst_disk = \<lparr>td_file = Some (term_body s), td_tmp = None\<rparr>\<rparr>, Inr answer)"
    | (failed) d e where "td_file d = td_file (tst_disk st)" "fault \<noteq> NoFault"
      "term_commit fault s answer st = (st\<lparr>tst_disk := d\<rparr>, Inl e)"
proof (cases "fault = NoFault")
  case True
  then show thesis by (intro ok) (simp_all add: term_commit_def term_persist_def)
next
  case False
  then obtain d e where "term_persist fault s (tst_disk st) = (d, Inl e)"
      and "td_file d = td_file (tst_disk st)"
    by (cases fault) (auto simp: term_persist_def)
  with False show thesis by (intro failed) (simp_all add: term_commit_def)
qed

lemma term_commit_wf: "term_store_wf st \<Longrightarrow> term_store_wf (fst (term_commit fault s answer st))"
  by (rule term_commit_cases [of fault s answer st])
    (auto simp: term_store_wf_def term_read_body split: option.splits)

lemma advance_to_wf: "term_store_wf st \<Longrightarrow> term_store_wf (fst (advance_to fault t st))"
  by (simp add: advance_to_def term_commit_wf)

lemma grant_vote_wf: "term_store_wf st \<Longrightarrow> term_store_wf (fst (grant_vote fault t c st))"
  by (simp add: grant_vote_def term_commit_wf Let_def split: option.split)

lemma term_commit_mem:
  "tst_mem (fst (term_commit fault s answer st)) = (if fault = NoFault then s else tst_mem st)"
  "snd (term_commit fault s answer st) = Inr b \<longleftrightarrow> fault = NoFault \<and> b = answer"
  by (rule term_commit_cases [of fault s answer st]; auto)+

text \<open>
  A write of the record is atomic: whichever step of it fails, the store that reopens from
  the disk holds either the state before the write or the new state, never a torn one, and it
  holds the new state exactly when the write reported success.
\<close>

theorem persist_is_atomic:
  assumes "term_store_wf st" and "term_persist fault s (tst_disk st) = (d, r)"
  shows "\<exists>st'. term_open OpenOk d = Inr st' \<and>
    tst_mem st' = (if r = Inr () then s else tst_mem st)"
proof -
  let ?c = "fst (term_commit fault s True st)"
  have "term_store_wf ?c" using assms(1) by (rule term_commit_wf)
  then have "term_open OpenOk (tst_disk ?c) = Inr ?c" by (rule term_open_ok)
  moreover have "tst_disk ?c = d" "r = Inr () \<longleftrightarrow> fault = NoFault"
    using assms(2) by (cases fault; auto simp: term_commit_def term_persist_def)+
  ultimately show ?thesis by (auto simp: term_commit_mem)
qed

theorem persist_is_atomic_witness:
  "\<exists>st'. term_open OpenOk \<lparr>td_file = None, td_tmp = Some ''sha''\<rparr> = Inr st' \<and>
    tst_mem st' = term_default"
proof -
  let ?st = "\<lparr>tst_mem = term_default, tst_disk = \<lparr>td_file = None, td_tmp = None\<rparr>\<rparr> :: term_store"
  have "term_store_wf ?st" by (simp add: term_store_wf_def)
  moreover have "term_persist (WriteFails 3) \<lparr>ts_term = 4, ts_voted_for = Some 2\<rparr> (tst_disk ?st) =
      (\<lparr>td_file = None, td_tmp = Some ''sha''\<rparr>, Inl (Manifest ''writing''))"
    by (simp add: term_persist_def term_body_def term_HEADER_def numeral_eq_Suc)
  ultimately show ?thesis using persist_is_atomic [of ?st] by force
qed

text \<open>
  A vote is durable before it is answered: when a vote is granted, reopening the store from
  its disk shows that term and that vote.
\<close>

theorem granted_vote_is_durable:
  assumes "term_store_wf st" and "grant_vote fault t c st = (st', Inr True)"
  shows "\<exists>st''. term_open OpenOk (tst_disk st') = Inr st'' \<and>
    ts_term (tst_mem st'') = t \<and> ts_voted_for (tst_mem st'') = Some c"
proof -
  have "term_store_wf st'" using grant_vote_wf [OF assms(1), of fault t c] assms(2) by simp
  then have "term_open OpenOk (tst_disk st') = Inr st'" by (rule term_open_ok)
  moreover have "ts_term (tst_mem st') = t \<and> ts_voted_for (tst_mem st') = Some c"
    using assms(2) term_commit_mem
    by (auto simp: grant_vote_def Let_def prod_eq_iff split: if_splits option.splits)
  ultimately show ?thesis by blast
qed

theorem granted_vote_is_durable_witness:
  "\<exists>st''. term_open OpenOk \<lparr>td_file = Some (term_body \<lparr>ts_term = 5, ts_voted_for = Some 2\<rparr>),
      td_tmp = None\<rparr> = Inr st'' \<and>
    ts_term (tst_mem st'') = 5 \<and> ts_voted_for (tst_mem st'') = Some 2"
proof -
  let ?st = "\<lparr>tst_mem = term_default, tst_disk = \<lparr>td_file = None, td_tmp = None\<rparr>\<rparr> :: term_store"
  have "term_store_wf ?st" by (simp add: term_store_wf_def)
  moreover have "grant_vote NoFault 5 2 ?st =
      (\<lparr>tst_mem = \<lparr>ts_term = 5, ts_voted_for = Some 2\<rparr>,
        tst_disk = \<lparr>td_file = Some (term_body \<lparr>ts_term = 5, ts_voted_for = Some 2\<rparr>),
          td_tmp = None\<rparr>\<rparr>, Inr True)"
    by (simp add: grant_vote_def term_commit_def term_persist_def term_default_def)
  ultimately show ?thesis using granted_vote_is_durable [of ?st] by fastforce
qed

section \<open>At most one vote per term\<close>

text \<open>
  The contract election safety needs from whoever keeps a node's vote. A step may or may not give
  a vote; terms never decrease, the vote of a term is kept while the term lasts, and a vote given
  is the recorded vote of the recorded term.
\<close>

locale vote_ledger =
  fixes step :: "'op \<Rightarrow> 's \<Rightarrow> 's \<times> (epoch_term \<times> node_id) option"
    and term_of :: "'s \<Rightarrow> epoch_term" and vote_of :: "'s \<Rightarrow> node_id option"
    and inv :: "'s \<Rightarrow> bool"
  assumes inv_step: "inv s \<Longrightarrow> inv (fst (step op s))"
    and term_mono: "inv s \<Longrightarrow> term_of s \<le> term_of (fst (step op s))"
    and vote_kept: "inv s \<Longrightarrow> term_of (fst (step op s)) = term_of s \<Longrightarrow> vote_of s = Some c \<Longrightarrow>
      vote_of (fst (step op s)) = Some c"
    and vote_recorded: "inv s \<Longrightarrow> snd (step op s) = Some (t, c) \<Longrightarrow>
      t = term_of (fst (step op s)) \<and> vote_of (fst (step op s)) = Some c"
begin

fun votes :: "'op list \<Rightarrow> 's \<Rightarrow> (epoch_term \<times> node_id) set" where
  "votes [] s = {}"
| "votes (op # ops) s = set_option (snd (step op s)) \<union> votes ops (fst (step op s))"

fun run :: "'op list \<Rightarrow> 's \<Rightarrow> 's" where
  "run [] s = s"
| "run (op # ops) s = run ops (fst (step op s))"

lemma run_append: "run (xs @ ys) s = run ys (run xs s)"
  by (induction xs arbitrary: s) auto

lemma run_inv: "inv s \<Longrightarrow> inv (run ops s)"
  by (induction ops arbitrary: s) (auto intro: inv_step)

lemma run_term_mono: "inv s \<Longrightarrow> term_of s \<le> term_of (run ops s)"
  by (induction ops arbitrary: s) (auto intro: inv_step order_trans [OF term_mono])

lemma run_vote_kept:
  "inv s \<Longrightarrow> term_of (run ops s) = term_of s \<Longrightarrow> vote_of s = Some c \<Longrightarrow> vote_of (run ops s) = Some c"
proof (induction ops arbitrary: s)
  case (Cons op ops)
  let ?s = "fst (step op s)"
  have inv: "inv ?s" by (rule inv_step) (rule Cons.prems)
  have "term_of ?s \<le> term_of (run ops ?s)" using inv by (rule run_term_mono)
  with Cons.prems term_mono [OF Cons.prems(1), of op] have eq: "term_of ?s = term_of s" by simp
  have "vote_of ?s = Some c" using Cons.prems(1) eq Cons.prems(3) by (rule vote_kept)
  then show ?case using Cons.IH [OF inv] Cons.prems(2) eq by simp
qed simp

lemma votes_of_later_terms:
  "inv s \<Longrightarrow> (t, c) \<in> votes ops s \<Longrightarrow>
    term_of s \<le> t \<and> (t = term_of s \<longrightarrow> vote_of s = None \<or> vote_of s = Some c)"
proof (induction ops arbitrary: s)
  case Nil
  then show ?case by simp
next
  case (Cons op ops)
  let ?s = "fst (step op s)"
  have mono: "term_of s \<le> term_of ?s" by (rule term_mono) (rule Cons.prems)
  have here: "term_of ?s \<le> t \<and> (t = term_of ?s \<longrightarrow> vote_of ?s = None \<or> vote_of ?s = Some c)"
  proof (cases "(t, c) \<in> votes ops ?s")
    case True
    then show ?thesis by (intro Cons.IH inv_step Cons.prems)
  next
    case False
    with Cons.prems have "snd (step op s) = Some (t, c)" by simp
    from vote_recorded [OF Cons.prems(1) this] show ?thesis by simp
  qed
  then show ?case
    using mono vote_kept [OF Cons.prems(1), of op] by (cases "vote_of s") fastforce+
qed

lemma one_vote_per_term:
  "inv s \<Longrightarrow> (t, a) \<in> votes ops s \<Longrightarrow> (t, b) \<in> votes ops s \<Longrightarrow> a = b"
proof (induction ops arbitrary: s)
  case Nil
  then show ?case by simp
next
  case (Cons op ops)
  let ?s = "fst (step op s)"
  have inv: "inv ?s" by (rule inv_step) (rule Cons.prems)
  have first: "d = c" if "snd (step op s) = Some (t, c)" "(t, d) \<in> votes ops ?s" for c d
    using vote_recorded [OF Cons.prems(1) that(1)] votes_of_later_terms [OF inv that(2)] by auto
  show ?case
    using Cons.prems(2,3) Cons.IH [OF inv] first by auto
qed

end

text \<open>
  The operations of a node on its store, restarts included. A restart that fails leaves the node
  down, with its disk as it was.
\<close>

datatype term_op =
    AdvanceTo persist_fault epoch_term
  | GrantVote persist_fault epoch_term node_id
  | Restart open_fault

fun term_step :: "term_op \<Rightarrow> term_store \<Rightarrow> term_store \<times> (epoch_term \<times> node_id) option" where
  "term_step (AdvanceTo fault t) st = (fst (advance_to fault t st), None)"
| "term_step (GrantVote fault t c) st =
     (case grant_vote fault t c st of (st', r) \<Rightarrow> (st', if r = Inr True then Some (t, c) else None))"
| "term_step (Restart fault) st =
     (case term_open fault (tst_disk st) of Inl _ \<Rightarrow> (st, None) | Inr st' \<Rightarrow> (st', None))"

lemma advance_to_mem:
  "tst_mem (fst (advance_to fault t st)) =
    (if ts_term (tst_mem st) < t \<and> fault = NoFault then \<lparr>ts_term = t, ts_voted_for = None\<rparr>
     else tst_mem st)"
  by (auto simp: advance_to_def term_commit_mem)

definition vote_free :: "epoch_term \<Rightarrow> term_store \<Rightarrow> bool" where
  "vote_free t st \<longleftrightarrow> ts_term (tst_mem st) < t \<or>
     ts_term (tst_mem st) = t \<and> ts_voted_for (tst_mem st) = None"

lemma grant_vote_mem:
  "tst_mem (fst (grant_vote fault t c st)) =
    (if fault = NoFault \<and> vote_free t st then \<lparr>ts_term = t, ts_voted_for = Some c\<rparr>
     else tst_mem st)"
  by (cases "tst_mem st")
    (auto simp: grant_vote_def Let_def term_commit_mem vote_free_def split: option.split)

lemma grant_vote_True_iff:
  "snd (grant_vote fault t c st) = Inr True \<longleftrightarrow>
    tst_mem st = \<lparr>ts_term = t, ts_voted_for = Some c\<rparr> \<or> fault = NoFault \<and> vote_free t st"
  by (cases "tst_mem st")
    (auto simp: grant_vote_def Let_def term_commit_mem vote_free_def split: option.split)

lemma term_step_grant:
  "term_step (GrantVote fault t c) st =
    (fst (grant_vote fault t c st),
     if snd (grant_vote fault t c st) = Inr True then Some (t, c) else None)"
  by (simp split: prod.split)

lemma term_step_restart: "term_store_wf st \<Longrightarrow> term_step (Restart fault) st = (st, None)"
  using term_open_mem by (cases "term_open fault (tst_disk st)") auto

text \<open>The outcomes of the two operations, for the components that call them.\<close>

lemma advance_to_cases:
  assumes "advance_to f t ts = (ts', r)"
  obtains (stale) "t \<le> ts_term (tst_mem ts)" "ts' = ts" "r = Inr False"
    | (ok) "ts_term (tst_mem ts) < t" "tst_mem ts' = \<lparr>ts_term = t, ts_voted_for = None\<rparr>" "r = Inr True"
    | (failed) err where "ts_term (tst_mem ts) < t" "tst_mem ts' = tst_mem ts" "r = Inl err"
proof (cases "t \<le> ts_term (tst_mem ts)")
  case True
  then show thesis using assms by (intro stale) (auto simp: advance_to_def)
next
  case False
  with assms show thesis
    by (cases rule: term_commit_cases [of f "\<lparr>ts_term = t, ts_voted_for = None\<rparr>" True ts])
      (auto simp: advance_to_def intro: ok failed)
qed

lemma grant_vote_cases:
  assumes "grant_vote f t c ts = (ts', r)"
  obtains (refused) "\<not> vote_free t ts" "ts' = ts" "r = Inr False"
    | (again) "tst_mem ts = \<lparr>ts_term = t, ts_voted_for = Some c\<rparr>" "ts' = ts" "r = Inr True"
    | (ok) "vote_free t ts" "tst_mem ts' = \<lparr>ts_term = t, ts_voted_for = Some c\<rparr>" "r = Inr True"
    | (failed) err where "vote_free t ts" "tst_mem ts' = tst_mem ts" "r = Inl err"
proof (cases "vote_free t ts")
  case True
  then have "grant_vote f t c ts = term_commit f \<lparr>ts_term = t, ts_voted_for = Some c\<rparr> True ts"
    by (cases "tst_mem ts") (auto simp: grant_vote_def vote_free_def Let_def)
  with assms True show thesis
    by (cases rule: term_commit_cases [of f "\<lparr>ts_term = t, ts_voted_for = Some c\<rparr>" True ts])
      (auto intro: ok failed)
next
  case False
  with assms show thesis
    by (cases "tst_mem ts")
      (auto simp: grant_vote_def vote_free_def Let_def intro: refused again split: option.splits if_splits)
qed

lemmas term_step_simps =
  term_step.simps(1) term_step_grant term_step_restart advance_to_mem grant_vote_mem grant_vote_True_iff

interpretation term_ledger: vote_ledger term_step "\<lambda>st. ts_term (tst_mem st)"
    "\<lambda>st. ts_voted_for (tst_mem st)" term_store_wf
proof (unfold_locales, goal_cases)
  case (1 s op)
  then show ?case
    by (cases op) (simp_all only: term_step_simps fst_conv advance_to_wf grant_vote_wf)
next
  case (2 s op)
  then show ?case
    by (cases op) (auto simp: term_step_simps vote_free_def simp del: term_step.simps(2,3))
next
  case (3 s op c)
  then show ?case
    by (cases op) (auto simp: term_step_simps vote_free_def simp del: term_step.simps(2,3) split: if_splits)
next
  case (4 s op t c)
  then show ?case
    by (cases op) (auto simp: term_step_simps vote_free_def simp del: term_step.simps(2,3) split: if_splits)
qed

text \<open>
  (C11) A node never votes for two candidates in one term, over any sequence of term advances, vote
  requests, failed writes (at any of their steps) and restarts from disk.
\<close>

theorem one_vote_per_term_across_restarts:
  assumes "term_open OpenOk d = Inr st"
    and "(t, a) \<in> term_ledger.votes ops st" and "(t, b) \<in> term_ledger.votes ops st"
  shows "a = b"
  using term_ledger.one_vote_per_term [of st t a ops b] term_open_wf [OF assms(1)] assms(2,3) by blast

theorem one_vote_per_term_across_restarts_witness:
  "\<exists>st. term_open OpenOk \<lparr>td_file = None, td_tmp = None\<rparr> = Inr st \<and>
    (1, 7) \<in> term_ledger.votes [GrantVote NoFault 1 7, Restart OpenOk, GrantVote NoFault 1 9] st \<and>
    (1, 9) \<notin> term_ledger.votes [GrantVote NoFault 1 7, Restart OpenOk, GrantVote NoFault 1 9] st"
proof -
  let ?d = "\<lparr>td_file = None, td_tmp = None\<rparr> :: term_disk"
  let ?st = "\<lparr>tst_mem = term_default, tst_disk = ?d\<rparr> :: term_store"
  let ?ops = "[GrantVote NoFault 1 7, Restart OpenOk, GrantVote NoFault 1 9]"
  have o: "term_open OpenOk ?d = Inr ?st" by (simp add: term_open_def)
  have v: "(1, 7) \<in> term_ledger.votes ?ops ?st"
    by (simp add: grant_vote_def term_default_def term_commit_def term_persist_def)
  have "(1, 9) \<notin> term_ledger.votes ?ops ?st"
    using one_vote_per_term_across_restarts [OF o v, of 9] by auto
  with o v show ?thesis by blast
qed

end
