(* ===== verification/Durability.thy ===== *)
theory Durability
  imports BTree
begin

text \<open>
  The election restriction of \<^verbatim>\<open>src/src/cluster/durability.rs\<close>: how far a node has durably
  progressed, and when a candidate is at least as advanced as a voter. A digest is the 32 bytes of
  a SHA-256 value; the code only compares digests for equality.
\<close>

type_synonym digest = "256 word"

record catalog_position =
  cp_version :: u64
  cp_digest :: digest

definition catalog_position_default :: catalog_position where
  "catalog_position_default = \<lparr>cp_version = 0, cp_digest = 0\<rparr>"

record durability =
  du_catalog :: catalog_position
  du_epoch :: u64
  du_shards :: "(shard_id, lsn) btree"

datatype comparison =
    AtLeast
  | Behind shard_id lsn lsn
  | Incomparable u64 u64
  | CatalogBehind u64 u64
  | CatalogConflict u64

definition durability_new :: "u64 \<Rightarrow> durability" where
  "durability_new epoch = \<lparr>du_catalog = catalog_position_default, du_epoch = epoch, du_shards = []\<rparr>"

definition durability_with :: "durability \<Rightarrow> shard_id \<Rightarrow> lsn \<Rightarrow> durability" where
  "durability_with d shard l = d\<lparr>du_shards := bt_insert shard l (du_shards d)\<rparr>"

definition durability_lsn :: "durability \<Rightarrow> shard_id \<Rightarrow> lsn" where
  "durability_lsn d shard = (case bt_get (du_shards d) shard of Some l \<Rightarrow> l | None \<Rightarrow> 0)"

definition compare_to :: "durability \<Rightarrow> durability \<Rightarrow> comparison" where
  "compare_to self voter =
     (if cp_version (du_catalog self) < cp_version (du_catalog voter)
      then CatalogBehind (cp_version (du_catalog self)) (cp_version (du_catalog voter))
      else if cp_version (du_catalog self) = cp_version (du_catalog voter) \<and>
              cp_version (du_catalog self) \<noteq> 0 \<and>
              cp_digest (du_catalog self) \<noteq> cp_digest (du_catalog voter)
      then CatalogConflict (cp_version (du_catalog self))
      else if du_epoch self \<noteq> du_epoch voter \<and> list_ex (\<lambda>l. l > 0) (bt_values (du_shards voter))
      then Incomparable (du_epoch self) (du_epoch voter)
      else
        case find (\<lambda>(shard, ours). durability_lsn self shard < ours) (du_shards voter) of
          Some (shard, ours) \<Rightarrow> Behind shard (durability_lsn self shard) ours
        | None \<Rightarrow> AtLeast)"

fun comparison_why :: "comparison \<Rightarrow> string" where
  "comparison_why AtLeast = ''at least as up to date on every shard''"
| "comparison_why (Behind _ _ _) = ''behind on''"
| "comparison_why (Incomparable _ _) = ''candidate is on epoch''"
| "comparison_why (CatalogBehind _ _) = ''behind on cluster catalog''"
| "comparison_why (CatalogConflict _) = ''catalog version has a different digest''"

definition may_lead :: "durability \<Rightarrow> durability \<Rightarrow> bool" where
  "may_lead self voter \<longleftrightarrow> compare_to self voter = AtLeast"

section \<open>What a granted comparison means\<close>

definition durability_wf :: "durability \<Rightarrow> bool" where
  "durability_wf d \<longleftrightarrow> bt_wf (du_shards d)"

definition holds_data :: "durability \<Rightarrow> bool" where
  "holds_data d \<longleftrightarrow> (\<exists>s. 0 < durability_lsn d s)"

lemma holds_data_values:
  "durability_wf d \<Longrightarrow> list_ex (\<lambda>l. l > 0) (bt_values (du_shards d)) \<longleftrightarrow> holds_data d"
proof -
  assume "durability_wf d"
  then have "list_ex (\<lambda>l. l > 0) (bt_values (du_shards d)) \<longleftrightarrow>
      (\<exists>s l. bt_get (du_shards d) s = Some l \<and> 0 < l)"
    unfolding list_ex_iff Bex_def bt_values_mem durability_wf_def by (auto simp: bt_get_iff)
  also have "\<dots> \<longleftrightarrow> holds_data d"
    by (auto simp: holds_data_def durability_lsn_def split: option.splits)
  finally show ?thesis .
qed

lemma covers_all:
  assumes "durability_wf voter"
  shows "find (\<lambda>(shard, ours). durability_lsn self shard < ours) (du_shards voter) = None \<longleftrightarrow>
    (\<forall>s. durability_lsn voter s \<le> durability_lsn self s)"
proof -
  have "(\<forall>s. durability_lsn voter s \<le> durability_lsn self s) \<longleftrightarrow>
      (\<forall>s l. bt_get (du_shards voter) s = Some l \<longrightarrow> l \<le> durability_lsn self s)"
    by (auto simp: durability_lsn_def [of voter] split: option.splits)
  then show ?thesis
    using assms by (fastforce simp: find_None_all durability_wf_def bt_get_iff dest: leD intro: leI)
qed

lemma may_lead_iff:
  assumes "durability_wf voter"
  shows "may_lead self voter \<longleftrightarrow>
    cp_version (du_catalog voter) \<le> cp_version (du_catalog self) \<and>
    (cp_version (du_catalog voter) = cp_version (du_catalog self) \<and> cp_version (du_catalog self) \<noteq> 0 \<longrightarrow>
      cp_digest (du_catalog voter) = cp_digest (du_catalog self)) \<and>
    (holds_data voter \<longrightarrow> du_epoch self = du_epoch voter) \<and>
    (\<forall>s. durability_lsn voter s \<le> durability_lsn self s)"
  using covers_all [OF assms, of self] holds_data_values [OF assms]
  by (auto simp: may_lead_def compare_to_def not_less split: option.splits)

text \<open>
  The election restriction is transitive: a candidate that may lead a voter may lead every
  node that voter may lead, on the catalog, the stream epoch and every shard.
\<close>

theorem may_lead_transitive:
  assumes "durability_wf b" and "durability_wf c" and "may_lead a b" and "may_lead b c"
  shows "may_lead a c"
proof -
  note ab = may_lead_iff [OF assms(1), THEN iffD1, OF assms(3)]
    and bc = may_lead_iff [OF assms(2), THEN iffD1, OF assms(4)]
  have data: "holds_data b" if "holds_data c"
    using that bc unfolding holds_data_def by (blast intro: order_less_le_trans)
  have lsns: "durability_lsn c s \<le> durability_lsn a s" for s
    using ab bc by (blast intro: order_trans)
  have ver: "cp_version (du_catalog c) \<le> cp_version (du_catalog a)"
    using ab bc by (blast intro: order_trans)
  moreover have "cp_digest (du_catalog c) = cp_digest (du_catalog a)"
    if eq: "cp_version (du_catalog c) = cp_version (du_catalog a)" and nz: "cp_version (du_catalog a) \<noteq> 0"
  proof -
    have "cp_version (du_catalog b) = cp_version (du_catalog a)"
      using ab bc eq by (metis order_antisym)
    then show ?thesis using ab bc eq nz by auto
  qed
  ultimately show ?thesis using ab bc data lsns by (auto simp: may_lead_iff [OF assms(2)])
qed

theorem may_lead_transitive_witness:
  "may_lead (durability_with (durability_new 7) 0 9) (durability_with (durability_new 7) 0 2)"
proof (rule may_lead_transitive [where b = "durability_with (durability_new 7) 0 5"])
  show "durability_wf (durability_with (durability_new 7) 0 5)"
    "durability_wf (durability_with (durability_new 7) 0 2)"
    by (simp_all add: durability_wf_def durability_with_def durability_new_def bt_wf_def)
qed (simp_all add: may_lead_def compare_to_def durability_with_def durability_new_def
      durability_lsn_def bt_values_def bt_get_def)

end
