(* ===== verification/Election.thy ===== *)
theory Election
  imports Term_Store Durability Placement
begin

unbundle bit_operations_syntax

text \<open>
  The election state machine of \<^verbatim>\<open>src/src/cluster/election.rs\<close>: one handler per method, each
  taking the state and returning it with a result. A handler that writes the term file takes the
  faults of those writes as arguments. The text of a refusal or a step-down keeps its literal
  words and leaves out the interpolated values.
\<close>

section \<open>Configuration, messages and state\<close>

record election_config =
  ec_node :: node_id
  ec_peers :: "node_id list"
  ec_election_timeout :: duration
  ec_heartbeat_interval :: duration

definition election_floor :: "node_id \<Rightarrow> node_id list \<Rightarrow> election_config" where
  "election_floor node peers =
     \<lparr>ec_node = node, ec_peers = peers, ec_election_timeout = 1500000000,
      ec_heartbeat_interval = 300000000\<rparr>"

definition election_validate :: "election_config \<Rightarrow> unit result" where
  "election_validate cfg =
     (if ec_heartbeat_interval cfg * 3 > ec_election_timeout cfg
      then Inl (ClusterConfig ''heartbeat_interval is too close to election_timeout'') else Inr ())"

datatype role = Follower | Candidate | Leader

record vote_request =
  vq_term :: epoch_term
  vq_candidate :: node_id
  vq_durability :: durability

record vote_reply =
  vr_term :: epoch_term
  vr_granted :: bool
  vr_reason :: string

record heartbeat =
  hb_term :: epoch_term
  hb_leader :: node_id
  hb_placement :: placement

record heartbeat_reply =
  hr_term :: epoch_term
  hr_ok :: bool
  hr_cordoned :: bool
  hr_prefers :: "u32 list"

datatype action =
    RequestVotes epoch_term
  | Heartbeat epoch_term
  | BecameLeader epoch_term
  | SteppedDown epoch_term string

record election =
  el_cfg :: election_config
  el_terms :: term_store
  el_role :: role
  el_leader :: "node_id option"
  el_last_contact :: instant
  el_last_heartbeat :: instant
  el_votes :: "node_id set"
  el_acks :: "node_id set"
  el_lease_start :: instant
  el_stepdown_backoff :: "instant option"
  el_current_voters :: "node_id set"
  el_next_voters :: "node_id set option"

abbreviation el_term :: "election \<Rightarrow> epoch_term" where
  "el_term e \<equiv> ts_term (tst_mem (el_terms e))"

abbreviation el_vote :: "election \<Rightarrow> node_id option" where
  "el_vote e \<equiv> ts_voted_for (tst_mem (el_terms e))"

abbreviation el_node :: "election \<Rightarrow> node_id" where
  "el_node e \<equiv> ec_node (el_cfg e)"

definition election_new :: "election_config \<Rightarrow> term_store \<Rightarrow> instant \<Rightarrow> election result" where
  "election_new cfg terms now =
     and_then (election_validate cfg) (\<lambda>_.
       Inr \<lparr>el_cfg = cfg, el_terms = terms, el_role = Follower, el_leader = None,
            el_last_contact = now, el_last_heartbeat = now, el_votes = {}, el_acks = {},
            el_lease_start = now, el_stepdown_backoff = None,
            el_current_voters = insert (ec_node cfg) (set (ec_peers cfg)), el_next_voters = None\<rparr>)"

section \<open>Voters and quorums\<close>

definition set_voter_configuration ::
    "node_id set \<Rightarrow> node_id set option \<Rightarrow> election \<Rightarrow> election \<times> unit result" where
  "set_voter_configuration current nxt e =
     (if current = {} \<or> nxt = Some {}
      then (e, Inl (ClusterConfig ''election voter configurations cannot be empty''))
      else
        let configured = current \<union> (case nxt of Some v \<Rightarrow> v | None \<Rightarrow> {}) in
        (e\<lparr>el_current_voters := current, el_next_voters := nxt,
           el_votes := el_votes e \<inter> configured, el_acks := el_acks e \<inter> configured\<rparr>, Inr ()))"

definition is_configured_voter :: "election \<Rightarrow> node_id \<Rightarrow> bool" where
  "is_configured_voter e node \<longleftrightarrow>
     node \<in> el_current_voters e \<or> (case el_next_voters e of Some v \<Rightarrow> node \<in> v | None \<Rightarrow> False)"

definition has_quorum :: "election \<Rightarrow> node_id set \<Rightarrow> bool" where
  "has_quorum e acknowledgements \<longleftrightarrow>
     majority acknowledgements (el_current_voters e) \<and>
     (case el_next_voters e of None \<Rightarrow> True | Some v \<Rightarrow> majority acknowledgements v)"

text \<open>A quorum depends on the voter configuration alone.\<close>

lemma has_quorum_updates [simp]:
  "has_quorum (e\<lparr>el_terms := ts\<rparr>) A = has_quorum e A"
  "has_quorum (e\<lparr>el_role := r\<rparr>) A = has_quorum e A"
  "has_quorum (e\<lparr>el_leader := l\<rparr>) A = has_quorum e A"
  "has_quorum (e\<lparr>el_last_contact := i\<rparr>) A = has_quorum e A"
  "has_quorum (e\<lparr>el_last_heartbeat := i\<rparr>) A = has_quorum e A"
  "has_quorum (e\<lparr>el_votes := B\<rparr>) A = has_quorum e A"
  "has_quorum (e\<lparr>el_acks := B\<rparr>) A = has_quorum e A"
  "has_quorum (e\<lparr>el_lease_start := i\<rparr>) A = has_quorum e A"
  by (simp_all add: has_quorum_def)

text \<open>The election timeout, spread over one base interval by a hash of the node and its term.\<close>

definition timeout :: "election \<Rightarrow> duration" where
  "timeout e =
     (let base = ec_election_timeout (el_cfg e);
          h = el_node e * 0x9E3779B97F4A7C15;
          h = h XOR (el_term e * 0xBF58476D1CE4E5B9);
          h = h XOR drop_bit 31 h
      in base + unat (h mod word_of_nat (max base 1)))"

section \<open>The handlers\<close>

definition step_down :: "string \<Rightarrow> instant \<Rightarrow> election \<Rightarrow> election \<times> action" where
  "step_down why now e =
     (e\<lparr>el_role := Follower, el_leader := None, el_last_contact := now, el_votes := {}, el_acks := {}\<rparr>,
      SteppedDown (el_term e) why)"

definition become_leader :: "instant \<Rightarrow> election \<Rightarrow> election \<times> action" where
  "become_leader now e =
     (e\<lparr>el_role := Leader, el_leader := Some (el_node e), el_lease_start := now, el_last_contact := now,
        el_last_heartbeat := now - int (ec_heartbeat_interval (el_cfg e)), el_acks := {}\<rparr>,
      BecameLeader (el_term e))"

definition observe_term ::
    "persist_fault \<Rightarrow> epoch_term \<Rightarrow> instant \<Rightarrow> string \<Rightarrow> election \<Rightarrow> election \<times> action result" where
  "observe_term f term now why e =
     (case advance_to f term (el_terms e) of
        (ts, Inl err) \<Rightarrow> (e\<lparr>el_terms := ts\<rparr>, Inl err)
      | (ts, Inr _) \<Rightarrow>
          let e = e\<lparr>el_terms := ts, el_votes := {}\<rparr> in
          if el_role e = Leader then (case step_down why now e of (e, a) \<Rightarrow> (e, Inr a))
          else (e\<lparr>el_role := Follower, el_leader := None\<rparr>, Inr (SteppedDown (el_term e) why)))"

definition stand_for_election ::
    "persist_fault \<Rightarrow> persist_fault \<Rightarrow> instant \<Rightarrow> election \<Rightarrow> election \<times> action option result" where
  "stand_for_election f1 f2 now e =
     (let nxt = el_term e + 1 in
      case advance_to f1 nxt (el_terms e) of
        (ts, Inl err) \<Rightarrow> (e\<lparr>el_terms := ts\<rparr>, Inl err)
      | (ts, Inr _) \<Rightarrow>
          case grant_vote f2 nxt (el_node e) ts of
            (ts, Inl err) \<Rightarrow> (e\<lparr>el_terms := ts\<rparr>, Inl err)
          | (ts, Inr _) \<Rightarrow>
              let e = e\<lparr>el_terms := ts, el_role := Candidate, el_leader := None,
                        el_last_contact := now, el_votes := {el_node e}\<rparr> in
              if has_quorum e (el_votes e)
              then (case become_leader now e of (e, a) \<Rightarrow> (e, Inr (Some a)))
              else (e, Inr (Some (RequestVotes nxt))))"

definition tick ::
    "persist_fault \<Rightarrow> persist_fault \<Rightarrow> instant \<Rightarrow> election \<Rightarrow> election \<times> action option result" where
  "tick f1 f2 now e =
     (if el_role e = Leader then
        if ec_election_timeout (el_cfg e) \<le> duration_since now (el_lease_start e) \<and>
           \<not> has_quorum e (insert (el_node e) (el_acks e))
        then (case step_down ''lease expired'' now e of (e, a) \<Rightarrow> (e, Inr (Some a)))
        else if ec_heartbeat_interval (el_cfg e) \<le> duration_since now (el_last_heartbeat e)
        then (e\<lparr>el_last_heartbeat := now\<rparr>, Inr (Some (Heartbeat (el_term e))))
        else (e, Inr None)
      else
        case el_stepdown_backoff e of
          Some until \<Rightarrow>
            if now < until then (e, Inr None)
            else
              let e = e\<lparr>el_stepdown_backoff := None\<rparr> in
              if timeout e \<le> duration_since now (el_last_contact e)
              then stand_for_election f1 f2 now e else (e, Inr None)
        | None \<Rightarrow>
            if timeout e \<le> duration_since now (el_last_contact e)
            then stand_for_election f1 f2 now e else (e, Inr None))"

definition request_step_down :: "instant \<Rightarrow> election \<Rightarrow> election \<times> action option" where
  "request_step_down now e =
     (if el_role e \<noteq> Leader then (e, None)
      else
        let e = e\<lparr>el_stepdown_backoff := Some (now + int (ec_election_timeout (el_cfg e) * 2))\<rparr> in
        case step_down ''operator requested step-down'' now e of (e, a) \<Rightarrow> (e, Some a))"

definition vote_refusal :: "epoch_term \<Rightarrow> string \<Rightarrow> vote_reply" where
  "vote_refusal t why = \<lparr>vr_term = t, vr_granted = False, vr_reason = why\<rparr>"

text \<open>What follows the term check of a vote request.\<close>

definition decide_vote ::
    "persist_fault \<Rightarrow> vote_request \<Rightarrow> instant \<Rightarrow> durability \<Rightarrow> election \<Rightarrow>
     election \<times> vote_reply result" where
  "decide_vote f2 req now mine e =
     (let current = el_term e in
      if \<not> is_configured_voter e (vq_candidate req)
      then (e, Inr (vote_refusal current ''candidate is not in the voter configuration''))
      else if vq_term req < current then (e, Inr (vote_refusal current ''stale term''))
      else
        let comparison = compare_to (vq_durability req) mine in
        if comparison \<noteq> AtLeast then (e, Inr (vote_refusal current (comparison_why comparison)))
        else
          case grant_vote f2 (vq_term req) (vq_candidate req) (el_terms e) of
            (ts, Inl err) \<Rightarrow> (e\<lparr>el_terms := ts\<rparr>, Inl err)
          | (ts, Inr granted) \<Rightarrow>
              let e = e\<lparr>el_terms := ts\<rparr>;
                  e = (if granted then e\<lparr>el_last_contact := now\<rparr> else e)
              in (e, Inr \<lparr>vr_term = el_term e, vr_granted = granted,
                          vr_reason = (if granted then [] else ''already voted'')\<rparr>))"

definition on_vote_request ::
    "persist_fault \<Rightarrow> persist_fault \<Rightarrow> vote_request \<Rightarrow> instant \<Rightarrow> durability \<Rightarrow> election \<Rightarrow>
     election \<times> vote_reply result" where
  "on_vote_request f1 f2 req now mine e =
     (if vq_term req > el_term e then
        (case observe_term f1 (vq_term req) now ''candidate has a higher term'' e of
           (e, Inl err) \<Rightarrow> (e, Inl err)
         | (e, Inr _) \<Rightarrow> decide_vote f2 req now mine e)
      else decide_vote f2 req now mine e)"

definition on_vote_reply ::
    "persist_fault \<Rightarrow> node_id \<Rightarrow> vote_reply \<Rightarrow> instant \<Rightarrow> election \<Rightarrow>
     election \<times> action option result" where
  "on_vote_reply f from reply now e =
     (if vr_term reply > el_term e then
        (case observe_term f (vr_term reply) now ''voter is on a higher term'' e of
           (e, Inl err) \<Rightarrow> (e, Inl err)
         | (e, Inr a) \<Rightarrow> (e, Inr (Some a)))
      else if el_role e \<noteq> Candidate \<or> vr_term reply \<noteq> el_term e then (e, Inr None)
      else if \<not> vr_granted reply then (e, Inr None)
      else
        let e = (if is_configured_voter e from then e\<lparr>el_votes := insert from (el_votes e)\<rparr> else e) in
        if has_quorum e (el_votes e)
        then (case become_leader now e of (e, a) \<Rightarrow> (e, Inr (Some a)))
        else (e, Inr None))"

definition follow_leader :: "heartbeat \<Rightarrow> instant \<Rightarrow> election \<Rightarrow> election \<times> heartbeat_reply result" where
  "follow_leader hb now e =
     (e\<lparr>el_role := Follower, el_leader := Some (hb_leader hb), el_last_contact := now\<rparr>,
      Inr \<lparr>hr_term = el_term e, hr_ok = True, hr_cordoned = False, hr_prefers = []\<rparr>)"

definition on_heartbeat ::
    "persist_fault \<Rightarrow> heartbeat \<Rightarrow> instant \<Rightarrow> election \<Rightarrow> election \<times> heartbeat_reply result" where
  "on_heartbeat f hb now e =
     (let current = el_term e in
      if hb_term hb < current
      then (e, Inr \<lparr>hr_term = current, hr_ok = False, hr_cordoned = False, hr_prefers = []\<rparr>)
      else if hb_term hb > current then
        (case observe_term f (hb_term hb) now ''leader has a higher term'' e of
           (e, Inl err) \<Rightarrow> (e, Inl err)
         | (e, Inr _) \<Rightarrow> follow_leader hb now e)
      else follow_leader hb now e)"

definition on_heartbeat_reply ::
    "persist_fault \<Rightarrow> node_id \<Rightarrow> heartbeat_reply \<Rightarrow> instant \<Rightarrow> election \<Rightarrow>
     election \<times> action option result" where
  "on_heartbeat_reply f from reply now e =
     (if hr_term reply > el_term e then
        (case observe_term f (hr_term reply) now ''peer is on a higher term'' e of
           (e, Inl err) \<Rightarrow> (e, Inl err)
         | (e, Inr a) \<Rightarrow> (e, Inr (Some a)))
      else if el_role e \<noteq> Leader \<or> \<not> hr_ok reply then (e, Inr None)
      else
        let e = (if is_configured_voter e from then e\<lparr>el_acks := insert from (el_acks e)\<rparr> else e) in
        if has_quorum e (insert (el_node e) (el_acks e))
        then (e\<lparr>el_lease_start := now, el_last_contact := now, el_acks := {}\<rparr>, Inr None)
        else (e, Inr None))"

section \<open>One step of a node\<close>

text \<open>
  The entry points as one event type, with restarts: a restarted node opens its term store from
  disk and rebuilds the state machine as a follower; if that fails it stays down and its disk is
  unchanged.
\<close>

datatype event =
    Tick persist_fault persist_fault instant
  | VoteRequested persist_fault persist_fault vote_request instant durability
  | VoteReplied persist_fault node_id vote_reply instant
  | HeartbeatReceived persist_fault heartbeat instant
  | HeartbeatReplied persist_fault node_id heartbeat_reply instant
  | StepDownRequested instant
  | Configured "node_id set" "node_id set option"
  | Restarted open_fault instant

datatype outcome = Quiet | Acted action | Voted vote_reply | Beat heartbeat_reply | Failed error

fun acted :: "action option result \<Rightarrow> outcome" where
  "acted (Inl err) = Failed err"
| "acted (Inr None) = Quiet"
| "acted (Inr (Some a)) = Acted a"

fun handle :: "event \<Rightarrow> election \<Rightarrow> election \<times> outcome" where
  "handle (Tick f1 f2 now) e = (case tick f1 f2 now e of (e, r) \<Rightarrow> (e, acted r))"
| "handle (VoteRequested f1 f2 req now mine) e =
     (case on_vote_request f1 f2 req now mine e of
        (e, Inl err) \<Rightarrow> (e, Failed err) | (e, Inr r) \<Rightarrow> (e, Voted r))"
| "handle (VoteReplied f from reply now) e = (case on_vote_reply f from reply now e of (e, r) \<Rightarrow> (e, acted r))"
| "handle (HeartbeatReceived f hb now) e =
     (case on_heartbeat f hb now e of (e, Inl err) \<Rightarrow> (e, Failed err) | (e, Inr r) \<Rightarrow> (e, Beat r))"
| "handle (HeartbeatReplied f from reply now) e =
     (case on_heartbeat_reply f from reply now e of (e, r) \<Rightarrow> (e, acted r))"
| "handle (StepDownRequested now) e =
     (case request_step_down now e of (e, None) \<Rightarrow> (e, Quiet) | (e, Some a) \<Rightarrow> (e, Acted a))"
| "handle (Configured current nxt) e =
     (case set_voter_configuration current nxt e of
        (e, Inl err) \<Rightarrow> (e, Failed err) | (e, Inr _) \<Rightarrow> (e, Quiet))"
| "handle (Restarted f now) e =
     (case and_then (term_open f (tst_disk (el_terms e))) (\<lambda>ts. election_new (el_cfg e) ts now) of
        Inl err \<Rightarrow> (e, Failed err)
      | Inr e' \<Rightarrow> (e', Quiet))"

section \<open>What a handler does to the durable term\<close>

text \<open>Every handler changes the term store only through operations of the store.\<close>

definition terms_evolve :: "term_store \<Rightarrow> term_store \<Rightarrow> bool" where
  "terms_evolve ts ts' \<longleftrightarrow> (\<exists>ops. ts' = term_ledger.run ops ts)"

lemma terms_evolve_refl [simp]: "terms_evolve ts ts"
  unfolding terms_evolve_def by (rule exI [of _ "[]"]) simp

lemma terms_evolve_trans: "terms_evolve a b \<Longrightarrow> terms_evolve b c \<Longrightarrow> terms_evolve a c"
  unfolding terms_evolve_def by (metis term_ledger.run_append)

lemma terms_evolve_advance: "advance_to f t ts = (ts', r) \<Longrightarrow> terms_evolve ts ts'"
  unfolding terms_evolve_def by (rule exI [of _ "[AdvanceTo f t]"]) simp

lemma terms_evolve_grant: "grant_vote f t c ts = (ts', r) \<Longrightarrow> terms_evolve ts ts'"
  unfolding terms_evolve_def by (rule exI [of _ "[GrantVote f t c]"]) simp

lemma terms_evolve_open: "term_open f (tst_disk ts) = Inr ts' \<Longrightarrow> terms_evolve ts ts'"
  unfolding terms_evolve_def by (rule exI [of _ "[Restart f]"]) simp

lemmas terms_evolve_intros =
  terms_evolve_refl terms_evolve_advance terms_evolve_grant terms_evolve_open

lemma terms_evolve_wf: "terms_evolve a b \<Longrightarrow> term_store_wf a \<Longrightarrow> term_store_wf b"
  by (auto simp: terms_evolve_def term_ledger.run_inv)

lemma terms_evolve_mono:
  "terms_evolve a b \<Longrightarrow> term_store_wf a \<Longrightarrow> ts_term (tst_mem a) \<le> ts_term (tst_mem b)"
  by (auto simp: terms_evolve_def intro: term_ledger.run_term_mono)

lemma terms_evolve_vote:
  "terms_evolve a b \<Longrightarrow> term_store_wf a \<Longrightarrow> ts_term (tst_mem b) = ts_term (tst_mem a) \<Longrightarrow>
    ts_voted_for (tst_mem a) = Some c \<Longrightarrow> ts_voted_for (tst_mem b) = Some c"
  by (auto simp: terms_evolve_def intro: term_ledger.run_vote_kept)

lemma observe_term_evolve: "observe_term f t now why e = (e', r) \<Longrightarrow> terms_evolve (el_terms e) (el_terms e')"
  by (auto simp: observe_term_def step_down_def Let_def intro: terms_evolve_intros
      split: prod.splits sum.splits if_splits)

lemma stand_for_election_evolve:
  "stand_for_election f1 f2 now e = (e', r) \<Longrightarrow> terms_evolve (el_terms e) (el_terms e')"
  by (auto simp: stand_for_election_def become_leader_def Let_def
      dest!: terms_evolve_advance terms_evolve_grant intro: terms_evolve_trans
      split: prod.splits sum.splits if_splits)

lemma tick_evolve: "tick f1 f2 now e = (e', r) \<Longrightarrow> terms_evolve (el_terms e) (el_terms e')"
  using stand_for_election_evolve [of f1 f2 now "e\<lparr>el_stepdown_backoff := None\<rparr>"]
    stand_for_election_evolve [of f1 f2 now e]
  by (auto simp: tick_def step_down_def Let_def split: option.splits if_splits)

lemma decide_vote_evolve: "decide_vote f2 req now mine e = (e', r) \<Longrightarrow> terms_evolve (el_terms e) (el_terms e')"
  by (auto simp: decide_vote_def Let_def intro: terms_evolve_intros split: prod.splits sum.splits if_splits)

lemma on_vote_request_evolve:
  "on_vote_request f1 f2 req now mine e = (e', r) \<Longrightarrow> terms_evolve (el_terms e) (el_terms e')"
  by (auto simp: on_vote_request_def dest!: decide_vote_evolve observe_term_evolve
      intro: terms_evolve_trans split: prod.splits sum.splits if_splits)

lemma on_vote_reply_evolve: "on_vote_reply f from reply now e = (e', r) \<Longrightarrow> terms_evolve (el_terms e) (el_terms e')"
  by (auto simp: on_vote_reply_def become_leader_def Let_def dest: observe_term_evolve
      split: prod.splits sum.splits if_splits)

lemma on_heartbeat_evolve: "on_heartbeat f hb now e = (e', r) \<Longrightarrow> terms_evolve (el_terms e) (el_terms e')"
  by (auto simp: on_heartbeat_def follow_leader_def Let_def dest: observe_term_evolve
      split: prod.splits sum.splits if_splits)

lemma on_heartbeat_reply_evolve:
  "on_heartbeat_reply f from reply now e = (e', r) \<Longrightarrow> terms_evolve (el_terms e) (el_terms e')"
  by (auto simp: on_heartbeat_reply_def Let_def dest: observe_term_evolve
      split: prod.splits sum.splits if_splits)

lemma handle_evolve: "handle ev e = (e', out) \<Longrightarrow> terms_evolve (el_terms e) (el_terms e')"
  by (cases ev)
    (auto simp: request_step_down_def step_down_def set_voter_configuration_def election_new_def
      result_simps Let_def intro: terms_evolve_open
      dest: tick_evolve on_vote_request_evolve on_vote_reply_evolve on_heartbeat_evolve
        on_heartbeat_reply_evolve
      split: prod.splits sum.splits if_splits option.splits)

text \<open>No handler changes the configuration a node was started with.\<close>

lemma observe_term_cfg: "observe_term f t now why e = (e', r) \<Longrightarrow> el_cfg e' = el_cfg e"
  by (auto simp: observe_term_def step_down_def Let_def split: prod.splits sum.splits if_splits)

lemma stand_for_election_cfg: "stand_for_election f1 f2 now e = (e', r) \<Longrightarrow> el_cfg e' = el_cfg e"
  by (auto simp: stand_for_election_def become_leader_def Let_def
      split: prod.splits sum.splits if_splits)

lemma tick_cfg: "tick f1 f2 now e = (e', r) \<Longrightarrow> el_cfg e' = el_cfg e"
  by (auto simp: tick_def step_down_def Let_def dest: stand_for_election_cfg
      split: option.splits if_splits)

lemma decide_vote_cfg: "decide_vote f2 req now mine e = (e', r) \<Longrightarrow> el_cfg e' = el_cfg e"
  by (auto simp: decide_vote_def Let_def split: prod.splits sum.splits if_splits)

lemma on_vote_request_cfg: "on_vote_request f1 f2 req now mine e = (e', r) \<Longrightarrow> el_cfg e' = el_cfg e"
  by (auto simp: on_vote_request_def dest!: observe_term_cfg decide_vote_cfg
      split: prod.splits sum.splits if_splits)

lemma on_vote_reply_cfg: "on_vote_reply f from reply now e = (e', r) \<Longrightarrow> el_cfg e' = el_cfg e"
  by (auto simp: on_vote_reply_def become_leader_def Let_def dest: observe_term_cfg
      split: prod.splits sum.splits if_splits)

lemma on_heartbeat_cfg: "on_heartbeat f hb now e = (e', r) \<Longrightarrow> el_cfg e' = el_cfg e"
  by (auto simp: on_heartbeat_def follow_leader_def Let_def dest: observe_term_cfg
      split: prod.splits sum.splits if_splits)

lemma on_heartbeat_reply_cfg: "on_heartbeat_reply f from reply now e = (e', r) \<Longrightarrow> el_cfg e' = el_cfg e"
  by (auto simp: on_heartbeat_reply_def Let_def dest: observe_term_cfg
      split: prod.splits sum.splits if_splits)

lemma handle_node: "handle ev e = (e', out) \<Longrightarrow> el_cfg e' = el_cfg e"
  by (cases ev)
    (auto simp: request_step_down_def step_down_def set_voter_configuration_def election_new_def
      result_simps Let_def
      dest: tick_cfg on_vote_request_cfg on_vote_reply_cfg on_heartbeat_cfg on_heartbeat_reply_cfg
      split: prod.splits sum.splits if_splits option.splits)

end
