(* ===== verification/Election_Safety.thy ===== *)
theory Election_Safety
  imports Election
begin

text \<open>
  A cluster of nodes running the election state machine over a network that delays, reorders,
  duplicates and drops messages, with failed writes and restarts at every node. The step relation
  delivers one event to one node; the invariant ties every leader to a quorum of recorded votes,
  and quorum intersection gives at most one leader per term.
\<close>

section \<open>The cluster\<close>

text \<open>
  The vote requests and replies ever sent stay in the network. \<open>nw_ballots\<close> and
  \<open>nw_elected\<close> are history: every vote a node has recorded, and every node that announced
  its leadership with the term it announced.
\<close>

record network =
  nw_node :: "node_id \<Rightarrow> election"
  nw_requests :: "(epoch_term \<times> node_id) set"
  nw_replies :: "(node_id \<times> node_id \<times> vote_reply) set"
  nw_ballots :: "(node_id \<times> epoch_term \<times> node_id) set"
  nw_elected :: "(epoch_term \<times> node_id) set"

definition recorded_votes :: "node_id \<Rightarrow> election \<Rightarrow> (node_id \<times> epoch_term \<times> node_id) set" where
  "recorded_votes n e = (case el_vote e of None \<Rightarrow> {} | Some c \<Rightarrow> {(n, el_term e, c)})"

text \<open>
  Which events the network can deliver to a node: a vote request only if its sender made it, a
  vote reply only if it was sent to this node. Heartbeats and their replies are unconstrained. A
  term is a 64-bit counter, and a node whose term is at the maximum does not tick.
\<close>

fun deliverable :: "network \<Rightarrow> node_id \<Rightarrow> event \<Rightarrow> bool" where
  "deliverable S n (Tick f1 f2 now) = (el_term (nw_node S n) \<noteq> - 1)"
| "deliverable S n (VoteRequested f1 f2 req now mine) = ((vq_term req, vq_candidate req) \<in> nw_requests S)"
| "deliverable S n (VoteReplied f from reply now) = ((from, n, reply) \<in> nw_replies S)"
| "deliverable S n _ = True"

fun requests_of :: "node_id \<Rightarrow> outcome \<Rightarrow> (epoch_term \<times> node_id) set" where
  "requests_of n (Acted (RequestVotes t)) = {(t, n)}"
| "requests_of n _ = {}"

fun replies_of :: "node_id \<Rightarrow> event \<Rightarrow> outcome \<Rightarrow> (node_id \<times> node_id \<times> vote_reply) set" where
  "replies_of n (VoteRequested f1 f2 req now mine) (Voted r) = {(n, vq_candidate req, r)}"
| "replies_of n _ _ = {}"

fun elected_of :: "node_id \<Rightarrow> outcome \<Rightarrow> (epoch_term \<times> node_id) set" where
  "elected_of n (Acted (BecameLeader t)) = {(t, n)}"
| "elected_of n _ = {}"

text \<open>
  The voter configurations in use all contain one voter set, as the current or as the next one: a
  static cluster, or either half of a joint transition.
\<close>

definition shares_voters :: "node_id set \<Rightarrow> election \<Rightarrow> bool" where
  "shares_voters V e \<longleftrightarrow> el_current_voters e = V \<or> el_next_voters e = Some V"

inductive net_step :: "node_id set \<Rightarrow> network \<Rightarrow> network \<Rightarrow> bool" for V where
  deliver:
    "\<lbrakk>deliverable S n ev; handle ev (nw_node S n) = (e', out); shares_voters V e'\<rbrakk> \<Longrightarrow>
     net_step V S
       \<lparr>nw_node = (nw_node S)(n := e'),
        nw_requests = nw_requests S \<union> requests_of n out,
        nw_replies = nw_replies S \<union> replies_of n ev out,
        nw_ballots = nw_ballots S \<union> recorded_votes n e',
        nw_elected = nw_elected S \<union> elected_of n out\<rparr>"

definition net_init :: "node_id set \<Rightarrow> network \<Rightarrow> bool" where
  "net_init V S \<longleftrightarrow>
     (\<forall>n. el_node (nw_node S n) = n \<and> el_role (nw_node S n) = Follower \<and>
        term_store_wf (el_terms (nw_node S n)) \<and> shares_voters V (nw_node S n)) \<and>
     nw_requests S = {} \<and> nw_replies S = {} \<and> nw_elected S = {} \<and>
     nw_ballots S = (\<Union>n. recorded_votes n (nw_node S n))"

inductive net_reachable :: "node_id set \<Rightarrow> network \<Rightarrow> bool" for V where
  initial: "net_init V S \<Longrightarrow> net_reachable V S"
| step: "net_reachable V S \<Longrightarrow> net_step V S S' \<Longrightarrow> net_reachable V S'"

section \<open>Quorums of a configuration\<close>

interpretation voter_majority: quorum_rule "\<lambda>A. majority A V" for V :: "node_id set"
proof unfold_locales
  fix A B assume "majority A V" "majority B V"
  then show "A \<inter> B \<noteq> {}" using majority_intersect [of A V B] by auto
next
  fix A B assume "majority A V" "A \<subseteq> B"
  then show "majority B V" by (rule majority_mono) simp
qed

lemma shared_quorum: "shares_voters V e \<Longrightarrow> has_quorum e A \<Longrightarrow> majority A V"
  by (auto simp: shares_voters_def has_quorum_def)

section \<open>How the role can change\<close>

text \<open>
  What one event does to a node's candidacy, as far as the proof needs it. A node that leads
  afterwards led the same term before or has just won: it collected a quorum. A candidate
  afterwards was one before with the votes it had, has just stood, has counted one reply, or has
  advanced its term without being able to record its own vote.
\<close>

definition won :: "event \<Rightarrow> election \<Rightarrow> election \<Rightarrow> bool" where
  "won ev e e' \<longleftrightarrow>
     has_quorum e' (el_votes e') \<and>
     (el_votes e' = {el_node e} \<and> el_vote e' = Some (el_node e) \<and> el_term e' \<noteq> el_term e \<or>
      el_role e = Candidate \<and> el_terms e' = el_terms e \<and>
      (\<exists>f from reply now. ev = VoteReplied f from reply now \<and> vr_granted reply \<and>
        vr_term reply = el_term e \<and> el_votes e' \<subseteq> insert from (el_votes e)))"

definition role_change :: "event \<Rightarrow> election \<Rightarrow> election \<Rightarrow> outcome \<Rightarrow> bool" where
  "role_change ev e e' out \<longleftrightarrow>
     (\<forall>t. out = Acted (BecameLeader t) \<longrightarrow> t = el_term e' \<and> won ev e e') \<and>
     (\<forall>t. out = Acted (RequestVotes t) \<longrightarrow>
        t = el_term e' \<and> el_role e' = Candidate \<and> el_votes e' = {el_node e} \<and>
        el_vote e' = Some (el_node e)) \<and>
     (el_role e' = Leader \<longrightarrow>
        el_role e = Leader \<and> el_term e' = el_term e \<or> out = Acted (BecameLeader (el_term e'))) \<and>
     (el_role e' = Candidate \<longrightarrow>
        out = Acted (RequestVotes (el_term e')) \<or>
        el_role e = Candidate \<and> el_term e' = el_term e \<and>
          (el_votes e' \<subseteq> el_votes e \<or>
           (\<exists>f from reply now. ev = VoteReplied f from reply now \<and> vr_granted reply \<and>
             vr_term reply = el_term e \<and> el_votes e' \<subseteq> insert from (el_votes e))) \<or>
        el_term e' \<noteq> el_term e)"

lemma observe_term_cases:
  assumes "observe_term f t now why e = (e', r)"
  obtains (failed) err where "r = Inl err" "tst_mem (el_terms e') = tst_mem (el_terms e)"
      "el_role e' = el_role e" "el_votes e' = el_votes e"
    | (observed) w where "r = Inr (SteppedDown (el_term e') w)" "el_role e' = Follower"
      "el_term e' = max t (el_term e)"
proof (cases "advance_to f t (el_terms e)")
  case (Pair ts q)
  from Pair show thesis
  proof (cases rule: advance_to_cases)
    case stale
    with assms Pair show thesis
      by (intro observed) (auto simp: observe_term_def step_down_def Let_def max_def split: if_splits)
  next
    case ok
    with assms Pair show thesis
      by (intro observed) (auto simp: observe_term_def step_down_def Let_def max_def split: if_splits)
  next
    case (failed err)
    with assms Pair show thesis by (intro that(1)) (auto simp: observe_term_def)
  qed
qed

lemma stand_for_election_role:
  assumes stand: "stand_for_election f1 f2 now e = (e', r)" and max: "el_term e \<noteq> - 1"
    and role: "el_role e \<noteq> Leader"
  shows "role_change ev e e' (acted r)"
proof (cases "advance_to f1 (el_term e + 1) (el_terms e)")
  case (Pair ts q)
  note less = word_succ_greater [OF max]
  from Pair show ?thesis
  proof (cases rule: advance_to_cases)
    case stale
    with less show ?thesis by simp
  next
    case (failed err)
    with stand Pair role show ?thesis
      by (auto simp: stand_for_election_def role_change_def)
  next
    case ok
    show ?thesis
    proof (cases "grant_vote f2 (el_term e + 1) (el_node e) ts")
      case (Pair ts2 g)
      note eqs = stand \<open>advance_to f1 (el_term e + 1) (el_terms e) = (ts, q)\<close> ok Pair role less
      from Pair show ?thesis
      proof (cases rule: grant_vote_cases)
        case refused
        with ok show ?thesis by (simp add: vote_free_def)
      next
        case again
        with ok show ?thesis by simp
      next
        case ok
        with eqs show ?thesis
          by (auto simp: stand_for_election_def become_leader_def role_change_def won_def Let_def
              split: if_splits)
      next
        case (failed err)
        with eqs show ?thesis by (auto simp: stand_for_election_def role_change_def)
      qed
    qed
  qed
qed

lemma role_change_backoff:
  "role_change ev (e\<lparr>el_stepdown_backoff := x\<rparr>) e' out = role_change ev e e' out"
  by (simp add: role_change_def won_def)

lemma tick_role:
  assumes "tick f1 f2 now e = (e', r)" and "el_term e \<noteq> - 1"
  shows "role_change ev e e' (acted r)"
proof (cases "el_role e = Leader")
  case True
  with assms show ?thesis
    by (auto simp: tick_def step_down_def role_change_def split: if_splits)
next
  case False
  let ?b = "e\<lparr>el_stepdown_backoff := None\<rparr>"
  have idle: "role_change ev e e Quiet" "role_change ev e ?b Quiet"
    by (auto simp: role_change_def)
  have stood: "role_change ev e e' (acted r)" if "stand_for_election f1 f2 now ?b = (e', r)"
  proof -
    have "role_change ev ?b e' (acted r)"
      using that assms(2) False by (intro stand_for_election_role) auto
    then show ?thesis by (simp only: role_change_backoff)
  qed
  from False assms idle stood stand_for_election_role [of f1 f2 now e e' r ev] show ?thesis
    by (auto simp: tick_def Let_def split: option.splits if_splits)
qed

lemma decide_vote_effect:
  assumes "decide_vote f2 req now mine e = (e', r)" and "vq_term req \<le> el_term e"
  shows "el_term e' = el_term e \<and> el_role e' = el_role e \<and> el_votes e' = el_votes e \<and>
    (\<forall>reply. r = Inr reply \<and> vr_granted reply \<longrightarrow>
      vr_term reply = vq_term req \<and> el_term e' = vq_term req \<and> el_vote e' = Some (vq_candidate req))"
proof (cases "grant_vote f2 (vq_term req) (vq_candidate req) (el_terms e)")
  case (Pair ts g)
  from Pair show ?thesis
    by (cases rule: grant_vote_cases)
      (use assms Pair in \<open>auto simp: decide_vote_def vote_refusal_def vote_free_def Let_def split: if_splits\<close>)
qed

text \<open>Events that neither elect nor stand, and leave the candidacy as it was or end it.\<close>

lemma role_change_same:
  assumes "el_role e' = el_role e" and "el_term e' = el_term e" and "el_votes e' \<subseteq> el_votes e"
    and "\<And>t. out \<noteq> Acted (BecameLeader t)" and "\<And>t. out \<noteq> Acted (RequestVotes t)"
  shows "role_change ev e e' out"
  using assms by (simp add: role_change_def)

lemma role_change_follower:
  assumes "el_role e' = Follower"
    and "\<And>t. out \<noteq> Acted (BecameLeader t)" and "\<And>t. out \<noteq> Acted (RequestVotes t)"
  shows "role_change ev e e' out"
  using assms by (simp add: role_change_def)

lemma on_vote_request_effect:
  assumes req: "on_vote_request f1 f2 req now mine e = (e', r)"
  shows "(el_role e' = Follower \<or> el_role e' = el_role e \<and> el_term e' = el_term e \<and> el_votes e' = el_votes e) \<and>
    (\<forall>reply. r = Inr reply \<and> vr_granted reply \<longrightarrow>
      vr_term reply = vq_term req \<and> el_term e' = vq_term req \<and> el_vote e' = Some (vq_candidate req))"
proof (cases "vq_term req > el_term e")
  case False
  with req have "decide_vote f2 req now mine e = (e', r)" by (simp add: on_vote_request_def)
  from decide_vote_effect [OF this] False show ?thesis by (auto simp: not_less)
next
  case True
  obtain e1 q where obs: "observe_term f1 (vq_term req) now ''candidate has a higher term'' e = (e1, q)"
    by fastforce
  from obs show ?thesis
  proof (cases rule: observe_term_cases)
    case (failed err)
    with obs req True show ?thesis by (auto simp: on_vote_request_def)
  next
    case (observed w)
    with obs req True have "decide_vote f2 req now mine e1 = (e', r)"
      by (simp add: on_vote_request_def)
    from decide_vote_effect [OF this] observed show ?thesis by auto
  qed
qed

lemma on_vote_reply_role:
  assumes reply: "on_vote_reply f from reply now e = (e', r)"
  shows "role_change (VoteReplied f from reply now) e e' (acted r)"
proof (cases "vr_term reply > el_term e")
  case True
  obtain e1 q where obs: "observe_term f (vr_term reply) now ''voter is on a higher term'' e = (e1, q)"
    by fastforce
  from obs show ?thesis
  proof (cases rule: observe_term_cases)
    case (failed err)
    with obs reply True show ?thesis by (intro role_change_same) (auto simp: on_vote_reply_def)
  next
    case (observed w)
    with obs reply True show ?thesis by (intro role_change_follower) (auto simp: on_vote_reply_def)
  qed
next
  case False
  show ?thesis
  proof (cases "el_role e \<noteq> Candidate \<or> vr_term reply \<noteq> el_term e \<or> \<not> vr_granted reply")
    case True
    with False reply show ?thesis
      by (intro role_change_same) (auto simp: on_vote_reply_def split: if_splits)
  next
    case cand: False
    with False reply show ?thesis
      by (auto simp: on_vote_reply_def become_leader_def role_change_def won_def Let_def
          split: if_splits)
  qed
qed

lemma on_heartbeat_role:
  assumes hb: "on_heartbeat f hb now e = (e', r)"
    and out: "\<And>t. out \<noteq> Acted (BecameLeader t)" "\<And>t. out \<noteq> Acted (RequestVotes t)"
  shows "role_change ev e e' out"
proof (cases "hb_term hb > el_term e")
  case False
  have "e' = e \<or> el_role e' = Follower"
    using hb False by (auto simp: on_heartbeat_def follow_leader_def Let_def split: if_splits)
  then show ?thesis
  proof
    assume "e' = e"
    then show ?thesis using out by (intro role_change_same) simp_all
  next
    assume "el_role e' = Follower"
    then show ?thesis using out by (rule role_change_follower)
  qed
next
  case True
  then have not_stale: "\<not> hb_term hb < el_term e" by (rule less_not_sym)
  obtain e1 q where obs: "observe_term f (hb_term hb) now ''leader has a higher term'' e = (e1, q)"
    by fastforce
  from obs show ?thesis
  proof (cases rule: observe_term_cases)
    case (failed err)
    then have "e' = e1" using obs hb True not_stale by (simp add: on_heartbeat_def Let_def)
    with failed out show ?thesis by (intro role_change_same) simp_all
  next
    case (observed w)
    then have "el_role e' = Follower"
      using obs hb True not_stale by (auto simp: on_heartbeat_def follow_leader_def Let_def)
    then show ?thesis using out by (rule role_change_follower)
  qed
qed

lemma on_heartbeat_reply_role:
  assumes reply: "on_heartbeat_reply f from reply now e = (e', r)"
  shows "role_change ev e e' (acted r)"
proof (cases "hr_term reply > el_term e")
  case True
  obtain e1 q where obs: "observe_term f (hr_term reply) now ''peer is on a higher term'' e = (e1, q)"
    by fastforce
  from obs show ?thesis
  proof (cases rule: observe_term_cases)
    case (failed err)
    with obs reply True show ?thesis by (intro role_change_same) (auto simp: on_heartbeat_reply_def)
  next
    case (observed w)
    with obs reply True show ?thesis by (intro role_change_follower) (auto simp: on_heartbeat_reply_def)
  qed
next
  case False
  with reply show ?thesis
    by (intro role_change_same) (auto simp: on_heartbeat_reply_def Let_def split: if_splits)
qed

lemma handle_role:
  assumes "handle ev e = (e', out)" and "\<And>f1 f2 now. ev = Tick f1 f2 now \<Longrightarrow> el_term e \<noteq> - 1"
  shows "role_change ev e e' out"
proof (cases ev)
  case (Tick f1 f2 now)
  with assms show ?thesis by (auto split: prod.splits intro: tick_role)
next
  case (VoteRequested f1 f2 req now mine)
  obtain e1 r where r: "on_vote_request f1 f2 req now mine e = (e1, r)" by fastforce
  from on_vote_request_effect [OF this] r assms(1) VoteRequested show ?thesis
    by (cases r) (auto intro: role_change_same role_change_follower)
next
  case (VoteReplied f src reply now)
  with assms on_vote_reply_role show ?thesis by (auto split: prod.splits)
next
  case (HeartbeatReceived f hb now)
  obtain e1 r where r: "on_heartbeat f hb now e = (e1, r)" by fastforce
  from on_heartbeat_role [OF this] r assms(1) HeartbeatReceived show ?thesis by (cases r) auto
next
  case (HeartbeatReplied f src reply now)
  with assms on_heartbeat_reply_role show ?thesis by (auto split: prod.splits)
next
  case (StepDownRequested now)
  with assms show ?thesis
    by (cases "el_role e = Leader")
      (auto simp: request_step_down_def step_down_def Let_def intro: role_change_same role_change_follower)
next
  case (Configured current nxt)
  with assms show ?thesis
    by (intro role_change_same) (auto simp: set_voter_configuration_def Let_def split: if_splits)
next
  case (Restarted f now)
  with assms show ?thesis
    by (auto simp: election_new_def result_simps intro: role_change_same role_change_follower
        split: sum.splits)
qed

section \<open>The invariant\<close>

definition nodes_ok :: "node_id set \<Rightarrow> network \<Rightarrow> bool" where
  "nodes_ok V S \<longleftrightarrow>
     (\<forall>n. el_node (nw_node S n) = n \<and> term_store_wf (el_terms (nw_node S n)) \<and>
        shares_voters V (nw_node S n))"

definition ballots_ok :: "network \<Rightarrow> bool" where
  "ballots_ok S \<longleftrightarrow>
     (\<forall>(v, t, c) \<in> nw_ballots S. t \<le> el_term (nw_node S v) \<and>
        (t = el_term (nw_node S v) \<longrightarrow> el_vote (nw_node S v) = Some c)) \<and>
     (\<forall>v t c d. (v, t, c) \<in> nw_ballots S \<longrightarrow> (v, t, d) \<in> nw_ballots S \<longrightarrow> c = d) \<and>
     (\<forall>n c. el_vote (nw_node S n) = Some c \<longrightarrow> (n, el_term (nw_node S n), c) \<in> nw_ballots S)"

definition messages_ok :: "network \<Rightarrow> bool" where
  "messages_ok S \<longleftrightarrow>
     (\<forall>(t, n) \<in> nw_requests S. t \<le> el_term (nw_node S n)) \<and>
     (\<forall>(v, n, r) \<in> nw_replies S. vr_granted r \<longrightarrow>
        (v, vr_term r, n) \<in> nw_ballots S \<and> (vr_term r, n) \<in> nw_requests S)"

definition roles_ok :: "network \<Rightarrow> bool" where
  "roles_ok S \<longleftrightarrow>
     (\<forall>n. el_role (nw_node S n) = Candidate \<longrightarrow> (el_term (nw_node S n), n) \<in> nw_requests S \<longrightarrow>
        (\<forall>v \<in> el_votes (nw_node S n). (v, el_term (nw_node S n), n) \<in> nw_ballots S)) \<and>
     (\<forall>n. el_role (nw_node S n) = Leader \<longrightarrow> (el_term (nw_node S n), n) \<in> nw_elected S)"

definition elected_ok :: "node_id set \<Rightarrow> network \<Rightarrow> bool" where
  "elected_ok V S \<longleftrightarrow>
     (\<forall>(t, n) \<in> nw_elected S. \<exists>Q. majority Q V \<and> (\<forall>v \<in> Q. (v, t, n) \<in> nw_ballots S))"

definition net_inv :: "node_id set \<Rightarrow> network \<Rightarrow> bool" where
  "net_inv V S \<longleftrightarrow> nodes_ok V S \<and> ballots_ok S \<and> messages_ok S \<and> roles_ok S \<and> elected_ok V S"

lemma net_init_inv: "net_init V S \<Longrightarrow> net_inv V S"
  by (auto simp: net_inv_def net_init_def nodes_ok_def ballots_ok_def messages_ok_def roles_ok_def
      elected_ok_def recorded_votes_def split: option.splits)

text \<open>The state after one delivery.\<close>

definition delivered :: "network \<Rightarrow> node_id \<Rightarrow> event \<Rightarrow> election \<Rightarrow> outcome \<Rightarrow> network" where
  "delivered S n ev e' out =
     \<lparr>nw_node = (nw_node S)(n := e'),
      nw_requests = nw_requests S \<union> requests_of n out,
      nw_replies = nw_replies S \<union> replies_of n ev out,
      nw_ballots = nw_ballots S \<union> recorded_votes n e',
      nw_elected = nw_elected S \<union> elected_of n out\<rparr>"

lemma delivered_sel [simp]:
  "nw_node (delivered S n ev e' out) = (nw_node S)(n := e')"
  "nw_requests (delivered S n ev e' out) = nw_requests S \<union> requests_of n out"
  "nw_replies (delivered S n ev e' out) = nw_replies S \<union> replies_of n ev out"
  "nw_ballots (delivered S n ev e' out) = nw_ballots S \<union> recorded_votes n e'"
  "nw_elected (delivered S n ev e' out) = nw_elected S \<union> elected_of n out"
  by (simp_all add: delivered_def)

lemma requests_of_iff: "x \<in> requests_of n out \<longleftrightarrow> (\<exists>t. out = Acted (RequestVotes t) \<and> x = (t, n))"
  by (cases "(n, out)" rule: requests_of.cases) auto

lemma elected_of_iff: "x \<in> elected_of n out \<longleftrightarrow> (\<exists>t. out = Acted (BecameLeader t) \<and> x = (t, n))"
  by (cases "(n, out)" rule: elected_of.cases) auto

lemma replies_of_iff:
  "x \<in> replies_of n ev out \<longleftrightarrow>
    (\<exists>f1 f2 req now mine r. ev = VoteRequested f1 f2 req now mine \<and> out = Voted r \<and>
      x = (n, vq_candidate req, r))"
  by (cases "(n, ev, out)" rule: replies_of.cases) auto

lemma recorded_votes_iff: "x \<in> recorded_votes n e \<longleftrightarrow> (\<exists>c. el_vote e = Some c \<and> x = (n, el_term e, c))"
  by (auto simp: recorded_votes_def split: option.splits)

lemmas delivery_simps = requests_of_iff elected_of_iff replies_of_iff recorded_votes_iff

section \<open>Every delivery keeps the invariant\<close>

definition delivery :: "node_id set \<Rightarrow> network \<Rightarrow> node_id \<Rightarrow> event \<Rightarrow> election \<Rightarrow> outcome \<Rightarrow> bool" where
  "delivery V S n ev e' out \<longleftrightarrow>
     net_inv V S \<and> deliverable S n ev \<and> handle ev (nw_node S n) = (e', out) \<and> shares_voters V e'"

lemma delivery_facts:
  assumes "delivery V S n ev e' out"
  shows delivery_node: "el_node (nw_node S n) = n" "el_node e' = n"
    and delivery_grows: "el_term (nw_node S n) \<le> el_term e'"
    and delivery_changed: "role_change ev (nw_node S n) e' out"
    and delivery_nodes: "nodes_ok V (delivered S n ev e' out)"
    and delivery_vote_kept: "el_term e' = el_term (nw_node S n) \<Longrightarrow> el_vote (nw_node S n) = Some c \<Longrightarrow>
      el_vote e' = Some c"
proof -
  have handled: "handle ev (nw_node S n) = (e', out)" and ok: "nodes_ok V S" and del: "deliverable S n ev"
    and sh: "shares_voters V e'"
    using assms by (simp_all add: delivery_def net_inv_def)
  have wf: "term_store_wf (el_terms (nw_node S n))" using ok by (simp add: nodes_ok_def)
  have evolve: "terms_evolve (el_terms (nw_node S n)) (el_terms e')" using handled by (rule handle_evolve)
  show node: "el_node (nw_node S n) = n" using ok by (simp add: nodes_ok_def)
  then show "el_node e' = n" using handle_node [OF handled] by simp
  show "el_term (nw_node S n) \<le> el_term e'" using evolve wf by (rule terms_evolve_mono)
  show "role_change ev (nw_node S n) e' out" using handled del by (intro handle_role) auto
  show "nodes_ok V (delivered S n ev e' out)"
    using ok terms_evolve_wf [OF evolve wf] handle_node [OF handled] sh by (simp add: nodes_ok_def)
  show "el_term e' = el_term (nw_node S n) \<Longrightarrow> el_vote (nw_node S n) = Some c \<Longrightarrow> el_vote e' = Some c"
    using evolve wf by (rule terms_evolve_vote)
qed

lemma delivery_old_ballot:
  assumes d: "delivery V S n ev e' out" and old: "(n, t, c) \<in> nw_ballots S"
  shows "t \<le> el_term e' \<and> (t = el_term e' \<longrightarrow> el_vote e' = Some c)"
proof -
  have "t \<le> el_term (nw_node S n)" "t = el_term (nw_node S n) \<Longrightarrow> el_vote (nw_node S n) = Some c"
    using d old by (auto simp: delivery_def net_inv_def ballots_ok_def)
  then show ?thesis using delivery_grows [OF d] delivery_vote_kept [OF d] by auto
qed

lemma delivery_ballots:
  assumes d: "delivery V S n ev e' out"
  shows "ballots_ok (delivered S n ev e' out)"
proof -
  have bound: "t \<le> el_term (nw_node S v) \<and> (t = el_term (nw_node S v) \<longrightarrow> el_vote (nw_node S v) = Some c)"
      and single: "(v, t, d) \<in> nw_ballots S \<Longrightarrow> c = d"
    if "(v, t, c) \<in> nw_ballots S" for v t c d
    using d that by (auto simp: delivery_def net_inv_def ballots_ok_def)
  have current: "el_vote (nw_node S m) = Some c \<Longrightarrow> (m, el_term (nw_node S m), c) \<in> nw_ballots S" for m c
    using d by (simp add: delivery_def net_inv_def ballots_ok_def)
  show ?thesis
    unfolding ballots_ok_def
    using bound single current delivery_old_ballot [OF d] by (auto simp: delivery_simps)
qed

text \<open>A granted reply is backed by the voter's recorded vote.\<close>

lemma granted_reply_recorded:
  assumes "handle (VoteRequested f1 f2 req now mine) e = (e', Voted r)" and "vr_granted r"
  shows "vr_term r = vq_term req \<and> el_term e' = vq_term req \<and> el_vote e' = Some (vq_candidate req)"
proof -
  obtain e1 q where q: "on_vote_request f1 f2 req now mine e = (e1, q)" by fastforce
  with assms(1) have "e1 = e'" "q = Inr r" by (cases q; simp)+
  with on_vote_request_effect [OF q] assms(2) show ?thesis by simp
qed

lemma delivery_messages:
  assumes d: "delivery V S n ev e' out"
  shows "messages_ok (delivered S n ev e' out)"
proof -
  note ch = delivery_changed [OF d]
  have req: "t \<le> el_term (nw_node S m)" if "(t, m) \<in> nw_requests S" for t m
    using d that by (auto simp: delivery_def net_inv_def messages_ok_def)
  have rep: "(v, vr_term r, m) \<in> nw_ballots S \<and> (vr_term r, m) \<in> nw_requests S"
    if "(v, m, r) \<in> nw_replies S" "vr_granted r" for v m r
    using d that by (auto simp: delivery_def net_inv_def messages_ok_def)
  have new: "(n, vr_term r, vq_candidate q) \<in> recorded_votes n e' \<and> (vr_term r, vq_candidate q) \<in> nw_requests S"
    if "ev = VoteRequested f1 f2 q now mine" "out = Voted r" "vr_granted r" for f1 f2 q now mine r
    using granted_reply_recorded [of f1 f2 q now mine "nw_node S n" e' r] that d
    by (simp add: delivery_def recorded_votes_def)
  have "t \<le> el_term (((nw_node S)(n := e')) m)" if "(t, m) \<in> nw_requests S \<union> requests_of n out" for t m
    using that req [of t m] delivery_grows [OF d] ch by (auto simp: delivery_simps role_change_def)
  moreover have "(v, vr_term r, m) \<in> nw_ballots S \<union> recorded_votes n e' \<and> (vr_term r, m) \<in> nw_requests S"
    if "(v, m, r) \<in> nw_replies S \<union> replies_of n ev out" "vr_granted r" for v m r
    using that rep new by (auto simp: replies_of_iff)
  ultimately show ?thesis unfolding messages_ok_def delivered_sel by blast
qed

lemma delivery_reply:
  assumes d: "delivery V S n ev e' out" and "ev = VoteReplied f src r now" and "vr_granted r"
  shows "(src, vr_term r, n) \<in> nw_ballots S \<and> (vr_term r, n) \<in> nw_requests S"
  using assms by (auto simp: delivery_def net_inv_def messages_ok_def)

lemma delivery_candidate:
  assumes d: "delivery V S n ev e' out" and cand: "el_role (nw_node S n) = Candidate"
    and votes: "A \<subseteq> el_votes (nw_node S n) \<and> (el_term (nw_node S n), n) \<in> nw_requests S \<or>
      (\<exists>f src r now. ev = VoteReplied f src r now \<and> vr_granted r \<and> vr_term r = el_term (nw_node S n) \<and>
        A \<subseteq> insert src (el_votes (nw_node S n)))"
    and v: "v \<in> A"
  shows "(v, el_term (nw_node S n), n) \<in> nw_ballots S"
proof -
  have held: "(w, el_term (nw_node S n), n) \<in> nw_ballots S"
    if "(el_term (nw_node S n), n) \<in> nw_requests S" "w \<in> el_votes (nw_node S n)" for w
    using d cand that by (simp add: delivery_def net_inv_def roles_ok_def)
  from votes show ?thesis
  proof
    assume "A \<subseteq> el_votes (nw_node S n) \<and> (el_term (nw_node S n), n) \<in> nw_requests S"
    then show ?thesis using held v by blast
  next
    assume "\<exists>f src r now. ev = VoteReplied f src r now \<and> vr_granted r \<and>
      vr_term r = el_term (nw_node S n) \<and> A \<subseteq> insert src (el_votes (nw_node S n))"
    then obtain f src r now where "ev = VoteReplied f src r now" "vr_granted r"
      and t: "vr_term r = el_term (nw_node S n)" and A: "A \<subseteq> insert src (el_votes (nw_node S n))"
      by blast
    from delivery_reply [OF d this(1,2)] t held A v show ?thesis by auto
  qed
qed

lemma delivery_roles:
  assumes d: "delivery V S n ev e' out"
  shows "roles_ok (delivered S n ev e' out)"
proof -
  note ch = delivery_changed [OF d] and nd = delivery_node [OF d]
  have old: "roles_ok S" and msg: "messages_ok S" using d by (simp_all add: delivery_def net_inv_def)
  have cand: "(v, el_term e', n) \<in> nw_ballots S \<union> recorded_votes n e'"
    if c: "el_role e' = Candidate" and r: "(el_term e', n) \<in> nw_requests S \<union> requests_of n out"
      and v: "v \<in> el_votes e'" for v
  proof (cases "out = Acted (RequestVotes (el_term e'))")
    case True
    then show ?thesis using ch v nd by (auto simp: role_change_def recorded_votes_iff)
  next
    case False
    then have not_req: "(el_term e', n) \<notin> requests_of n out" by (auto simp: requests_of_iff)
    then have "el_term e' \<le> el_term (nw_node S n)" using r msg by (auto simp: messages_ok_def)
    then have same: "el_term e' = el_term (nw_node S n)" using delivery_grows [OF d] by simp
    then have "(v, el_term (nw_node S n), n) \<in> nw_ballots S"
      using ch c False r not_req v
      by (intro delivery_candidate [OF d, of "el_votes e'"]) (auto simp: role_change_def)
    then show ?thesis using same by simp
  qed
  have lead: "(el_term e', n) \<in> nw_elected S \<union> elected_of n out" if "el_role e' = Leader"
    using ch that old by (auto simp: role_change_def roles_ok_def elected_of_iff)
  show ?thesis
    unfolding roles_ok_def delivered_sel
  proof (intro conjI allI impI ballI)
    fix m v assume "el_role (((nw_node S)(n := e')) m) = Candidate"
      "(el_term (((nw_node S)(n := e')) m), m) \<in> nw_requests S \<union> requests_of n out"
      "v \<in> el_votes (((nw_node S)(n := e')) m)"
    then show "(v, el_term (((nw_node S)(n := e')) m), m) \<in> nw_ballots S \<union> recorded_votes n e'"
      using cand old by (cases "m = n") (auto simp: roles_ok_def requests_of_iff)
  next
    fix m assume "el_role (((nw_node S)(n := e')) m) = Leader"
    then show "(el_term (((nw_node S)(n := e')) m), m) \<in> nw_elected S \<union> elected_of n out"
      using lead old by (cases "m = n") (auto simp: roles_ok_def)
  qed
qed

lemma delivery_elected:
  assumes d: "delivery V S n ev e' out"
  shows "elected_ok V (delivered S n ev e' out)"
proof -
  note ch = delivery_changed [OF d] and nd = delivery_node [OF d]
  have new: "\<exists>Q. majority Q V \<and> (\<forall>v \<in> Q. (v, t, n) \<in> nw_ballots S \<union> recorded_votes n e')"
    if "out = Acted (BecameLeader t)" for t
  proof (intro exI conjI ballI)
    have t: "t = el_term e'" and w: "won ev (nw_node S n) e'"
      using ch that by (simp_all add: role_change_def)
    then show "majority (el_votes e') V"
      using d by (intro shared_quorum [of V e']) (simp_all add: delivery_def won_def)
    fix v assume v: "v \<in> el_votes e'"
    from w consider
        (stood) "el_votes e' = {n}" "el_vote e' = Some n"
      | (reply) "el_role (nw_node S n) = Candidate" "el_terms e' = el_terms (nw_node S n)"
          "\<exists>f src r now. ev = VoteReplied f src r now \<and> vr_granted r \<and>
            vr_term r = el_term (nw_node S n) \<and> el_votes e' \<subseteq> insert src (el_votes (nw_node S n))"
      using nd by (auto simp: won_def)
    then show "(v, t, n) \<in> nw_ballots S \<union> recorded_votes n e'"
    proof cases
      case stood
      then show ?thesis using v t by (simp add: recorded_votes_iff)
    next
      case reply
      then show ?thesis using delivery_candidate [OF d reply(1) _ v] t by auto
    qed
  qed
  show ?thesis
    unfolding elected_ok_def delivered_sel
  proof clarify
    fix t m assume "(t, m) \<in> nw_elected S \<union> elected_of n out"
    then consider "(t, m) \<in> nw_elected S" | "out = Acted (BecameLeader t)" "m = n"
      by (auto simp: elected_of_iff)
    then show "\<exists>Q. majority Q V \<and> (\<forall>v \<in> Q. (v, t, m) \<in> nw_ballots S \<union> recorded_votes n e')"
    proof cases
      case 1
      then show ?thesis using d unfolding delivery_def net_inv_def elected_ok_def by blast
    next
      case 2
      then show ?thesis using new by simp
    qed
  qed
qed

lemma net_step_inv: "net_step V S S' \<Longrightarrow> net_inv V S \<Longrightarrow> net_inv V S'"
proof (induction rule: net_step.induct)
  case (deliver S n ev e' out)
  then have d: "delivery V S n ev e' out" by (simp add: delivery_def)
  have "net_inv V (delivered S n ev e' out)"
    using delivery_nodes [OF d] delivery_ballots [OF d] delivery_messages [OF d] delivery_roles [OF d]
      delivery_elected [OF d]
    by (simp add: net_inv_def)
  then show ?case by (simp add: delivered_def)
qed

lemma net_reachable_inv: "net_reachable V S \<Longrightarrow> net_inv V S"
  by (induction rule: net_reachable.induct) (auto intro: net_init_inv net_step_inv)

lemma elected_unique:
  assumes inv: "net_inv V S" and a: "(t, a) \<in> nw_elected S" and b: "(t, b) \<in> nw_elected S"
  shows "a = b"
proof -
  obtain A where A: "majority A V" "\<forall>v \<in> A. (v, t, a) \<in> nw_ballots S"
    using inv a unfolding net_inv_def elected_ok_def by blast
  obtain B where B: "majority B V" "\<forall>v \<in> B. (v, t, b) \<in> nw_ballots S"
    using inv b unfolding net_inv_def elected_ok_def by blast
  obtain v where "v \<in> A" "v \<in> B" using voter_majority.quorum_intersect [OF A(1) B(1)] by blast
  then show ?thesis using A B inv unfolding net_inv_def ballots_ok_def by blast
qed

section \<open>Election safety\<close>

text \<open>
  (C1) At most one node ever becomes leader of a term, and so two nodes that both lead are in
  different terms: over any interleaving of timeouts, lost, delayed, reordered and repeated
  messages, failed term writes, operator step-downs, restarts and voter reconfigurations, as long
  as the configurations in use share a voter set.
\<close>

theorem at_most_one_leader_per_term:
  assumes "net_reachable V S"
  shows "(\<forall>t a b. (t, a) \<in> nw_elected S \<and> (t, b) \<in> nw_elected S \<longrightarrow> a = b) \<and>
    (\<forall>a b. el_role (nw_node S a) = Leader \<and> el_role (nw_node S b) = Leader \<and>
      el_term (nw_node S a) = el_term (nw_node S b) \<longrightarrow> a = b)"
proof -
  have inv: "net_inv V S" using assms by (rule net_reachable_inv)
  have led: "(el_term (nw_node S n), n) \<in> nw_elected S" if "el_role (nw_node S n) = Leader" for n
    using inv that by (simp add: net_inv_def roles_ok_def)
  have "a = b" if "el_role (nw_node S a) = Leader" "el_role (nw_node S b) = Leader"
    "el_term (nw_node S a) = el_term (nw_node S b)" for a b
    using elected_unique [OF inv led [OF that(1)]] led [OF that(2)] that(3) by simp
  with elected_unique [OF inv] show ?thesis by blast
qed

lemma net_reachable_deliver:
  "net_reachable V S \<Longrightarrow> deliverable S n ev \<Longrightarrow> handle ev (nw_node S n) = (e', out) \<Longrightarrow>
    shares_voters V e' \<Longrightarrow> net_reachable V (delivered S n ev e' out)"
  unfolding delivered_def by (blast intro: net_reachable.step net_step.deliver)

theorem at_most_one_leader_per_term_witness:
  "\<exists>S. net_reachable {1, 2, 3} S \<and> el_role (nw_node S 1) = Leader \<and> (1, 1) \<in> nw_elected S \<and>
    (1, 2) \<notin> nw_elected S"
proof -
  let ?ts = "\<lambda>t v. \<lparr>tst_mem = \<lparr>ts_term = t, ts_voted_for = v\<rparr>,
    tst_disk = \<lparr>td_file = Some (term_body \<lparr>ts_term = t, ts_voted_for = v\<rparr>), td_tmp = None\<rparr>\<rparr> :: term_store"
  let ?e = "\<lambda>n. \<lparr>el_cfg = \<lparr>ec_node = n, ec_peers = [1, 2, 3], ec_election_timeout = 1,
      ec_heartbeat_interval = 0\<rparr>,
    el_terms = \<lparr>tst_mem = term_default, tst_disk = \<lparr>td_file = None, td_tmp = None\<rparr>\<rparr>,
    el_role = Follower, el_leader = None, el_last_contact = 0, el_last_heartbeat = 0,
    el_votes = {}, el_acks = {}, el_lease_start = 0, el_stepdown_backoff = None,
    el_current_voters = {1, 2, 3}, el_next_voters = None\<rparr> :: election"
  let ?S0 = "\<lparr>nw_node = ?e, nw_requests = {}, nw_replies = {}, nw_ballots = {}, nw_elected = {}\<rparr> :: network"
  let ?e1 = "(?e 1)\<lparr>el_terms := ?ts 1 (Some 1), el_role := Candidate, el_last_contact := 5, el_votes := {1}\<rparr>"
  let ?e2 = "(?e 2)\<lparr>el_terms := ?ts 1 (Some 1), el_last_contact := 5\<rparr>"
  let ?req = "\<lparr>vq_term = 1, vq_candidate = 1, vq_durability = durability_new 0\<rparr> :: vote_request"
  let ?rep = "\<lparr>vr_term = 1, vr_granted = True, vr_reason = []\<rparr> :: vote_reply"
  let ?w = "?e1\<lparr>el_votes := {2, 1}, el_role := Leader, el_leader := Some 1, el_lease_start := 6,
    el_last_contact := 6, el_last_heartbeat := 6\<rparr>"
  let ?ev1 = "Tick NoFault NoFault 5" and ?ev2 = "VoteRequested NoFault NoFault ?req 5 (durability_new 0)"
    and ?ev3 = "VoteReplied NoFault 2 ?rep 6"
  let ?S1 = "delivered ?S0 1 ?ev1 ?e1 (Acted (RequestVotes 1))"
  let ?S2 = "delivered ?S1 2 ?ev2 ?e2 (Voted ?rep)"
  let ?S3 = "delivered ?S2 1 ?ev3 ?w (Acted (BecameLeader 1))"
  have s0: "net_reachable {1, 2, 3} ?S0"
    by (rule net_reachable.initial)
      (simp add: net_init_def term_store_wf_def shares_voters_def recorded_votes_def term_default_def)
  have "handle ?ev1 (?e 1) = (?e1, Acted (RequestVotes 1))"
    by (simp add: tick_def timeout_def duration_since_def stand_for_election_def advance_to_def
        grant_vote_def term_commit_def term_persist_def term_default_def has_quorum_def majority_def)
  then have s1: "net_reachable {1, 2, 3} ?S1"
    by (intro net_reachable_deliver [OF s0]) (simp_all add: shares_voters_def term_default_def del: handle.simps)
  have "handle ?ev2 (?e 2) = (?e2, Voted ?rep)"
    by (simp add: on_vote_request_def observe_term_def decide_vote_def advance_to_def grant_vote_def
        term_commit_def term_persist_def term_default_def is_configured_voter_def compare_to_def
        durability_new_def bt_values_def)
  then have s2: "net_reachable {1, 2, 3} ?S2"
    by (intro net_reachable_deliver [OF s1]) (simp_all add: shares_voters_def del: handle.simps)
  have "handle ?ev3 ?e1 = (?w, Acted (BecameLeader 1))"
    by (simp add: on_vote_reply_def is_configured_voter_def become_leader_def has_quorum_def majority_def)
  then have s3: "net_reachable {1, 2, 3} ?S3"
    by (intro net_reachable_deliver [OF s2]) (simp_all add: shares_voters_def del: handle.simps)
  have won: "(1, 1) \<in> nw_elected ?S3" by simp
  have "(1 :: node_id) \<noteq> 2" by simp
  then have "(1, 2) \<notin> nw_elected ?S3"
    using at_most_one_leader_per_term [OF s3, THEN conjunct1, rule_format, of 1 1 2] won by blast
  moreover have "el_role (nw_node ?S3 1) = Leader" by simp
  ultimately show ?thesis using s3 won by blast
qed

end
