(* ===== verification/Fence.thy ===== *)
theory Fence
  imports BTree
begin

text \<open>
  The write gate of \<^verbatim>\<open>src/src/cluster/fence.rs\<close>. Every operation that changes the open gates holds
  the gate mutex throughout, so it is one step of the model. The only write outside the mutex is
  the \<^verbatim>\<open>fetch_max\<close> of \<^verbatim>\<open>validate\<close>, which only raises the bar and so has the same effect after
  an operation it interleaves with. The lemmas are about every sequence of these steps, which is
  what threads can produce.
\<close>

record fence_token =
  ft_term :: epoch_term
  ft_node :: node_id

record fence =
  fe_node :: node_id
  fe_highest :: epoch_term
  fe_rejected :: u64
  fe_gated :: u64
  fe_stale_opens :: u64
  fe_led :: "(shard_id, epoch_term) btree"

definition fence_new :: "node_id \<Rightarrow> epoch_term \<Rightarrow> fence" where
  "fence_new node term =
     \<lparr>fe_node = node, fe_highest = term, fe_rejected = 0, fe_gated = 0, fe_stale_opens = 0, fe_led = []\<rparr>"

definition fence_validate :: "fence_token \<Rightarrow> fence \<Rightarrow> fence \<times> unit result" where
  "fence_validate token f =
     (let previous = fe_highest f; f = f\<lparr>fe_highest := max previous (ft_term token)\<rparr> in
      if ft_term token < previous
      then (f\<lparr>fe_rejected := fe_rejected f + 1\<rparr>, Inl (Fenced (ft_term token) (ft_node token) previous))
      else (f, Inr ()))"

definition fence_open_for :: "shard_id list \<Rightarrow> epoch_term \<Rightarrow> fence \<Rightarrow> fence" where
  "fence_open_for shards term f =
     (let previous = fe_highest f; f = f\<lparr>fe_highest := max previous term\<rparr> in
      if term < previous then f\<lparr>fe_stale_opens := fe_stale_opens f + 1\<rparr>
      else f\<lparr>fe_led := foldl (\<lambda>m s. bt_insert s term m) [] shards\<rparr>)"

definition fence_step_down :: "epoch_term \<Rightarrow> fence \<Rightarrow> fence" where
  "fence_step_down term f = f\<lparr>fe_highest := max (fe_highest f) term, fe_led := []\<rparr>"

definition fence_close :: "fence \<Rightarrow> fence" where
  "fence_close f = f\<lparr>fe_led := []\<rparr>"

definition fence_close_shard :: "shard_id \<Rightarrow> fence \<Rightarrow> fence \<times> bool" where
  "fence_close_shard shard f =
     (f\<lparr>fe_led := bt_remove shard (fe_led f)\<rparr>, bt_mem (fe_led f) shard)"

definition fence_is_open :: "fence \<Rightarrow> shard_id \<Rightarrow> bool" where
  "fence_is_open f shard \<longleftrightarrow> bt_mem (fe_led f) shard"

definition fence_leads_anything :: "fence \<Rightarrow> bool" where
  "fence_leads_anything f \<longleftrightarrow> fe_led f \<noteq> []"

definition fence_led_shards :: "fence \<Rightarrow> shard_id list" where
  "fence_led_shards f = bt_keys (fe_led f)"

definition fence_open_term :: "fence \<Rightarrow> shard_id \<Rightarrow> epoch_term option" where
  "fence_open_term f shard = bt_get (fe_led f) shard"

definition fence_check_may_write :: "shard_id \<Rightarrow> fence \<Rightarrow> fence \<times> fence_token result" where
  "fence_check_may_write shard f =
     (case fence_open_term f shard of
        Some term \<Rightarrow> (f, Inr \<lparr>ft_term = term, ft_node = fe_node f\<rparr>)
      | None \<Rightarrow> (f\<lparr>fe_gated := fe_gated f + 1\<rparr>, Inl (NotLeader (fe_highest f))))"

section \<open>Sequences of operations\<close>

datatype fence_op =
    Validate fence_token
  | OpenFor "shard_id list" epoch_term
  | StepDown epoch_term
  | Close
  | CloseShard shard_id
  | CheckMayWrite shard_id

fun fence_step :: "fence \<Rightarrow> fence_op \<Rightarrow> fence" where
  "fence_step f (Validate token) = fst (fence_validate token f)"
| "fence_step f (OpenFor shards term) = fence_open_for shards term f"
| "fence_step f (StepDown term) = fence_step_down term f"
| "fence_step f Close = fence_close f"
| "fence_step f (CloseShard shard) = fst (fence_close_shard shard f)"
| "fence_step f (CheckMayWrite shard) = fst (fence_check_may_write shard f)"

lemma fence_highest_mono: "fe_highest f \<le> fe_highest (fence_step f op)"
  by (cases op) (auto simp: fence_validate_def fence_open_for_def fence_step_down_def fence_close_def
      fence_close_shard_def fence_check_may_write_def Let_def split: option.split)

lemma fence_highest_mono_run: "fe_highest f \<le> fe_highest (foldl fence_step f ops)"
  by (induction ops arbitrary: f) (auto intro: order_trans [OF fence_highest_mono])

text \<open>
  Every open gate was opened in a term no older than the bar \<open>t\<close>, and no newer than the highest
  term seen.
\<close>

definition gates_within :: "epoch_term \<Rightarrow> fence \<Rightarrow> bool" where
  "gates_within t f \<longleftrightarrow>
     t \<le> fe_highest f \<and> bt_wf (fe_led f) \<and>
     (\<forall>s u. fence_open_term f s = Some u \<longrightarrow> t \<le> u \<and> u \<le> fe_highest f)"

lemma gates_within_step: "gates_within t f \<Longrightarrow> gates_within t (fence_step f op)"
proof (cases op)
  case (OpenFor shards t')
  assume "gates_within t f"
  with OpenFor show ?thesis
    by (auto simp: gates_within_def fence_open_for_def fence_open_term_def Let_def bt_get_fill bt_wf_fill
        max_def split: if_splits)
qed (auto simp: gates_within_def fence_validate_def fence_step_down_def fence_close_def
      fence_close_shard_def fence_check_may_write_def fence_open_term_def Let_def max_def
      split: option.splits if_splits dest: order_trans)

lemma gates_within_run: "gates_within t f \<Longrightarrow> gates_within t (foldl fence_step f ops)"
  by (induction ops arbitrary: f) (auto intro: gates_within_step)

text \<open>
  (C18) A step-down is final for its term: whatever placements, validations and gate changes other
  threads apply afterwards, in any order, a shard this node is then allowed to write was opened in
  that term or a later one, so a placement left over from a deposed leadership never reopens a gate.
\<close>

theorem step_down_shuts_out_stale_placements:
  assumes "snd (fence_check_may_write shard (foldl fence_step (fence_step_down t f) ops)) = Inr token"
  shows "t \<le> ft_term token \<and> ft_term token \<le> fe_highest (foldl fence_step (fence_step_down t f) ops)"
proof -
  have "gates_within t (fence_step_down t f)"
    by (simp add: gates_within_def fence_step_down_def fence_open_term_def)
  from gates_within_run [OF this] show ?thesis
    using assms by (auto simp: gates_within_def fence_check_may_write_def split: option.splits)
qed

theorem step_down_shuts_out_stale_placements_witness:
  "snd (fence_check_may_write 7 (foldl fence_step (fence_step_down 5 (fence_new 1 3))
     [OpenFor [7] 4, OpenFor [7, 8] 6])) = Inr \<lparr>ft_term = 6, ft_node = 1\<rparr> \<and>
   5 \<le> (6 :: epoch_term)"
proof -
  let ?f = "foldl fence_step (fence_step_down 5 (fence_new 1 3)) [OpenFor [7] 4, OpenFor [7, 8] 6]"
  have "snd (fence_check_may_write 7 ?f) = Inr \<lparr>ft_term = 6, ft_node = 1\<rparr>"
    by (simp add: fence_step_down_def fence_new_def fence_open_for_def fence_check_may_write_def
        fence_open_term_def bt_get_def)
  from this step_down_shuts_out_stale_placements [OF this] show ?thesis by simp
qed

text \<open>
  Messages are accepted in term order: once a replication message of some term has been
  accepted, no message of an older term is accepted later, whatever happens in between.
\<close>

theorem accepted_messages_never_go_back:
  assumes "snd (fence_validate first f) = Inr ()"
    and "snd (fence_validate later (foldl fence_step (fst (fence_validate first f)) ops)) = Inr ()"
  shows "ft_term first \<le> ft_term later"
proof -
  let ?g = "fst (fence_validate first f)"
  have "ft_term first \<le> fe_highest ?g" by (auto simp: fence_validate_def Let_def)
  also have "\<dots> \<le> fe_highest (foldl fence_step ?g ops)" by (rule fence_highest_mono_run)
  also have "\<dots> \<le> ft_term later"
    using assms(2) by (auto simp: fence_validate_def Let_def split: if_splits)
  finally show ?thesis .
qed

theorem accepted_messages_never_go_back_witness:
  "snd (fence_validate \<lparr>ft_term = 4, ft_node = 1\<rparr> (fence_new 9 2)) = Inr () \<and>
   snd (fence_validate \<lparr>ft_term = 3, ft_node = 2\<rparr>
     (foldl fence_step (fst (fence_validate \<lparr>ft_term = 4, ft_node = 1\<rparr> (fence_new 9 2))) [Close])) \<noteq> Inr ()"
proof -
  have "snd (fence_validate \<lparr>ft_term = 4, ft_node = 1\<rparr> (fence_new 9 2)) = Inr ()"
    by (simp add: fence_validate_def fence_new_def)
  with accepted_messages_never_go_back [OF this, of "\<lparr>ft_term = 3, ft_node = 2\<rparr>" "[Close]"]
  show ?thesis by auto
qed

text \<open>An accepted placement opens exactly the gates it names.\<close>

lemma fence_open_for_exact:
  "fe_highest f \<le> t \<Longrightarrow>
    fence_open_term (fence_open_for shards t f) s = (if s \<in> set shards then Some t else None)"
  by (auto simp: fence_open_for_def fence_open_term_def Let_def bt_get_fill)

lemma fence_led_shards_iff: "s \<in> set (fence_led_shards f) \<longleftrightarrow> fence_is_open f s"
  by (simp add: fence_led_shards_def fence_is_open_def bt_keys_def bt_mem_iff)

end
