(* ===== verification/Catalog.thy ===== *)
theory Catalog
  imports Routing BTree Text_Format Durability
begin

text \<open>
  The cluster catalog of \<^verbatim>\<open>src/src/cluster/catalog.rs\<close>: its data and every operation on it, in the
  order of the source. An operation of the source mutates the catalog in place and every caller
  runs it on a clone that is thrown away on an error, so an operation of the model returns the new
  catalog or the error. The SQLite version and page size come from the linked library and are
  arguments of the definition that reads them.
\<close>

section \<open>Data\<close>

type_synonym cluster_id = "128 word"

definition CATALOG_FORMAT_VERSION :: u32 where
  "CATALOG_FORMAT_VERSION = 2"

definition MAX_SHARDS :: u32 where
  "MAX_SHARDS = 256"

record compatibility =
  cy_directory_format :: u32
  cy_sqlite_version :: string
  cy_page_size :: u32
  cy_routing_scheme :: string
  cy_hash_scheme :: string

definition compatibility_current :: "u32 \<Rightarrow> string \<Rightarrow> u32 \<Rightarrow> routing \<Rightarrow> compatibility" where
  "compatibility_current format_version sqlite_version page_size r =
     \<lparr>cy_directory_format = format_version, cy_sqlite_version = sqlite_version,
      cy_page_size = page_size,
      cy_routing_scheme = (case r of ModuloV1 _ \<Rightarrow> ''modulo-v1'' | LinearV1 _ \<Rightarrow> ''linear-v1''),
      cy_hash_scheme = ''fnv1a-v1''\<rparr>"

definition compatibility_check :: "compatibility \<Rightarrow> compatibility \<Rightarrow> unit result" where
  "compatibility_check self candidate =
     (if cy_directory_format self \<noteq> cy_directory_format candidate \<or>
         cy_sqlite_version self \<noteq> cy_sqlite_version candidate \<or>
         cy_page_size self \<noteq> cy_page_size candidate \<or>
         cy_routing_scheme self \<noteq> cy_routing_scheme candidate \<or>
         cy_hash_scheme self \<noteq> cy_hash_scheme candidate
      then Inl (ClusterConfig ''joining node has incompatible'') else Inr ())"

datatype member_role = Learner | Storage | Voter

datatype member_state = Active | Cordoned | Draining

record member =
  mb_node :: node_id
  mb_incarnation :: u64
  mb_address :: string
  mb_role :: member_role
  mb_state :: member_state
  mb_capacity_weight :: u32
  mb_failure_domain :: "string option"

definition may_receive_placement :: "member \<Rightarrow> bool" where
  "may_receive_placement m \<longleftrightarrow> mb_role m \<noteq> Learner \<and> mb_state m = Active"

record scaling_policy =
  sp_split_log_max_rows :: u64
  sp_split_backfill_batch_rows :: u32
  sp_max_split_source_bytes :: u64
  sp_max_transfer_source_bytes :: u64
  sp_max_concurrent_topology_operations :: u32

definition scaling_policy_default :: scaling_policy where
  "scaling_policy_default =
     \<lparr>sp_split_log_max_rows = 100000, sp_split_backfill_batch_rows = 2048,
      sp_max_split_source_bytes = 0, sp_max_transfer_source_bytes = 0,
      sp_max_concurrent_topology_operations = 1\<rparr>"

definition scaling_policy_validate :: "scaling_policy \<Rightarrow> unit result" where
  "scaling_policy_validate p =
     (if sp_split_log_max_rows p = 0
      then Inl (ClusterConfig ''split_log_max_rows must be at least one'')
      else if sp_split_backfill_batch_rows p = 0
      then Inl (ClusterConfig ''split_backfill_batch_rows must be at least one'')
      else if sp_max_concurrent_topology_operations p \<noteq> 1
      then Inl (ClusterConfig ''max_concurrent_topology_operations must remain 1 in this release'')
      else Inr ())"

record replica_set =
  rs_generation :: u64
  rs_primary :: node_id
  rs_replicas :: "node_id list"

record voter_transition =
  vt_old :: "node_id set"
  vt_new :: "node_id set"

datatype operation_kind = Join | Transfer | Split | Drain | Remove

datatype operation_phase =
    Planned | Snapshotting | CatchingUp | Prepared | Fencing | Installing
  | Committed | Cleaning | Complete | Aborted

definition phase_terminal :: "operation_phase \<Rightarrow> bool" where
  "phase_terminal p \<longleftrightarrow> p = Complete \<or> p = Aborted"

definition phase_may_abort :: "operation_phase \<Rightarrow> bool" where
  "phase_may_abort p \<longleftrightarrow> p = Planned \<or> p = Snapshotting \<or> p = CatchingUp \<or> p = Prepared"

record catalog_operation =
  op_id :: u64
  op_kind :: operation_kind
  op_phase :: operation_phase
  op_shard :: "shard_id option"
  op_source :: "node_id option"
  op_destination :: "node_id option"
  op_expected_generation :: "u64 option"
  op_stream_epoch :: "u64 option"
  op_snapshot_lsn :: "u64 option"
  op_durable_lsn :: "u64 option"
  op_final_lsn :: "u64 option"
  op_catalog_version :: "u64 option"
  op_routing_before :: "routing option"
  op_routing_after :: "routing option"
  op_retain_source_replica :: bool
  op_split_required_nodes :: "node_id set"
  op_split_installed_nodes :: "node_id set"
  op_split_cleaned_nodes :: "node_id set"
  op_created_version :: u64
  op_last_error :: "string option"

record catalog =
  ca_format_version :: u32
  ca_cluster_id :: cluster_id
  ca_version :: u64
  ca_routing_epoch :: u64
  ca_compatibility :: compatibility
  ca_routing :: routing
  ca_scaling_policy :: scaling_policy
  ca_members :: "(node_id, member) btree"
  ca_voter_transition :: "voter_transition option"
  ca_placements :: "(shard_id, replica_set) btree"
  ca_operations :: "(u64, catalog_operation) btree"
  ca_next_operation_id :: u64

record catalog_proposal =
  pr_term :: u64
  pr_expected_version :: u64
  pr_catalog :: catalog

definition fresh_member :: "node_id \<Rightarrow> u64 \<Rightarrow> string \<Rightarrow> member_role \<Rightarrow> member" where
  "fresh_member node incarnation address role =
     \<lparr>mb_node = node, mb_incarnation = incarnation, mb_address = address, mb_role = role,
      mb_state = Active, mb_capacity_weight = 1, mb_failure_domain = None\<rparr>"

end
