(* ===== verification/Catalog_Validate.thy ===== *)
theory Catalog_Validate
  imports Catalog
begin

text \<open>
  \<^verbatim>\<open>Catalog::validate\<close>, the check every catalog value passes before it is persisted or accepted
  from a peer. It is one definition per block of the source, run in the source's order; the lemmas
  turn a successful validation into the facts it establishes.
\<close>

section \<open>The checks\<close>

definition validate_member :: "member \<Rightarrow> unit result" where
  "validate_member m =
     (if mb_capacity_weight m = 0
      then Inl (ClusterConfig ''member has zero placement capacity weight'')
      else if (case mb_failure_domain m of Some d \<Rightarrow> trim d = [] | None \<Rightarrow> False)
      then Inl (ClusterConfig ''member has an empty failure domain'')
      else Inr ())"

definition validate_joint_voter :: "catalog \<Rightarrow> node_id \<Rightarrow> unit result" where
  "validate_joint_voter c node =
     and_then (ok_or (bt_get (ca_members c) node)
                 (ClusterConfig ''joint voter configuration names missing node''))
       (\<lambda>m. if mb_role m = Learner then Inl (ClusterConfig ''joint voter configuration names learner node'')
            else Inr ())"

definition validate_voter_transition :: "catalog \<Rightarrow> unit result" where
  "validate_voter_transition c =
     (case ca_voter_transition c of
        None \<Rightarrow> Inr ()
      | Some t \<Rightarrow>
          if vt_old t = {} \<or> vt_new t = {}
          then Inl (ClusterConfig ''joint voter configurations cannot be empty'')
          else check_all (validate_joint_voter c) (sorted_list_of_set (vt_old t \<union> vt_new t)))"

definition validate_replica :: "catalog \<Rightarrow> replica_set \<Rightarrow> node_id \<Rightarrow> unit result" where
  "validate_replica c p replica =
     (if replica = rs_primary p then Inl (ClusterConfig ''lists primary as its own replica'')
      else if \<not> bt_mem (ca_members c) replica then Inl (ClusterConfig ''names missing replica node'')
      else Inr ())"

definition validate_placement :: "catalog \<Rightarrow> shard_id \<times> replica_set \<Rightarrow> unit result" where
  "validate_placement c e =
     (if routing_shard_count (ca_routing c) \<le> fst e
      then Inl (ClusterConfig ''placement contains inactive'')
      else and_then (ok_or (bt_get (ca_members c) (rs_primary (snd e)))
                       (ClusterConfig ''names missing primary node''))
        (\<lambda>primary. if mb_role primary = Learner then Inl (ClusterConfig ''names learner node as primary'')
                   else check_all (validate_replica c (snd e)) (rs_replicas (snd e))))"

definition validate_transfer :: "catalog \<Rightarrow> catalog_operation \<Rightarrow> unit result" where
  "validate_transfer c op =
     and_then (ok_or (op_shard op) (ClusterConfig ''transfer operation has no shard'')) (\<lambda>shard.
     and_then (ok_or (op_source op) (ClusterConfig ''transfer operation has no source'')) (\<lambda>source.
     and_then (ok_or (op_destination op) (ClusterConfig ''transfer operation has no destination'')) (\<lambda>destination.
       if source = destination
       then Inl (ClusterConfig ''transfer operation has the same source and destination'')
       else if routing_shard_count (ca_routing c) \<le> shard \<or> \<not> bt_mem (ca_members c) source \<or>
               \<not> bt_mem (ca_members c) destination \<or> op_expected_generation op = None
       then Inl (ClusterConfig ''transfer operation references invalid topology state'')
       else Inr ())))"

definition split_committed :: "catalog_operation \<Rightarrow> bool" where
  "split_committed op \<longleftrightarrow> op_phase op = Committed \<or> op_phase op = Cleaning \<or> op_phase op = Complete"

definition validate_split_phase :: "catalog \<Rightarrow> linear_v1 \<Rightarrow> linear_v1 \<Rightarrow> catalog_operation \<Rightarrow> unit result" where
  "validate_split_phase c before after op =
     (if split_committed op \<and> ca_routing c \<noteq> LinearV1 after
      then Inl (ClusterConfig ''committed split operation does not match catalog routing'')
      else if split_committed op \<and> \<not> op_split_required_nodes op \<subseteq> op_split_installed_nodes op
      then Inl (ClusterConfig ''committed split operation is missing install acknowledgements'')
      else if op_phase op = Complete \<and> \<not> op_split_required_nodes op \<subseteq> op_split_cleaned_nodes op
      then Inl (ClusterConfig ''complete split operation is missing cleanup acknowledgements'')
      else if \<not> split_committed op \<and> op_phase op \<noteq> Aborted \<and> ca_routing c \<noteq> LinearV1 before
      then Inl (ClusterConfig ''uncommitted split operation does not match catalog routing'')
      else Inr ())"

text \<open>The disjunction short-circuits at \<^verbatim>\<open>before.grown()?\<close>, whose error is returned as it is.\<close>

definition validate_split :: "catalog \<Rightarrow> catalog_operation \<Rightarrow> unit result" where
  "validate_split c op =
     and_then (ok_or (op_shard op) (ClusterConfig ''split operation has no source shard'')) (\<lambda>source.
     and_then (ok_or (op_source op) (ClusterConfig ''split operation has no source owner'')) (\<lambda>owner.
       case (op_routing_before op, op_routing_after op) of
         (Some (LinearV1 before), Some (LinearV1 after)) \<Rightarrow>
           let invalid = Inl (ClusterConfig ''split operation references invalid topology state'') in
           if split_source before \<noteq> source then invalid
           else and_then (grown before) (\<lambda>next_routing.
             if next_routing \<noteq> after \<or> op_destination op \<noteq> Some owner \<or>
                op_expected_generation op = None \<or> \<not> bt_mem (ca_members c) owner \<or>
                owner \<notin> op_split_required_nodes op \<or> op_split_required_nodes op = {} \<or>
                \<not> op_split_installed_nodes op \<subseteq> op_split_required_nodes op \<or>
                \<not> op_split_cleaned_nodes op \<subseteq> op_split_required_nodes op
             then invalid
             else and_then
               (check_all (\<lambda>node. if bt_mem (ca_members c) node then Inr ()
                                  else Inl (ClusterConfig ''split operation requires missing node''))
                  (sorted_list_of_set (op_split_required_nodes op)))
               (\<lambda>_. validate_split_phase c before after op))
       | _ \<Rightarrow> Inl (ClusterConfig ''split operation does not carry linear before/after routing'')))"

definition validate_join_operation :: "catalog \<Rightarrow> catalog_operation \<Rightarrow> unit result" where
  "validate_join_operation c op =
     and_then (ok_or (op_destination op) (ClusterConfig ''join operation has no destination''))
       (\<lambda>d. if bt_mem (ca_members c) d then Inr () else Inl (ClusterConfig ''join operation names missing node''))"

definition validate_drain :: "catalog \<Rightarrow> catalog_operation \<Rightarrow> unit result" where
  "validate_drain c op =
     and_then (ok_or (op_source op) (ClusterConfig ''drain operation has no source''))
       (\<lambda>s. if bt_mem (ca_members c) s then Inr () else Inl (ClusterConfig ''drain operation names missing node''))"

definition validate_by_kind :: "catalog \<Rightarrow> catalog_operation \<Rightarrow> unit result" where
  "validate_by_kind c op =
     (case op_kind op of
        Transfer \<Rightarrow> validate_transfer c op
      | Split \<Rightarrow> validate_split c op
      | Join \<Rightarrow> validate_join_operation c op
      | Drain \<Rightarrow> validate_drain c op
      | Remove \<Rightarrow> Inr ())"

text \<open>The loop over the operations, with the shards that already have an active one.\<close>

fun validate_operations :: "catalog \<Rightarrow> shard_id set \<Rightarrow> (u64 \<times> catalog_operation) list \<Rightarrow> unit result" where
  "validate_operations c active [] = Inr ()"
| "validate_operations c active ((key, op) # rest) =
     (if op_id op = 0 \<or> op_id op \<noteq> key
      then Inl (ClusterConfig ''catalog operation id is zero or does not match its map key'')
      else
        case op_shard op of
          Some shard \<Rightarrow>
            if phase_terminal (op_phase op)
            then and_then (validate_by_kind c op) (\<lambda>_. validate_operations c active rest)
            else if shard \<in> active
            then Inl (ClusterConfig ''has more than one active topology operation'')
            else and_then (validate_by_kind c op) (\<lambda>_. validate_operations c (insert shard active) rest)
        | None \<Rightarrow> and_then (validate_by_kind c op) (\<lambda>_. validate_operations c active rest))"

definition catalog_validate :: "catalog \<Rightarrow> unit result" where
  "catalog_validate c =
     (if ca_format_version c \<noteq> CATALOG_FORMAT_VERSION then Inl (ClusterConfig ''catalog format is unsupported'')
      else if routing_shard_count (ca_routing c) = 0
      then Inl (ClusterConfig ''catalog routing has no active shards'')
      else
        and_then (scaling_policy_validate (ca_scaling_policy c)) (\<lambda>_.
        and_then (check_all validate_member (bt_values (ca_members c))) (\<lambda>_.
        if \<not> list_ex (\<lambda>m. mb_role m = Voter) (bt_values (ca_members c))
        then Inl (ClusterConfig ''catalog must contain at least one voter'')
        else
          and_then (validate_voter_transition c) (\<lambda>_.
          and_then (check_all (validate_placement c) (ca_placements c)) (\<lambda>_.
            validate_operations c {} (ca_operations c))))))"

end
