(* ===== verification/Catalog_Membership.thy ===== *)
theory Catalog_Membership
  imports Catalog_Validate Placement
begin

text \<open>
  Bootstrap, membership, the joint change of the voter set and the first placement map of
  \<^verbatim>\<open>src/src/cluster/catalog.rs\<close>.
\<close>

section \<open>Members\<close>

definition catalog_bootstrap ::
    "u32 \<Rightarrow> string \<Rightarrow> u32 \<Rightarrow> cluster_id \<Rightarrow> node_id \<Rightarrow> string \<Rightarrow> routing \<Rightarrow> compatibility \<Rightarrow> catalog result" where
  "catalog_bootstrap format_version sqlite_version page_size cid first_node address r required =
     and_then (compatibility_check required (compatibility_current format_version sqlite_version page_size r)) (\<lambda>_.
     let c = \<lparr>ca_format_version = CATALOG_FORMAT_VERSION, ca_cluster_id = cid, ca_version = 1,
              ca_routing_epoch = 1, ca_compatibility = required, ca_routing = r,
              ca_scaling_policy = scaling_policy_default,
              ca_members = bt_insert first_node (fresh_member first_node 1 address Voter) [],
              ca_voter_transition = None, ca_placements = [], ca_operations = [],
              ca_next_operation_id = 1\<rparr>
     in and_then (catalog_validate c) (\<lambda>_. Inr c))"

definition validate_join :: "catalog \<Rightarrow> cluster_id option \<Rightarrow> compatibility \<Rightarrow> unit result" where
  "validate_join c local_cluster required =
     (if (case local_cluster of Some l \<Rightarrow> l \<noteq> ca_cluster_id c | None \<Rightarrow> False)
      then Inl (ClusterConfig ''data directory belongs to cluster'')
      else compatibility_check (ca_compatibility c) required)"

definition add_learner :: "node_id \<Rightarrow> u64 \<Rightarrow> string \<Rightarrow> catalog \<Rightarrow> catalog result" where
  "add_learner node incarnation address c =
     (if trim address = [] then Inl (ClusterConfig ''joining node must advertise a non-empty address'')
      else
        case bt_get (ca_members c) node of
          Some existing \<Rightarrow>
            if mb_incarnation existing = incarnation \<and> mb_address existing = address then Inr c
            else Inl (ClusterConfig ''node is already registered'')
        | None \<Rightarrow>
            Inr (c\<lparr>ca_members := bt_insert node (fresh_member node incarnation address Learner) (ca_members c)\<rparr>))"

text \<open>\<^verbatim>\<open>members.get_mut(node)\<close> with the error every member operation returns.\<close>

definition with_member :: "node_id \<Rightarrow> (member \<Rightarrow> member) \<Rightarrow> catalog \<Rightarrow> catalog result" where
  "with_member node f c =
     and_then (ok_or (bt_get (ca_members c) node) (ClusterConfig ''node is not a member''))
       (\<lambda>_. Inr (c\<lparr>ca_members := bt_adjust node f (ca_members c)\<rparr>))"

definition promote :: "node_id \<Rightarrow> member_role \<Rightarrow> catalog \<Rightarrow> catalog result" where
  "promote node role c =
     and_then (ok_or (bt_get (ca_members c) node) (ClusterConfig ''node is not a member'')) (\<lambda>_.
       if role = Learner then Inl (ClusterConfig ''promotion target must be storage or voter'')
       else with_member node (mb_role_update (\<lambda>_. role)) c)"

definition set_member_state :: "node_id \<Rightarrow> member_state \<Rightarrow> catalog \<Rightarrow> catalog result" where
  "set_member_state node state c = with_member node (mb_state_update (\<lambda>_. state)) c"

definition set_member_policy :: "node_id \<Rightarrow> u32 \<Rightarrow> string option \<Rightarrow> catalog \<Rightarrow> catalog result" where
  "set_member_policy node capacity_weight failure_domain c =
     (if capacity_weight = 0 then Inl (ClusterConfig ''member capacity_weight must be at least one'')
      else
        let domain = (case failure_domain of
                        None \<Rightarrow> None
                      | Some d \<Rightarrow> if trim d = [] then None else Some (trim d))
        in with_member node
             (\<lambda>m. m\<lparr>mb_capacity_weight := capacity_weight, mb_failure_domain := domain\<rparr>) c)"

definition set_scaling_policy :: "scaling_policy \<Rightarrow> catalog \<Rightarrow> catalog result" where
  "set_scaling_policy policy c =
     and_then (scaling_policy_validate policy) (\<lambda>_. Inr (c\<lparr>ca_scaling_policy := policy\<rparr>))"

section \<open>Voters\<close>

definition role_voters :: "catalog \<Rightarrow> node_id set" where
  "role_voters c = mb_node ` {m \<in> set (bt_values (ca_members c)). mb_role m = Voter}"

definition voter_sets :: "catalog \<Rightarrow> node_id set \<times> node_id set option" where
  "voter_sets c =
     (case ca_voter_transition c of
        Some t \<Rightarrow> (vt_old t, Some (vt_new t))
      | None \<Rightarrow> (role_voters c, None))"

definition is_voter :: "catalog \<Rightarrow> node_id \<Rightarrow> bool" where
  "is_voter c node \<longleftrightarrow>
     node \<in> fst (voter_sets c) \<or> (case snd (voter_sets c) of Some s \<Rightarrow> node \<in> s | None \<Rightarrow> False)"

definition check_new_voter :: "catalog \<Rightarrow> node_id \<Rightarrow> unit result" where
  "check_new_voter c node =
     and_then (ok_or (bt_get (ca_members c) node) (ClusterConfig ''new voter node is not a member''))
       (\<lambda>m. if mb_role m = Learner
            then Inl (ClusterConfig ''learner node must complete its storage join before becoming a voter'')
            else Inr ())"

definition begin_voter_change :: "node_id set \<Rightarrow> catalog \<Rightarrow> catalog result" where
  "begin_voter_change new c =
     (if ca_voter_transition c \<noteq> None
      then Inl (ClusterConfig ''a voter change is already in joint consensus; finalize it first'')
      else if new = {} then Inl (ClusterConfig ''a voter configuration cannot be empty'')
      else
        and_then (check_all (check_new_voter c) (sorted_list_of_set new)) (\<lambda>_.
          let old = fst (voter_sets c) in
          if old = new then Inl (ClusterConfig ''new voter set is identical to the current set'')
          else Inr (c\<lparr>ca_voter_transition := Some \<lparr>vt_old = old, vt_new = new\<rparr>\<rparr>)))"

definition finalized_role :: "node_id set \<Rightarrow> member \<Rightarrow> member" where
  "finalized_role new m =
     (if mb_node m \<in> new then m\<lparr>mb_role := Voter\<rparr>
      else if mb_role m = Voter then m\<lparr>mb_role := Storage\<rparr> else m)"

definition finalize_voter_change :: "catalog \<Rightarrow> catalog result" where
  "finalize_voter_change c =
     and_then (ok_or (ca_voter_transition c) (ClusterConfig ''there is no joint voter change to finalize''))
       (\<lambda>t. Inr (c\<lparr>ca_voter_transition := None,
                  ca_members := map (\<lambda>e. (fst e, finalized_role (vt_new t) (snd e))) (ca_members c)\<rparr>))"

section \<open>The first placement map\<close>

definition same_failure_domain :: "string option \<Rightarrow> string option \<Rightarrow> bool" where
  "same_failure_domain l r \<longleftrightarrow> (case (l, r) of (Some a, Some b) \<Rightarrow> a = b | _ \<Rightarrow> False)"

text \<open>Loads are compared as fractions, cross-multiplied in 128 bits, where they cannot overflow.\<close>

definition normalized_load_less :: "nat \<Rightarrow> u32 \<Rightarrow> nat \<Rightarrow> u32 \<Rightarrow> bool" where
  "normalized_load_less lc lw rc rw \<longleftrightarrow> lc * unat rw < rc * unat lw"

definition normalized_load_eq :: "nat \<Rightarrow> u32 \<Rightarrow> nat \<Rightarrow> u32 \<Rightarrow> bool" where
  "normalized_load_eq lc lw rc rw \<longleftrightarrow> lc * unat rw = rc * unat lw"

definition member_weight :: "catalog \<Rightarrow> node_id \<Rightarrow> u32" where
  "member_weight c n = (case bt_get (ca_members c) n of Some m \<Rightarrow> mb_capacity_weight m | None \<Rightarrow> 0)"

definition member_domain :: "catalog \<Rightarrow> node_id \<Rightarrow> string option" where
  "member_domain c n = (case bt_get (ca_members c) n of Some m \<Rightarrow> mb_failure_domain m | None \<Rightarrow> None)"

definition primary_less :: "catalog \<Rightarrow> (node_id \<Rightarrow> nat) \<Rightarrow> node_id \<Rightarrow> node_id \<Rightarrow> bool" where
  "primary_less c counts l r \<longleftrightarrow>
     normalized_load_less (counts l) (member_weight c l) (counts r) (member_weight c r) \<or>
     normalized_load_eq (counts l) (member_weight c l) (counts r) (member_weight c r) \<and> l < r"

text \<open>The stable sort by (same domain as the primary, node id).\<close>

definition replica_candidates :: "catalog \<Rightarrow> node_id list \<Rightarrow> node_id \<Rightarrow> node_id list" where
  "replica_candidates c eligible primary =
     (let others = filter (\<lambda>n. n \<noteq> primary) eligible;
          shared = (\<lambda>n. same_failure_domain (member_domain c primary) (member_domain c n))
      in sort (filter (\<lambda>n. \<not> shared n) others) @ sort (filter shared others))"

definition place_shard ::
    "catalog \<Rightarrow> nat \<Rightarrow> node_id list \<Rightarrow> (node_id \<Rightarrow> nat) \<times> (shard_id, replica_set) btree \<Rightarrow> shard_id \<Rightarrow>
     (node_id \<Rightarrow> nat) \<times> (shard_id, replica_set) btree" where
  "place_shard c copies eligible st shard =
     (case min_by (primary_less c (fst st)) eligible of
        None \<Rightarrow> st
      | Some primary \<Rightarrow>
          ((fst st)(primary := fst st primary + 1),
           bt_insert shard \<lparr>rs_generation = 1, rs_primary = primary,
             rs_replicas = take (copies - 1) (replica_candidates c eligible primary)\<rparr> (snd st)))"

definition eligible_members :: "catalog \<Rightarrow> node_id list" where
  "eligible_members c = map mb_node (filter may_receive_placement (bt_values (ca_members c)))"

definition initialize_placements :: "nat \<Rightarrow> catalog \<Rightarrow> catalog result" where
  "initialize_placements copies c =
     (if ca_placements c \<noteq> []
      then Inl (ClusterConfig ''initial placement already exists; use transfer operations to change it'')
      else if copies = 0 then Inl (ClusterConfig ''placement requires at least one copy'')
      else
        let eligible = eligible_members c in
        if length eligible < copies then Inl (ClusterConfig ''placement requests too many copies'')
        else Inr (c\<lparr>ca_placements :=
               snd (foldl (place_shard c copies eligible) (\<lambda>_. 0, [])
                      (shard_range (routing_shard_count (ca_routing c))))\<rparr>))"

definition holds_copy :: "node_id \<Rightarrow> replica_set \<Rightarrow> bool" where
  "holds_copy node p \<longleftrightarrow> rs_primary p = node \<or> node \<in> set (rs_replicas p)"

definition remove_member :: "node_id \<Rightarrow> catalog \<Rightarrow> catalog result" where
  "remove_member node c =
     and_then (ok_or (bt_get (ca_members c) node) (ClusterConfig ''node is not a member'')) (\<lambda>m.
       if is_voter c node then Inl (ClusterConfig ''node is in the active voter configuration'')
       else if list_ex (holds_copy node) (bt_values (ca_placements c))
       then Inl (ClusterConfig ''node still holds a required copy'')
       else if mb_role m = Voter \<and>
               length (filter (\<lambda>m. mb_role m = Voter) (bt_values (ca_members c))) = 1
       then Inl (ClusterConfig ''removal would leave the catalog with no voters'')
       else Inr (c\<lparr>ca_members := bt_remove node (ca_members c)\<rparr>))"

end
