(* ===== verification/Catalog_Operations.thy ===== *)
theory Catalog_Operations
  imports Catalog_Membership
begin

text \<open>
  The topology operations of \<^verbatim>\<open>src/src/cluster/catalog.rs\<close>: join, drain, transfer and split, from
  their start to their completion or abort. An operation id that is looked up mutably in the
  source is adjusted in the map here; a failed \<^verbatim>\<open>expect\<close> is a panic.
\<close>

section \<open>Looking an operation up and moving it on\<close>

definition operation_in :: "u64 \<Rightarrow> operation_kind \<Rightarrow> operation_phase \<Rightarrow> catalog \<Rightarrow> catalog_operation result" where
  "operation_in operation kind phase c =
     and_then (ok_or (bt_get (ca_operations c) operation) (ClusterConfig ''operation does not exist''))
       (\<lambda>op. if op_kind op \<noteq> kind \<or> op_phase op \<noteq> phase
             then Inl (ClusterConfig ''refusing stale or out-of-order command'') else Inr op)"

definition update_operation :: "u64 \<Rightarrow> (catalog_operation \<Rightarrow> catalog_operation) \<Rightarrow> catalog \<Rightarrow> catalog" where
  "update_operation operation f c = c\<lparr>ca_operations := bt_adjust operation f (ca_operations c)\<rparr>"

definition set_phase :: "operation_phase \<Rightarrow> catalog_operation \<Rightarrow> catalog_operation" where
  "set_phase p op = op\<lparr>op_phase := p\<rparr>"

definition transition ::
    "u64 \<Rightarrow> operation_kind \<Rightarrow> operation_phase \<Rightarrow> operation_phase \<Rightarrow> catalog \<Rightarrow> catalog result" where
  "transition operation kind expected next_phase c =
     and_then (operation_in operation kind expected c)
       (\<lambda>_. Inr (update_operation operation (set_phase next_phase) c))"

definition or_zero :: "u64 option \<Rightarrow> u64" where
  "or_zero x = (case x of Some v \<Rightarrow> v | None \<Rightarrow> 0)"

definition expect_some :: "string \<Rightarrow> 'a option \<Rightarrow> 'a result" where
  "expect_some why x = ok_or x (Panicked why)"

definition new_operation ::
    "u64 \<Rightarrow> operation_kind \<Rightarrow> shard_id option \<Rightarrow> node_id option \<Rightarrow> node_id option \<Rightarrow> u64 option \<Rightarrow> u64 \<Rightarrow>
     catalog_operation" where
  "new_operation i kind shard source destination expected_generation version =
     \<lparr>op_id = i, op_kind = kind, op_phase = Planned, op_shard = shard, op_source = source,
      op_destination = destination, op_expected_generation = expected_generation,
      op_stream_epoch = None, op_snapshot_lsn = None, op_durable_lsn = None, op_final_lsn = None,
      op_catalog_version = None, op_routing_before = None, op_routing_after = None,
      op_retain_source_replica = False, op_split_required_nodes = {}, op_split_installed_nodes = {},
      op_split_cleaned_nodes = {}, op_created_version = version, op_last_error = None\<rparr>"

definition start_operation ::
    "operation_kind \<Rightarrow> shard_id option \<Rightarrow> node_id option \<Rightarrow> node_id option \<Rightarrow> u64 option \<Rightarrow> catalog \<Rightarrow>
     (catalog \<times> u64) result" where
  "start_operation kind shard source destination expected_generation c =
     (if shard \<noteq> None \<and>
         list_ex (\<lambda>op. op_shard op = shard \<and> \<not> phase_terminal (op_phase op)) (bt_values (ca_operations c))
      then Inl (ClusterConfig ''already has an active topology operation'')
      else
        and_then (ok_or (checked_add (ca_next_operation_id c) 1) (ClusterConfig ''operation id space exhausted''))
          (\<lambda>next_id.
            let i = ca_next_operation_id c in
            Inr (c\<lparr>ca_next_operation_id := next_id,
                   ca_operations := bt_insert i
                     (new_operation i kind shard source destination expected_generation (ca_version c))
                     (ca_operations c)\<rparr>, i)))"

section \<open>Join and drain\<close>

definition start_join ::
    "cluster_id option \<Rightarrow> compatibility \<Rightarrow> node_id \<Rightarrow> u64 \<Rightarrow> string \<Rightarrow> catalog \<Rightarrow> (catalog \<times> u64) result" where
  "start_join local_cluster required node incarnation address c =
     and_then (validate_join c local_cluster required) (\<lambda>_.
       if list_ex (\<lambda>op. op_kind op = Join \<and> op_destination op = Some node \<and> \<not> phase_terminal (op_phase op))
            (bt_values (ca_operations c))
       then Inl (ClusterConfig ''node already has an active join operation'')
       else and_then (add_learner node incarnation address c)
              (start_operation Join None None (Some node) None))"

definition record_join_catch_up :: "u64 \<Rightarrow> u64 \<Rightarrow> catalog \<Rightarrow> catalog result" where
  "record_join_catch_up operation version c =
     and_then (ok_or (bt_get (ca_operations c) operation) (ClusterConfig ''operation does not exist'')) (\<lambda>op.
     and_then (if op_phase op = Planned then transition operation Join Planned CatchingUp c else Inr c) (\<lambda>c.
     and_then (operation_in operation Join CatchingUp c) (\<lambda>op.
       if version < or_zero (op_catalog_version op)
       then Inl (ClusterConfig ''join operation catalog version regressed'')
       else Inr (update_operation operation (\<lambda>op. op\<lparr>op_catalog_version := Some version\<rparr>) c))))"

definition prepare_join :: "u64 \<Rightarrow> catalog \<Rightarrow> catalog result" where
  "prepare_join operation c =
     and_then (operation_in operation Join CatchingUp c) (\<lambda>op.
       if or_zero (op_catalog_version op) < saturating_add (op_created_version op) 1
       then Inl (ClusterConfig ''join operation learner is short of required version'')
       else Inr (update_operation operation (set_phase Prepared) c))"

definition commit_storage_join :: "u64 \<Rightarrow> catalog \<Rightarrow> catalog result" where
  "commit_storage_join operation c =
     and_then (operation_in operation Join Prepared c) (\<lambda>op.
     and_then (expect_some ''validated join destination'' (op_destination op)) (\<lambda>destination.
     and_then (promote destination Storage c) (\<lambda>c.
       Inr (update_operation operation (set_phase Committed) c))))"

definition complete_join :: "u64 \<Rightarrow> catalog \<Rightarrow> catalog result" where
  "complete_join operation = transition operation Join Committed Complete"

definition start_drain :: "node_id \<Rightarrow> catalog \<Rightarrow> (catalog \<times> u64) result" where
  "start_drain node c =
     (if list_ex (\<lambda>op. op_kind op = Drain \<and> op_source op = Some node \<and> \<not> phase_terminal (op_phase op))
           (bt_values (ca_operations c))
      then Inl (ClusterConfig ''node already has an active drain operation'')
      else and_then (set_member_state node Draining c)
             (start_operation Drain None (Some node) None None))"

definition complete_drain :: "u64 \<Rightarrow> catalog \<Rightarrow> catalog result" where
  "complete_drain operation c =
     and_then (operation_in operation Drain Planned c) (\<lambda>op.
     and_then (expect_some ''validated drain source'' (op_source op)) (\<lambda>node.
       if list_ex (holds_copy node) (bt_values (ca_placements c))
       then Inl (ClusterConfig ''drain operation cannot complete'')
       else Inr (update_operation operation (set_phase Complete) c)))"

section \<open>Transfer\<close>

definition start_transfer :: "shard_id \<Rightarrow> node_id \<Rightarrow> catalog \<Rightarrow> (catalog \<times> u64) result" where
  "start_transfer shard destination c =
     and_then (ok_or (bt_get (ca_placements c) shard)
                 (ClusterConfig ''has no committed placement to transfer'')) (\<lambda>p.
     and_then (ok_or (bt_get (ca_members c) destination)
                 (ClusterConfig ''destination node is not a member'')) (\<lambda>m.
       if \<not> may_receive_placement m then Inl (ClusterConfig ''destination node may not receive a primary'')
       else if rs_primary p = destination then Inl (ClusterConfig ''destination node already owns'')
       else
         and_then (start_operation Transfer (Some shard) (Some (rs_primary p)) (Some destination)
                     (Some (rs_generation p)) c)
           (\<lambda>(c, i). Inr (update_operation i
              (\<lambda>op. op\<lparr>op_retain_source_replica := destination \<in> set (rs_replicas p)\<rparr>) c, i))))"

definition begin_snapshot :: "u64 \<Rightarrow> catalog \<Rightarrow> catalog result" where
  "begin_snapshot operation = transition operation Transfer Planned Snapshotting"

definition snapshot_installed :: "u64 \<Rightarrow> u64 \<Rightarrow> u64 \<Rightarrow> catalog \<Rightarrow> catalog result" where
  "snapshot_installed operation epoch l c =
     (if epoch = 0 then Inl (ClusterConfig ''destination reported an uninitialised stream epoch'')
      else and_then (operation_in operation Transfer Snapshotting c) (\<lambda>_.
        Inr (update_operation operation
          (\<lambda>op. op\<lparr>op_stream_epoch := Some epoch, op_snapshot_lsn := Some l, op_durable_lsn := Some l,
                  op_phase := CatchingUp\<rparr>) c)))"

text \<open>The check and update shared by the two catch-up reports, which differ in the phase.\<close>

definition record_durable :: "operation_phase \<Rightarrow> u64 \<Rightarrow> u64 \<Rightarrow> u64 \<Rightarrow> catalog \<Rightarrow> catalog result" where
  "record_durable phase operation epoch durable_lsn c =
     and_then (operation_in operation Transfer phase c) (\<lambda>op.
       if op_stream_epoch op \<noteq> Some epoch then Inl (ClusterConfig ''catch-up reported another epoch'')
       else if durable_lsn < or_zero (op_durable_lsn op) then Inl (ClusterConfig ''durable LSN regressed'')
       else Inr (update_operation operation (\<lambda>op. op\<lparr>op_durable_lsn := Some durable_lsn\<rparr>) c))"

definition record_catch_up :: "u64 \<Rightarrow> u64 \<Rightarrow> u64 \<Rightarrow> catalog \<Rightarrow> catalog result" where
  "record_catch_up = record_durable CatchingUp"

definition prepare_transfer :: "u64 \<Rightarrow> catalog \<Rightarrow> catalog result" where
  "prepare_transfer operation = transition operation Transfer CatchingUp Prepared"

definition begin_fencing :: "u64 \<Rightarrow> catalog \<Rightarrow> catalog result" where
  "begin_fencing operation = transition operation Transfer Prepared Fencing"

definition record_final_lsn :: "u64 \<Rightarrow> u64 \<Rightarrow> u64 \<Rightarrow> catalog \<Rightarrow> catalog result" where
  "record_final_lsn operation epoch l c =
     and_then (operation_in operation Transfer Fencing c) (\<lambda>op.
       if op_stream_epoch op \<noteq> Some epoch then Inl (ClusterConfig ''cannot fence epoch'')
       else if l < or_zero (op_durable_lsn op)
       then Inl (ClusterConfig ''final LSN is behind destination durable LSN'')
       else Inr (update_operation operation (\<lambda>op. op\<lparr>op_final_lsn := Some l\<rparr>) c))"

definition restart_fenced_stream :: "u64 \<Rightarrow> u64 \<Rightarrow> u64 \<Rightarrow> catalog \<Rightarrow> catalog result" where
  "restart_fenced_stream operation epoch final_lsn c =
     (if epoch = 0 then Inl (ClusterConfig ''a fenced transfer cannot restart into stream epoch zero'')
      else and_then (operation_in operation Transfer Fencing c) (\<lambda>op.
        if op_stream_epoch op = Some epoch then
          if op_final_lsn op = Some final_lsn \<and> op_snapshot_lsn op = None then Inr c
          else Inl (ClusterConfig ''already uses stream epoch'')
        else Inr (update_operation operation
          (\<lambda>op. op\<lparr>op_stream_epoch := Some epoch, op_snapshot_lsn := None, op_durable_lsn := None,
                  op_final_lsn := Some final_lsn\<rparr>) c)))"

definition record_fenced_bootstrap :: "u64 \<Rightarrow> u64 \<Rightarrow> u64 \<Rightarrow> catalog \<Rightarrow> catalog result" where
  "record_fenced_bootstrap operation epoch durable_lsn c =
     and_then (operation_in operation Transfer Fencing c) (\<lambda>op.
       if op_stream_epoch op \<noteq> Some epoch then Inl (ClusterConfig ''destination bootstrapped another epoch'')
       else if durable_lsn < or_zero (op_final_lsn op)
       then Inl (ClusterConfig ''replacement snapshot LSN is behind fenced final LSN'')
       else Inr (update_operation operation
              (\<lambda>op. op\<lparr>op_snapshot_lsn := Some durable_lsn, op_durable_lsn := Some durable_lsn\<rparr>) c))"

definition record_fenced_catch_up :: "u64 \<Rightarrow> u64 \<Rightarrow> u64 \<Rightarrow> catalog \<Rightarrow> catalog result" where
  "record_fenced_catch_up = record_durable Fencing"

text \<open>The new replica set: the source stays a replica until cleanup.\<close>

definition handed_over :: "u64 \<Rightarrow> node_id \<Rightarrow> node_id \<Rightarrow> replica_set \<Rightarrow> replica_set" where
  "handed_over generation source destination p =
     (let kept = filter (\<lambda>n. n \<noteq> destination) (rs_replicas p) in
      \<lparr>rs_generation = generation, rs_primary = destination,
       rs_replicas = (if source \<in> set kept then kept else sort (kept @ [source]))\<rparr>)"

definition commit_transfer :: "u64 \<Rightarrow> catalog \<Rightarrow> catalog result" where
  "commit_transfer operation c =
     and_then (operation_in operation Transfer Fencing c) (\<lambda>op.
     and_then (expect_some ''validated transfer shard'' (op_shard op)) (\<lambda>shard.
     and_then (expect_some ''validated transfer source'' (op_source op)) (\<lambda>source.
     and_then (expect_some ''validated transfer destination'' (op_destination op)) (\<lambda>destination.
     and_then (expect_some ''validated transfer generation'' (op_expected_generation op)) (\<lambda>generation.
       if op_snapshot_lsn op = None
       then Inl (ClusterConfig ''operation has no destination snapshot for its current stream epoch'')
       else
     and_then (ok_or (op_final_lsn op) (ClusterConfig ''operation has no final fenced LSN'')) (\<lambda>final_lsn.
       if or_zero (op_durable_lsn op) < final_lsn
       then Inl (ClusterConfig ''operation destination is short of final LSN'')
       else
     and_then (ok_or (bt_get (ca_placements c) shard) (ClusterConfig ''lost its committed placement'')) (\<lambda>p.
       if rs_generation p \<noteq> generation \<or> rs_primary p \<noteq> source
       then Inl (ClusterConfig ''refusing stale cutover'')
       else
     and_then (ok_or (checked_add (rs_generation p) 1) (ClusterConfig ''ownership generation exhausted''))
       (\<lambda>next_generation.
         Inr (update_operation operation (set_phase Committed)
           (c\<lparr>ca_placements :=
              bt_adjust shard (handed_over next_generation source destination) (ca_placements c)\<rparr>))))))))))"

definition begin_cleanup :: "u64 \<Rightarrow> catalog \<Rightarrow> catalog result" where
  "begin_cleanup operation = transition operation Transfer Committed Cleaning"

definition drop_replica :: "node_id option \<Rightarrow> replica_set \<Rightarrow> replica_set" where
  "drop_replica source p = p\<lparr>rs_replicas := filter (\<lambda>n. Some n \<noteq> source) (rs_replicas p)\<rparr>"

definition complete_transfer :: "u64 \<Rightarrow> catalog \<Rightarrow> catalog result" where
  "complete_transfer operation c =
     and_then (operation_in operation Transfer Cleaning c) (\<lambda>op.
     and_then
       (if op_retain_source_replica op then Inr c
        else
          and_then (expect_some ''validated transfer shard'' (op_shard op)) (\<lambda>shard.
          and_then (ok_or (bt_get (ca_placements c) shard)
                      (ClusterConfig ''operation lost its placement during cleanup'')) (\<lambda>_.
            Inr (c\<lparr>ca_placements := bt_adjust shard (drop_replica (op_source op)) (ca_placements c)\<rparr>))))
       (\<lambda>c. Inr (update_operation operation (set_phase Complete) c)))"

section \<open>Split\<close>

definition start_split :: "catalog \<Rightarrow> (catalog \<times> u64) result" where
  "start_split c =
     (case ca_routing c of
        ModuloV1 _ \<Rightarrow> Inl (ClusterConfig ''online shard growth requires linear-v1 routing'')
      | LinearV1 current \<Rightarrow>
          if MAX_SHARDS \<le> linear_shard_count current
          then Inl (ClusterConfig ''online shard growth reached the current implementation limit'')
          else if list_ex (\<lambda>op. op_kind op = Split \<and> \<not> phase_terminal (op_phase op))
                    (bt_values (ca_operations c))
          then Inl (ClusterConfig ''a logical split is already active'')
          else
            let source = split_source current; destination = split_destination current in
            and_then (ok_or (bt_get (ca_placements c) source)
                        (ClusterConfig ''has no committed placement to split'')) (\<lambda>p.
              if bt_mem (ca_placements c) destination
              then Inl (ClusterConfig ''split destination already has a placement'')
              else
            and_then (grown current) (\<lambda>next_routing.
            and_then (start_operation Split (Some source) (Some (rs_primary p)) (Some (rs_primary p))
                        (Some (rs_generation p)) c)
              (\<lambda>(c', i). Inr (update_operation i
                (\<lambda>op. op\<lparr>op_routing_before := Some (ca_routing c),
                        op_routing_after := Some (LinearV1 next_routing),
                        op_split_required_nodes := insert (rs_primary p) (set (rs_replicas p))\<rparr>) c', i)))))"

definition begin_split_snapshot :: "u64 \<Rightarrow> catalog \<Rightarrow> catalog result" where
  "begin_split_snapshot operation = transition operation Split Planned Snapshotting"

definition split_snapshot_ready :: "u64 \<Rightarrow> u64 \<Rightarrow> catalog \<Rightarrow> catalog result" where
  "split_snapshot_ready operation barrier c =
     and_then (operation_in operation Split Snapshotting c) (\<lambda>_.
       Inr (update_operation operation
         (\<lambda>op. op\<lparr>op_snapshot_lsn := Some barrier, op_durable_lsn := Some barrier,
                 op_phase := CatchingUp\<rparr>) c))"

definition record_split_replay :: "u64 \<Rightarrow> u64 \<Rightarrow> catalog \<Rightarrow> catalog result" where
  "record_split_replay operation sequence c =
     and_then (operation_in operation Split CatchingUp c) (\<lambda>op.
       if sequence < or_zero (op_durable_lsn op)
       then Inl (ClusterConfig ''split operation replay sequence regressed'')
       else Inr (update_operation operation (\<lambda>op. op\<lparr>op_durable_lsn := Some sequence\<rparr>) c))"

definition prepare_split :: "u64 \<Rightarrow> catalog \<Rightarrow> catalog result" where
  "prepare_split operation = transition operation Split CatchingUp Prepared"

definition begin_split_fencing :: "u64 \<Rightarrow> catalog \<Rightarrow> catalog result" where
  "begin_split_fencing operation = transition operation Split Prepared Fencing"

definition split_fenced :: "u64 \<Rightarrow> u64 \<Rightarrow> catalog \<Rightarrow> catalog result" where
  "split_fenced operation sequence c =
     and_then (operation_in operation Split Fencing c) (\<lambda>op.
       if sequence < or_zero (op_durable_lsn op)
       then Inl (ClusterConfig ''split operation final sequence is behind replayed'')
       else Inr (update_operation operation
              (\<lambda>op. op\<lparr>op_final_lsn := Some sequence, op_durable_lsn := Some sequence,
                      op_phase := Installing\<rparr>) c))"

definition record_split_installed :: "u64 \<Rightarrow> node_id \<Rightarrow> catalog \<Rightarrow> catalog result" where
  "record_split_installed operation node c =
     and_then (operation_in operation Split Installing c) (\<lambda>op.
       if node \<notin> op_split_required_nodes op
       then Inl (ClusterConfig ''node is not a required participant in split operation'')
       else Inr (update_operation operation
              (\<lambda>op. op\<lparr>op_split_installed_nodes := insert node (op_split_installed_nodes op)\<rparr>) c))"

text \<open>The order on \<^verbatim>\<open>Option<u64>\<close> puts \<^verbatim>\<open>None\<close> below every value.\<close>

definition option_less :: "u64 option \<Rightarrow> u64 option \<Rightarrow> bool" where
  "option_less a b \<longleftrightarrow>
     (case (a, b) of (None, Some _) \<Rightarrow> True | (Some x, Some y) \<Rightarrow> x < y | _ \<Rightarrow> False)"

definition commit_split :: "u64 \<Rightarrow> catalog \<Rightarrow> catalog result" where
  "commit_split operation c =
     and_then (operation_in operation Split Installing c) (\<lambda>op.
     and_then (expect_some ''validated split source'' (op_shard op)) (\<lambda>source.
     and_then (expect_some ''validated split owner'' (op_source op)) (\<lambda>owner.
     and_then (expect_some ''validated split generation'' (op_expected_generation op)) (\<lambda>generation.
     and_then (expect_some ''validated old split routing'' (op_routing_before op)) (\<lambda>before.
     and_then (expect_some ''validated new split routing'' (op_routing_after op)) (\<lambda>after.
       if op_final_lsn op = None \<or> option_less (op_durable_lsn op) (op_final_lsn op)
       then Inl (ClusterConfig ''split operation has not durably replayed its final logical sequence'')
       else if \<not> op_split_required_nodes op \<subseteq> op_split_installed_nodes op
       then Inl (ClusterConfig ''split operation cannot commit'')
       else if ca_routing c \<noteq> before then Inl (ClusterConfig ''split operation expected routing'')
       else
     and_then (ok_or (bt_get (ca_placements c) source) (ClusterConfig ''split operation lost placement'')) (\<lambda>p.
       if rs_primary p \<noteq> owner \<or> rs_generation p \<noteq> generation
       then Inl (ClusterConfig ''split operation expected generation'')
       else
     and_then (case before of LinearV1 l \<Rightarrow> Inr (split_destination l)
                 | ModuloV1 _ \<Rightarrow> Inl (Panicked ''split routing validated as linear'')) (\<lambda>destination.
     and_then (ok_or (checked_add (ca_routing_epoch c) 1) (ClusterConfig ''routing epoch exhausted''))
       (\<lambda>epoch.
         Inr (update_operation operation (set_phase Committed)
           (c\<lparr>ca_placements := bt_insert destination
                \<lparr>rs_generation = 1, rs_primary = owner,
                 rs_replicas = filter (\<lambda>n. n \<noteq> owner) (sorted_list_of_set (op_split_required_nodes op))\<rparr>
                (ca_placements c),
              ca_routing := after, ca_routing_epoch := epoch\<rparr>)))))))))))"

definition begin_split_cleanup :: "u64 \<Rightarrow> catalog \<Rightarrow> catalog result" where
  "begin_split_cleanup operation = transition operation Split Committed Cleaning"

definition record_split_cleaned :: "u64 \<Rightarrow> node_id \<Rightarrow> catalog \<Rightarrow> catalog result" where
  "record_split_cleaned operation node c =
     and_then (operation_in operation Split Cleaning c) (\<lambda>op.
       if node \<notin> op_split_required_nodes op
       then Inl (ClusterConfig ''node is not a required participant in split operation'')
       else Inr (update_operation operation
              (\<lambda>op. op\<lparr>op_split_cleaned_nodes := insert node (op_split_cleaned_nodes op)\<rparr>) c))"

definition complete_split :: "u64 \<Rightarrow> catalog \<Rightarrow> catalog result" where
  "complete_split operation c =
     and_then (operation_in operation Split Cleaning c) (\<lambda>op.
       if \<not> op_split_required_nodes op \<subseteq> op_split_cleaned_nodes op
       then Inl (ClusterConfig ''split operation cannot complete'')
       else transition operation Split Cleaning Complete c)"

section \<open>Abort\<close>

definition abort_operation :: "u64 \<Rightarrow> string \<Rightarrow> catalog \<Rightarrow> catalog result" where
  "abort_operation operation reason c =
     and_then (ok_or (bt_get (ca_operations c) operation) (ClusterConfig ''operation does not exist'')) (\<lambda>op.
       if \<not> phase_may_abort (op_phase op)
       then Inl (ClusterConfig ''the ownership boundary may have been crossed, so recovery must roll forward'')
       else Inr (update_operation operation
              (\<lambda>op. op\<lparr>op_phase := Aborted, op_last_error := Some reason\<rparr>) c))"

end
