(* ===== verification/Catalog_Store.thy ===== *)
theory Catalog_Store
  imports Catalog_Operations Disk_File
begin

text \<open>
  The crash-safe local copy of the catalog, \<^verbatim>\<open>CatalogStore\<close> of
  \<^verbatim>\<open>src/src/cluster/catalog.rs\<close>: the committed value, the prepared proposal, and their two files.
  The file layout (magic, checksum, length, body) is written out; the body's encoding (bincode) and
  the hash (blake3) are library code and come as a record of functions. The file names give both
  files the same temporary. An encoding of these values does not fail.
\<close>

section \<open>The file layout\<close>

record catalog_codec =
  cc_hash :: "bytes \<Rightarrow> bytes"
  cc_enc :: "catalog \<Rightarrow> bytes"
  cc_dec :: "bytes \<Rightarrow> (catalog \<times> nat) option"
  cc_enc_proposal :: "catalog_proposal \<Rightarrow> bytes"
  cc_dec_proposal :: "bytes \<Rightarrow> (catalog_proposal \<times> nat) option"

definition ascii_bytes :: "string \<Rightarrow> bytes" where
  "ascii_bytes s = map of_char s"

definition catalog_MAGIC :: bytes where
  "catalog_MAGIC = ascii_bytes (''shardlite-catalog-v2'' @ [CHR 0x0A])"

definition PREPARED_MAGIC :: bytes where
  "PREPARED_MAGIC = ascii_bytes (''shardlite-catalog-prepared-v2'' @ [CHR 0x0A])"

definition MAX_CATALOG_BYTES :: nat where
  "MAX_CATALOG_BYTES = 16 * 1024 * 1024"

definition to_le_bytes :: "nat \<Rightarrow> bytes" where
  "to_le_bytes n = map (\<lambda>i. word_of_nat (n div 256 ^ i)) [0..<8]"

definition from_le_bytes :: "bytes \<Rightarrow> nat" where
  "from_le_bytes bs = foldr (\<lambda>b acc. unat b + 256 * acc) bs 0"

definition persist_value ::
    "(bytes \<Rightarrow> bytes) \<Rightarrow> ('a \<Rightarrow> bytes) \<Rightarrow> bytes \<Rightarrow> write_fault \<Rightarrow> 'a \<Rightarrow> u8 file_slot \<Rightarrow> u8 file_slot \<times> unit result" where
  "persist_value hash enc magic fault value slot =
     (if fault = WfDir then (slot, Inl (Manifest ''creating''))
      else
        let body = enc value in
        if MAX_CATALOG_BYTES < length body then (slot, Inl (Manifest ''catalog is above the byte limit''))
        else replace_file fault (magic @ hash body @ to_le_bytes (length body) @ body) slot)"

definition read_value ::
    "(bytes \<Rightarrow> bytes) \<Rightarrow> (bytes \<Rightarrow> ('a \<times> nat) option) \<Rightarrow> bytes \<Rightarrow> bytes option \<Rightarrow> 'a result" where
  "read_value hash dec magic file =
     and_then (ok_or file (Manifest ''reading'')) (\<lambda>content.
       let prefix = length magic + 32 + 8 in
       if length content < prefix \<or> take (length magic) content \<noteq> magic
       then Inl (Manifest ''is not a shardlite catalog or has an unknown format'')
       else
         let checksum = take 32 (drop (length magic) content);
             len = from_le_bytes (take 8 (drop (length magic + 32) content));
             body = drop prefix content
         in if MAX_CATALOG_BYTES < len \<or> length content \<noteq> prefix + len
            then Inl (Manifest ''has invalid catalog length'')
            else if hash body \<noteq> checksum
            then Inl (Manifest ''failed its catalog checksum; refusing torn or corrupted membership state'')
            else and_then (ok_or (dec body) (Manifest ''decoding'')) (\<lambda>(value, used).
              if used \<noteq> length body then Inl (Manifest ''has trailing catalog bytes'') else Inr value))"

section \<open>The store\<close>

record catalog_disk =
  cd_catalog :: "bytes option"
  cd_prepared :: "bytes option"
  cd_tmp :: "bytes option"

record catalog_store =
  st_catalog :: catalog
  st_prepared :: "catalog_proposal option"
  st_disk :: catalog_disk

datatype remove_fault = RmOk | RmFails | RmDirSync

definition persist_catalog ::
    "catalog_codec \<Rightarrow> write_fault \<Rightarrow> catalog \<Rightarrow> catalog_disk \<Rightarrow> catalog_disk \<times> unit result" where
  "persist_catalog cd fault c d =
     (case persist_value (cc_hash cd) (cc_enc cd) catalog_MAGIC fault c
             \<lparr>fs_file = cd_catalog d, fs_tmp = cd_tmp d\<rparr> of
        (slot, r) \<Rightarrow> (d\<lparr>cd_catalog := fs_file slot, cd_tmp := fs_tmp slot\<rparr>, r))"

definition persist_prepared ::
    "catalog_codec \<Rightarrow> write_fault \<Rightarrow> catalog_proposal \<Rightarrow> catalog_disk \<Rightarrow> catalog_disk \<times> unit result" where
  "persist_prepared cd fault p d =
     (case persist_value (cc_hash cd) (cc_enc_proposal cd) PREPARED_MAGIC fault p
             \<lparr>fs_file = cd_prepared d, fs_tmp = cd_tmp d\<rparr> of
        (slot, r) \<Rightarrow> (d\<lparr>cd_prepared := fs_file slot, cd_tmp := fs_tmp slot\<rparr>, r))"

text \<open>A file that is already gone is a success.\<close>

definition remove_prepared :: "remove_fault \<Rightarrow> catalog_disk \<Rightarrow> catalog_disk \<times> unit result" where
  "remove_prepared fault d =
     (if cd_prepared d = None then (d, Inr ())
      else
        case fault of
          RmFails \<Rightarrow> (d, Inl (Manifest ''removing''))
        | RmDirSync \<Rightarrow> (d\<lparr>cd_prepared := None\<rparr>, Inl (Manifest ''fsyncing''))
        | RmOk \<Rightarrow> (d\<lparr>cd_prepared := None\<rparr>, Inr ()))"

definition validate_proposal :: "catalog \<Rightarrow> catalog_proposal \<Rightarrow> unit result" where
  "validate_proposal current p =
     (if pr_expected_version p \<noteq> ca_version current \<or>
         ca_version (pr_catalog p) \<noteq> saturating_add (ca_version current) 1
      then Inl (ClusterConfig ''catalog proposal expected/next versions'')
      else if ca_cluster_id (pr_catalog p) \<noteq> ca_cluster_id current
      then Inl (ClusterConfig ''catalog proposal belongs to cluster'')
      else if ca_routing_epoch (pr_catalog p) < ca_routing_epoch current
      then Inl (ClusterConfig ''catalog proposal routing epoch regresses'')
      else and_then (compatibility_check (ca_compatibility current) (ca_compatibility (pr_catalog p)))
             (\<lambda>_. catalog_validate (pr_catalog p)))"

definition catalog_create ::
    "catalog_codec \<Rightarrow> write_fault \<Rightarrow> catalog \<Rightarrow> catalog_disk \<Rightarrow> catalog_disk \<times> catalog_store result" where
  "catalog_create cd fault c d =
     (case catalog_validate c of
        Inl e \<Rightarrow> (d, Inl e)
      | Inr _ \<Rightarrow>
          if cd_catalog d \<noteq> None
          then (d, Inl (ClusterConfig ''already exists; refusing to replace a cluster catalog''))
          else
            case persist_catalog cd fault c d of
              (d', Inl e) \<Rightarrow> (d', Inl e)
            | (d', Inr _) \<Rightarrow> (d', Inr \<lparr>st_catalog = c, st_prepared = None, st_disk = d'\<rparr>))"

definition catalog_open ::
    "catalog_codec \<Rightarrow> remove_fault \<Rightarrow> catalog_disk \<Rightarrow> catalog_disk \<times> catalog_store result" where
  "catalog_open cd fault d =
     (case and_then (read_value (cc_hash cd) (cc_dec cd) catalog_MAGIC (cd_catalog d)) (\<lambda>c.
             and_then (catalog_validate c) (\<lambda>_. Inr c)) of
        Inl e \<Rightarrow> (d, Inl e)
      | Inr c \<Rightarrow>
          if cd_prepared d = None then (d, Inr \<lparr>st_catalog = c, st_prepared = None, st_disk = d\<rparr>)
          else
            case read_value (cc_hash cd) (cc_dec_proposal cd) PREPARED_MAGIC (cd_prepared d) of
              Inl e \<Rightarrow> (d, Inl e)
            | Inr p \<Rightarrow>
                if c = pr_catalog p then
                  (case remove_prepared fault d of
                     (d', Inl e) \<Rightarrow> (d', Inl e)
                   | (d', Inr _) \<Rightarrow> (d', Inr \<lparr>st_catalog = c, st_prepared = None, st_disk = d'\<rparr>))
                else
                  (case validate_proposal c p of
                     Inl e \<Rightarrow> (d, Inl e)
                   | Inr _ \<Rightarrow> (d, Inr \<lparr>st_catalog = c, st_prepared = Some p, st_disk = d\<rparr>)))"

definition install_committed ::
    "catalog_codec \<Rightarrow> write_fault \<Rightarrow> catalog \<Rightarrow> catalog_store \<Rightarrow> catalog_store \<times> unit result" where
  "install_committed cd fault c st =
     (case catalog_validate c of
        Inl e \<Rightarrow> (st, Inl e)
      | Inr _ \<Rightarrow>
          let current = st_catalog st in
          if ca_cluster_id c \<noteq> ca_cluster_id current
          then (st, Inl (ClusterConfig ''cannot install catalog for cluster''))
          else if ca_version c < ca_version current
          then (st, Inl (ClusterConfig ''catalog snapshot regresses''))
          else if ca_version c = ca_version current
          then (st, if c = current then Inr () else Inl (ClusterConfig ''catalog version has conflicting contents''))
          else if st_prepared st \<noteq> None
          then (st, Inl (ClusterConfig ''cannot install a catalog snapshot while a proposal is prepared''))
          else
            case persist_catalog cd fault c (st_disk st) of
              (d, Inl e) \<Rightarrow> (st\<lparr>st_disk := d\<rparr>, Inl e)
            | (d, Inr _) \<Rightarrow> (st\<lparr>st_catalog := c, st_disk := d\<rparr>, Inr ()))"

text \<open>The value this voter carries into an election; a prepared value counts.\<close>

definition durable_catalog :: "catalog_store \<Rightarrow> catalog" where
  "durable_catalog st = (case st_prepared st of Some p \<Rightarrow> pr_catalog p | None \<Rightarrow> st_catalog st)"

definition next_version :: "catalog \<Rightarrow> catalog result" where
  "next_version c =
     and_then (ok_or (checked_add (ca_version c) 1) (ClusterConfig ''catalog version space exhausted''))
       (\<lambda>v. and_then (catalog_validate (c\<lparr>ca_version := v\<rparr>)) (\<lambda>_. Inr (c\<lparr>ca_version := v\<rparr>)))"

definition store_apply ::
    "catalog_codec \<Rightarrow> write_fault \<Rightarrow> u64 \<Rightarrow> (catalog \<Rightarrow> (catalog \<times> 'o) result) \<Rightarrow> catalog_store \<Rightarrow>
     catalog_store \<times> 'o result" where
  "store_apply cd fault expected_version change st =
     (if ca_version (st_catalog st) \<noteq> expected_version
      then (st, Inl (ClusterConfig ''stale catalog update''))
      else if st_prepared st \<noteq> None
      then (st, Inl (ClusterConfig ''a catalog proposal is prepared; commit or supersede it before a local update''))
      else
        case and_then (change (st_catalog st)) (\<lambda>(c, out). and_then (next_version c) (\<lambda>c. Inr (c, out))) of
          Inl e \<Rightarrow> (st, Inl e)
        | Inr (c, out) \<Rightarrow>
            (case persist_catalog cd fault c (st_disk st) of
               (d, Inl e) \<Rightarrow> (st\<lparr>st_disk := d\<rparr>, Inl e)
             | (d, Inr _) \<Rightarrow> (st\<lparr>st_catalog := c, st_disk := d\<rparr>, Inr out)))"

definition propose ::
    "epoch_term \<Rightarrow> u64 \<Rightarrow> (catalog \<Rightarrow> (catalog \<times> 'o) result) \<Rightarrow> catalog_store \<Rightarrow> ('o \<times> catalog_proposal) result" where
  "propose t expected_version change st =
     (if ca_version (st_catalog st) \<noteq> expected_version
      then Inl (ClusterConfig ''stale catalog proposal'')
      else
        and_then (change (st_catalog st)) (\<lambda>(c, out).
        and_then (next_version c) (\<lambda>c.
          Inr (out, \<lparr>pr_term = t, pr_expected_version = expected_version, pr_catalog = c\<rparr>))))"

definition write_prepared ::
    "catalog_codec \<Rightarrow> write_fault \<Rightarrow> catalog_proposal \<Rightarrow> catalog_store \<Rightarrow> catalog_store \<times> unit result" where
  "write_prepared cd fault p st =
     (case persist_prepared cd fault p (st_disk st) of
        (d, Inl e) \<Rightarrow> (st\<lparr>st_disk := d\<rparr>, Inl e)
      | (d, Inr _) \<Rightarrow> (st\<lparr>st_prepared := Some p, st_disk := d\<rparr>, Inr ()))"

definition prepare ::
    "catalog_codec \<Rightarrow> write_fault \<Rightarrow> catalog_proposal \<Rightarrow> catalog_store \<Rightarrow> catalog_store \<times> unit result" where
  "prepare cd fault p st =
     (if ca_version (st_catalog st) = ca_version (pr_catalog p) \<and> st_catalog st = pr_catalog p
      then (st, Inr ())
      else
        case validate_proposal (st_catalog st) p of
          Inl e \<Rightarrow> (st, Inl e)
        | Inr _ \<Rightarrow>
            (case st_prepared st of
               None \<Rightarrow> write_prepared cd fault p st
             | Some existing \<Rightarrow>
                 if existing = p then (st, Inr ())
                 else if pr_term p < pr_term existing
                 then (st, Inl (ClusterConfig ''catalog proposal term is stale''))
                 else if pr_term existing = pr_term p
                 then (st, Inl (ClusterConfig ''already prepared a different value; refusing equivocation''))
                 else write_prepared cd fault p st))"

definition clear_prepared :: "remove_fault \<Rightarrow> catalog_store \<Rightarrow> catalog_store \<times> unit result" where
  "clear_prepared fault st =
     (case remove_prepared fault (st_disk st) of
        (d, Inl e) \<Rightarrow> (st\<lparr>st_disk := d\<rparr>, Inl e)
      | (d, Inr _) \<Rightarrow> (st\<lparr>st_prepared := None, st_disk := d\<rparr>, Inr ()))"

definition commit_prepared ::
    "catalog_codec \<Rightarrow> write_fault \<Rightarrow> remove_fault \<Rightarrow> epoch_term \<Rightarrow> u64 \<Rightarrow> catalog_store \<Rightarrow>
     catalog_store \<times> unit result" where
  "commit_prepared cd fault remove_fault t version st =
     (if ca_version (st_catalog st) = version then
        (case st_prepared st of
           Some p \<Rightarrow> if pr_term p = t \<and> ca_version (pr_catalog p) = version
                     then clear_prepared remove_fault st else (st, Inr ())
         | None \<Rightarrow> (st, Inr ()))
      else
        case st_prepared st of
          None \<Rightarrow> (st, Inl (ClusterConfig ''was not prepared on this voter''))
        | Some p \<Rightarrow>
            if pr_term p \<noteq> t \<or> ca_version (pr_catalog p) \<noteq> version
            then (st, Inl (ClusterConfig ''commit requests another term or version''))
            else
              case persist_catalog cd fault (pr_catalog p) (st_disk st) of
                (d, Inl e) \<Rightarrow> (st\<lparr>st_disk := d\<rparr>, Inl e)
              | (d, Inr _) \<Rightarrow> clear_prepared remove_fault (st\<lparr>st_catalog := pr_catalog p, st_disk := d\<rparr>))"

section \<open>The layout round-trips\<close>

lemma foldr_digits:
  "foldr (\<lambda>b acc. unat b + 256 * acc) (map (\<lambda>i. word_of_nat (n div 256 ^ i) :: u8) [0..<k]) 0 = n mod 256 ^ k"
proof (induction k arbitrary: n)
  case (Suc k)
  have "map (\<lambda>i. word_of_nat (n div 256 ^ i) :: u8) [0..<Suc k] =
      word_of_nat n # map (\<lambda>i. word_of_nat ((n div 256) div 256 ^ i)) [0..<k]"
    by (simp add: upt_conv_Cons map_Suc_upt [symmetric] div_mult2_eq del: upt_Suc)
  then have "foldr (\<lambda>b acc. unat b + 256 * acc) (map (\<lambda>i. word_of_nat (n div 256 ^ i) :: u8) [0..<Suc k]) 0 =
      n mod 256 + 256 * (n div 256 mod 256 ^ k)"
    using Suc.IH [of "n div 256"] by (simp add: unat_of_nat)
  then show ?case by (simp add: mod_mult2_eq)
qed simp

lemma from_to_le_bytes: "n < 256 ^ 8 \<Longrightarrow> from_le_bytes (to_le_bytes n) = n"
  using foldr_digits [of n 8] by (simp add: from_le_bytes_def to_le_bytes_def)

lemma length_to_le_bytes [simp]: "length (to_le_bytes n) = 8"
  by (simp add: to_le_bytes_def)

definition framed :: "(bytes \<Rightarrow> bytes) \<Rightarrow> bytes \<Rightarrow> bytes \<Rightarrow> bytes" where
  "framed hash magic body = magic @ hash body @ to_le_bytes (length body) @ body"

lemma read_framed:
  assumes "length (hash body) = 32" and "length body \<le> MAX_CATALOG_BYTES"
    and "dec body = Some (v, length body)"
  shows "read_value hash dec magic (Some (framed hash magic body)) = Inr v"
proof -
  have "from_le_bytes (to_le_bytes (length body)) = length body"
    using assms(2) by (intro from_to_le_bytes) (simp add: MAX_CATALOG_BYTES_def)
  then show ?thesis using assms by (simp add: read_value_def framed_def Let_def)
qed

text \<open>
  A catalog file cut short anywhere is refused. Whatever the contents of the body and of the
  rest of the cluster state, and without any assumption on the hash beyond its length, no proper
  prefix of a file the store writes is ever read back as a value.
\<close>

theorem torn_catalog_file_is_refused:
  assumes "length (hash body) = 32" and "length body \<le> MAX_CATALOG_BYTES"
    and "n < length (framed hash magic body)"
  shows "\<exists>e. read_value hash dec magic (Some (take n (framed hash magic body))) = Inl (Manifest e)"
proof (cases "n < length magic + 40")
  case True
  then show ?thesis using assms(3) by (simp add: read_value_def Let_def)
next
  case False
  let ?c = "take n (framed hash magic body)"
  have len: "length ?c = n" using assms(3) by simp
  have "take (length magic) ?c = magic" using False by (simp add: framed_def)
  moreover have "take 8 (drop (length magic + 32) ?c) = to_le_bytes (length body)"
    using False assms(1) by (simp add: framed_def drop_take)
  moreover have "from_le_bytes (to_le_bytes (length body)) = length body"
    using assms(2) by (intro from_to_le_bytes) (simp add: MAX_CATALOG_BYTES_def)
  moreover have "n \<noteq> length magic + 32 + 8 + length body"
    using assms(1,3) by (simp add: framed_def)
  ultimately show ?thesis using False len unfolding read_value_def ok_or_simps and_then.simps Let_def
    by (simp del: length_take take_take drop_take)
qed

theorem torn_catalog_file_is_refused_witness:
  "\<exists>e. read_value (\<lambda>_. replicate 32 0) (\<lambda>_. Some ((), 3)) [7]
     (Some (take 43 (framed (\<lambda>_. replicate 32 0) [7] [1, 2, 3]))) = Inl (Manifest e)"
  by (rule torn_catalog_file_is_refused) (simp_all add: MAX_CATALOG_BYTES_def framed_def)

section \<open>Crashes\<close>

text \<open>
  What is asked of the libraries, for the values a run writes. The last version number is never
  used: the store's saturating successor would be the number itself.
\<close>

definition codec_ok :: "catalog_codec \<Rightarrow> catalog set \<Rightarrow> catalog_proposal set \<Rightarrow> bool" where
  "codec_ok cd C P \<longleftrightarrow> (\<forall>b. length (cc_hash cd b) = 32) \<and>
     (\<forall>c \<in> C. cc_dec cd (cc_enc cd c) = Some (c, length (cc_enc cd c)) \<and> ca_version c \<noteq> - 1) \<and>
     (\<forall>p \<in> P. cc_dec_proposal cd (cc_enc_proposal cd p) = Some (p, length (cc_enc_proposal cd p)) \<and>
        pr_catalog p \<in> C)"

definition file_of :: "catalog_codec \<Rightarrow> catalog \<Rightarrow> bytes" where
  "file_of cd c = framed (cc_hash cd) catalog_MAGIC (cc_enc cd c)"

definition prepared_file_of :: "catalog_codec \<Rightarrow> catalog_proposal \<Rightarrow> bytes" where
  "prepared_file_of cd p = framed (cc_hash cd) PREPARED_MAGIC (cc_enc_proposal cd p)"

definition fits :: "bytes \<Rightarrow> bool" where
  "fits b \<longleftrightarrow> length b \<le> MAX_CATALOG_BYTES"

text \<open>The files carry what memory holds; a prepared value that is already committed may have lost
  its file.\<close>

definition store_wf :: "catalog_codec \<Rightarrow> catalog set \<Rightarrow> catalog_proposal set \<Rightarrow> catalog_store \<Rightarrow> bool" where
  "store_wf cd C P st \<longleftrightarrow>
     st_catalog st \<in> C \<and> catalog_validate (st_catalog st) = Inr () \<and> fits (cc_enc cd (st_catalog st)) \<and>
     cd_catalog (st_disk st) = Some (file_of cd (st_catalog st)) \<and>
     (case st_prepared st of
        None \<Rightarrow> cd_prepared (st_disk st) = None
      | Some p \<Rightarrow> p \<in> P \<and>
          (pr_catalog p = st_catalog st \<or> validate_proposal (st_catalog st) p = Inr ()) \<and>
          (fits (cc_enc_proposal cd p) \<and> cd_prepared (st_disk st) = Some (prepared_file_of cd p) \<or>
           cd_prepared (st_disk st) = None \<and> pr_catalog p = st_catalog st))"

lemma persist_value_ok:
  assumes "persist_value hash enc magic fault v slot = (slot', r)" and "fault \<noteq> WfDirSync"
  shows "r = Inr () \<and> fs_file slot' = Some (framed hash magic (enc v)) \<and> fits (enc v) \<or>
    (\<exists>e. r = Inl e) \<and> fs_file slot' = fs_file slot"
  using assms
  by (cases fault) (auto simp: persist_value_def replace_file_def framed_def fits_def Let_def split: if_splits)

lemma persist_catalog_ok:
  assumes "persist_catalog cd fault c d = (d', r)" and "fault \<noteq> WfDirSync"
  shows "r = Inr () \<and> cd_catalog d' = Some (file_of cd c) \<and> fits (cc_enc cd c) \<and> cd_prepared d' = cd_prepared d \<or>
    (\<exists>e. r = Inl e) \<and> cd_catalog d' = cd_catalog d \<and> cd_prepared d' = cd_prepared d"
  using assms
  by (auto simp: persist_catalog_def file_of_def split: prod.splits dest!: persist_value_ok)

lemma persist_prepared_ok:
  assumes "persist_prepared cd fault p d = (d', r)" and "fault \<noteq> WfDirSync"
  shows "r = Inr () \<and> cd_prepared d' = Some (prepared_file_of cd p) \<and> fits (cc_enc_proposal cd p) \<and>
      cd_catalog d' = cd_catalog d \<or>
    (\<exists>e. r = Inl e) \<and> cd_catalog d' = cd_catalog d \<and> cd_prepared d' = cd_prepared d"
  using assms
  by (auto simp: persist_prepared_def prepared_file_of_def split: prod.splits dest!: persist_value_ok)

datatype store_op =
    StPrepare write_fault catalog_proposal
  | StCommit write_fault remove_fault epoch_term u64
  | StInstall write_fault catalog
  | StReopen remove_fault

text \<open>An open that fails is tried again; the state it leaves is that of the disk.\<close>

fun store_step :: "catalog_codec \<Rightarrow> store_op \<Rightarrow> catalog_store \<Rightarrow> catalog_store" where
  "store_step cd (StPrepare fault p) st = fst (prepare cd fault p st)"
| "store_step cd (StCommit fault remove_fault t v) st = fst (commit_prepared cd fault remove_fault t v st)"
| "store_step cd (StInstall fault c) st = fst (install_committed cd fault c st)"
| "store_step cd (StReopen remove_fault) st =
     (case catalog_open cd remove_fault (st_disk st) of
        (d, Inl _) \<Rightarrow> st\<lparr>st_disk := d\<rparr>
      | (d, Inr st') \<Rightarrow> st')"

fun op_within :: "catalog set \<Rightarrow> catalog_proposal set \<Rightarrow> store_op \<Rightarrow> bool" where
  "op_within C P (StPrepare _ p) \<longleftrightarrow> p \<in> P"
| "op_within C P (StInstall _ c) \<longleftrightarrow> c \<in> C"
| "op_within C P _ \<longleftrightarrow> True"

text \<open>
  A late fault: the directory's fsync fails after the rename. The operation reports an error and
  leaves memory as it was, but the file is the new one.
\<close>

fun late_fault :: "store_op \<Rightarrow> bool" where
  "late_fault (StPrepare fault _) \<longleftrightarrow> fault = WfDirSync"
| "late_fault (StCommit fault _ _ _) \<longleftrightarrow> fault = WfDirSync"
| "late_fault (StInstall fault _) \<longleftrightarrow> fault = WfDirSync"
| "late_fault (StReopen _) \<longleftrightarrow> False"

fun is_reopen :: "store_op \<Rightarrow> bool" where
  "is_reopen (StReopen _) \<longleftrightarrow> True"
| "is_reopen _ \<longleftrightarrow> False"

text \<open>Whether memory may be behind the files after an operation, and after a run.\<close>

definition behind_after :: "store_op \<Rightarrow> bool \<Rightarrow> bool" where
  "behind_after op behind \<longleftrightarrow> late_fault op \<or> behind \<and> op \<noteq> StReopen RmOk"

fun ends_behind :: "bool \<Rightarrow> store_op list \<Rightarrow> bool" where
  "ends_behind behind [] \<longleftrightarrow> behind"
| "ends_behind behind (op # ops) \<longleftrightarrow> ends_behind (behind_after op behind) ops"

text \<open>After a late fault the node is restarted, as often as it takes, before it takes another message.\<close>

fun restarts_when_behind :: "bool \<Rightarrow> store_op list \<Rightarrow> bool" where
  "restarts_when_behind behind [] \<longleftrightarrow> True"
| "restarts_when_behind behind (op # ops) \<longleftrightarrow>
     (behind \<longrightarrow> is_reopen op) \<and> restarts_when_behind (behind_after op behind) ops"

lemma store_wf_failed_write:
  assumes "store_wf cd C P st" "cd_catalog d = cd_catalog (st_disk st)" "cd_prepared d = cd_prepared (st_disk st)"
  shows "store_wf cd C P (st\<lparr>st_disk := d\<rparr>)"
  using assms by (auto simp: store_wf_def split: option.splits)

lemma prepare_cases:
  obtains (same) r where "prepare cd fault p st = (st, r)"
      "r = Inr () \<Longrightarrow> st_catalog st = pr_catalog p \<or> st_prepared st = Some p"
    | (wrote) "prepare cd fault p st = write_prepared cd fault p st" "validate_proposal (st_catalog st) p = Inr ()"
      "\<And>e. st_prepared st = Some e \<Longrightarrow> pr_term e < pr_term p"
proof (cases "st_catalog st = pr_catalog p")
  case True
  then show thesis by (intro same [of "Inr ()"]) (auto simp: prepare_def)
next
  case False
  show thesis
  proof (cases "validate_proposal (st_catalog st) p")
    case (Inl e)
    with False show thesis by (intro same [of "Inl e"]) (auto simp: prepare_def)
  next
    case (Inr u)
    show thesis
    proof (cases "st_prepared st")
      case None
      with False Inr show thesis by (intro wrote) (auto simp: prepare_def)
    next
      case (Some e)
      consider "e = p" | "e \<noteq> p" "pr_term p < pr_term e" | "e \<noteq> p" "pr_term e = pr_term p"
        | "e \<noteq> p" "pr_term e < pr_term p" by fastforce
      then show thesis
      proof cases
        case 1
        with False Inr Some show thesis by (intro same [of "Inr ()"]) (auto simp: prepare_def)
      next
        case 2
        with False Inr Some show thesis by (intro same [OF _ notE]) (auto simp: prepare_def)
      next
        case 3
        with False Inr Some show thesis by (intro same [OF _ notE]) (auto simp: prepare_def)
      next
        case 4
        with False Inr Some show thesis by (intro wrote) (auto simp: prepare_def less_not_sym)
      qed
    qed
  qed
qed

lemma write_prepared_result:
  assumes "fault \<noteq> WfDirSync"
  obtains (ok) d where "write_prepared cd fault p st = (st\<lparr>st_prepared := Some p, st_disk := d\<rparr>, Inr ())"
      "cd_prepared d = Some (prepared_file_of cd p)" "fits (cc_enc_proposal cd p)"
      "cd_catalog d = cd_catalog (st_disk st)"
    | (failed) d e where "write_prepared cd fault p st = (st\<lparr>st_disk := d\<rparr>, Inl e)"
      "cd_catalog d = cd_catalog (st_disk st)" "cd_prepared d = cd_prepared (st_disk st)"
proof -
  obtain d r where pp: "persist_prepared cd fault p (st_disk st) = (d, r)" by fastforce
  from persist_prepared_ok [OF this assms] show thesis
    using ok [of d] failed [of d] by (auto simp: write_prepared_def pp)
qed

lemma prepare_wf:
  assumes "store_wf cd C P st" and "p \<in> P" and "fault \<noteq> WfDirSync"
  shows "store_wf cd C P (fst (prepare cd fault p st))" "st_catalog (fst (prepare cd fault p st)) = st_catalog st"
proof -
  have "store_wf cd C P (fst (prepare cd fault p st)) \<and> st_catalog (fst (prepare cd fault p st)) = st_catalog st"
  proof (rule prepare_cases [of cd fault p st])
    assume w: "prepare cd fault p st = write_prepared cd fault p st" "validate_proposal (st_catalog st) p = Inr ()"
    show ?thesis
      by (rule write_prepared_result [OF assms(3), of cd p st])
        (use assms(1,2) w store_wf_failed_write [OF assms(1)] in \<open>auto simp: store_wf_def\<close>)
  qed (use assms in simp)
  then show "store_wf cd C P (fst (prepare cd fault p st))"
    "st_catalog (fst (prepare cd fault p st)) = st_catalog st" by auto
qed

lemma clear_prepared_wf:
  assumes "store_wf cd C P st" and "st_prepared st = Some p" and "pr_catalog p = st_catalog st"
  shows "store_wf cd C P (fst (clear_prepared f st))" "st_catalog (fst (clear_prepared f st)) = st_catalog st"
    "durable_catalog (fst (clear_prepared f st)) = st_catalog st"
  using assms
  by (cases f; auto simp: clear_prepared_def remove_prepared_def store_wf_def durable_catalog_def)+

lemma saturating_succ_greater:
  assumes "v \<noteq> - 1"
  shows "v < saturating_add v (1 :: u64)"
proof -
  have "unat v + unat (1 :: u64) < 2 ^ LENGTH(64)" by (rule succ_fits_iff [THEN iffD2, OF assms])
  then show ?thesis by (simp add: saturating_add_def word_less_nat_alt unat_word_ariths)
qed

lemma saturating_succ_eq: "v \<noteq> - 1 \<Longrightarrow> saturating_add v (1 :: u64) = v + 1"
  unfolding saturating_add_def by (rule if_P) (rule succ_fits_iff [THEN iffD2])

lemma saturating_succ_differs:
  assumes "v \<noteq> - 1"
  shows "saturating_add v (1 :: u64) \<noteq> v" "v \<noteq> saturating_add v 1"
  using saturating_succ_greater [OF assms] by auto

lemma commit_prepared_wf:
  assumes "store_wf cd C P st" and "codec_ok cd C P" and "fault \<noteq> WfDirSync"
  shows "store_wf cd C P (fst (commit_prepared cd fault f t v st)) \<and>
    durable_catalog (fst (commit_prepared cd fault f t v st)) = durable_catalog st \<and>
    st_catalog (fst (commit_prepared cd fault f t v st)) \<in> {st_catalog st, durable_catalog st}"
proof (cases "st_prepared st")
  case (Some p)
  have p: "p \<in> P" "pr_catalog p \<in> C" "pr_catalog p = st_catalog st \<or> validate_proposal (st_catalog st) p = Inr ()"
    using assms(1,2) Some by (auto simp: store_wf_def codec_ok_def)
  have dur: "durable_catalog st = pr_catalog p" using Some by (simp add: durable_catalog_def)
  show ?thesis
  proof (cases "pr_term p = t \<and> ca_version (pr_catalog p) = v")
    case match: True
    show ?thesis
    proof (cases "ca_version (st_catalog st) = v")
      case True
      have "ca_version (st_catalog st) \<noteq> - 1" using assms(1,2) by (auto simp: store_wf_def codec_ok_def)
      then have "validate_proposal (st_catalog st) p \<noteq> Inr ()"
        using True match by (auto simp: validate_proposal_def saturating_succ_differs)
      then have "pr_catalog p = st_catalog st" using p(3) by auto
      then show ?thesis using True match Some clear_prepared_wf [OF assms(1) Some] dur
        by (simp add: commit_prepared_def)
    next
      case False
      then have "validate_proposal (st_catalog st) p = Inr ()" using p(3) match by auto
      then have valid: "catalog_validate (pr_catalog p) = Inr ()"
        by (auto simp: validate_proposal_def result_simps split: if_splits)
      obtain d r where pc: "persist_catalog cd fault (pr_catalog p) (st_disk st) = (d, r)" by fastforce
      from persist_catalog_ok [OF pc assms(3)] show ?thesis
      proof (elim disjE conjE exE)
        assume d: "r = Inr ()" "cd_catalog d = Some (file_of cd (pr_catalog p))" "fits (cc_enc cd (pr_catalog p))"
          "cd_prepared d = cd_prepared (st_disk st)"
        let ?st = "st\<lparr>st_catalog := pr_catalog p, st_disk := d\<rparr>"
        have "store_wf cd C P ?st" using assms(1) d p valid Some by (auto simp: store_wf_def)
        from clear_prepared_wf [OF this, of p f] show ?thesis
          using False match Some pc d(1) dur by (simp add: commit_prepared_def)
      next
        fix e assume "r = Inl e" "cd_catalog d = cd_catalog (st_disk st)" "cd_prepared d = cd_prepared (st_disk st)"
        then show ?thesis using False match Some pc store_wf_failed_write [OF assms(1)]
          by (simp add: commit_prepared_def durable_catalog_def)
      qed
    qed
  qed (use assms(1) Some in \<open>auto simp: commit_prepared_def\<close>)
qed (use assms(1) in \<open>auto simp: commit_prepared_def\<close>)

lemma install_wf:
  assumes "store_wf cd C P st" and "c \<in> C" and "fault \<noteq> WfDirSync"
  shows "store_wf cd C P (fst (install_committed cd fault c st)) \<and>
    (fst (install_committed cd fault c st) = st\<lparr>st_disk := st_disk (fst (install_committed cd fault c st))\<rparr> \<or>
     st_prepared st = None \<and> st_prepared (fst (install_committed cd fault c st)) = None \<and>
     st_catalog (fst (install_committed cd fault c st)) = c \<and> ca_version (st_catalog st) < ca_version c)"
proof (cases "fst (install_committed cd fault c st) = st")
  case False
  obtain d r where pc: "persist_catalog cd fault c (st_disk st) = (d, r)" by fastforce
  from False have g: "catalog_validate c = Inr ()" "\<not> ca_version c < ca_version (st_catalog st)"
    "ca_version c \<noteq> ca_version (st_catalog st)" "st_prepared st = None"
    and i: "install_committed cd fault c st =
      (case r of Inl e \<Rightarrow> (st\<lparr>st_disk := d\<rparr>, Inl e) | Inr _ \<Rightarrow> (st\<lparr>st_catalog := c, st_disk := d\<rparr>, Inr ()))"
    by (auto simp: install_committed_def Let_def pc split: if_splits sum.splits)
  have "ca_version (st_catalog st) < ca_version c" using g(2,3) by auto
  with persist_catalog_ok [OF pc assms(3)] g store_wf_failed_write [OF assms(1), of d] assms(1,2)
  show ?thesis by (auto simp: i store_wf_def)
qed (use assms in simp)

lemma catalog_open_cases:
  assumes "store_wf cd C P st" and "codec_ok cd C P"
  obtains (clean) "cd_prepared (st_disk st) = None"
      "catalog_open cd f (st_disk st) =
        (st_disk st, Inr \<lparr>st_catalog = st_catalog st, st_prepared = None, st_disk = st_disk st\<rparr>)"
      "durable_catalog st = st_catalog st"
    | (committed) p where "st_prepared st = Some p" "pr_catalog p = st_catalog st"
      "catalog_open cd f (st_disk st) = (let d = st_disk st in case f of
         RmFails \<Rightarrow> (d, Inl (Manifest ''removing''))
       | RmDirSync \<Rightarrow> (d\<lparr>cd_prepared := None\<rparr>, Inl (Manifest ''fsyncing''))
       | RmOk \<Rightarrow> (d\<lparr>cd_prepared := None\<rparr>,
           Inr \<lparr>st_catalog = st_catalog st, st_prepared = None, st_disk = d\<lparr>cd_prepared := None\<rparr>\<rparr>))"
    | (prepared) p where "st_prepared st = Some p" "pr_catalog p \<noteq> st_catalog st"
      "catalog_open cd f (st_disk st) = (st_disk st, Inr st)"
proof -
  have rc: "read_value (cc_hash cd) (cc_dec cd) catalog_MAGIC (cd_catalog (st_disk st)) = Inr (st_catalog st)"
    and vc: "catalog_validate (st_catalog st) = Inr ()"
    using assms by (auto simp: store_wf_def codec_ok_def file_of_def fits_def intro!: read_framed)
  show thesis
  proof (cases "cd_prepared (st_disk st)")
    case None
    then have "durable_catalog st = st_catalog st"
      using assms(1) by (auto simp: store_wf_def durable_catalog_def prepared_file_of_def split: option.splits)
    with None show thesis by (intro clean) (simp_all add: catalog_open_def rc vc)
  next
    case (Some b)
    then obtain p where p: "st_prepared st = Some p" "p \<in> P" "b = prepared_file_of cd p"
      "fits (cc_enc_proposal cd p)" "pr_catalog p = st_catalog st \<or> validate_proposal (st_catalog st) p = Inr ()"
      using assms(1) by (auto simp: store_wf_def split: option.splits)
    have rp: "read_value (cc_hash cd) (cc_dec_proposal cd) PREPARED_MAGIC (Some b) = Inr p"
      using assms(2) p by (auto simp: codec_ok_def prepared_file_of_def fits_def intro!: read_framed)
    show thesis
    proof (cases "pr_catalog p = st_catalog st")
      case True
      then show thesis
        by (intro committed [OF p(1)])
          (simp_all add: catalog_open_def rc vc rp Some remove_prepared_def Let_def split: remove_fault.split)
    next
      case False
      have eq: "\<lparr>st_catalog = st_catalog st, st_prepared = Some p, st_disk = st_disk st\<rparr> = st"
        using p(1) by (cases st) simp
      from False p(5) show thesis
        by (intro prepared [OF p(1)]) (simp_all add: catalog_open_def rc vc rp Some eq)
    qed
  qed
qed

lemma catalog_open_wf:
  assumes "store_wf cd C P st" and "codec_ok cd C P"
  shows "\<exists>d st'. catalog_open cd RmOk (st_disk st) = (d, Inr st') \<and>
      st_catalog st' = st_catalog st \<and> durable_catalog st' = durable_catalog st"
    "store_wf cd C P (store_step cd (StReopen f) st) \<and>
     st_catalog (store_step cd (StReopen f) st) = st_catalog st \<and>
     durable_catalog (store_step cd (StReopen f) st) = durable_catalog st"
proof -
  show "\<exists>d st'. catalog_open cd RmOk (st_disk st) = (d, Inr st') \<and>
      st_catalog st' = st_catalog st \<and> durable_catalog st' = durable_catalog st"
    by (rule catalog_open_cases [OF assms, of RmOk]) (auto simp: durable_catalog_def Let_def)
  show "store_wf cd C P (store_step cd (StReopen f) st) \<and>
     st_catalog (store_step cd (StReopen f) st) = st_catalog st \<and>
     durable_catalog (store_step cd (StReopen f) st) = durable_catalog st"
  proof (rule catalog_open_cases [OF assms, of f])
    fix p assume p: "st_prepared st = Some p" "pr_catalog p = st_catalog st"
      and o: "catalog_open cd f (st_disk st) = (let d = st_disk st in case f of
         RmFails \<Rightarrow> (d, Inl (Manifest ''removing''))
       | RmDirSync \<Rightarrow> (d\<lparr>cd_prepared := None\<rparr>, Inl (Manifest ''fsyncing''))
       | RmOk \<Rightarrow> (d\<lparr>cd_prepared := None\<rparr>,
           Inr \<lparr>st_catalog = st_catalog st, st_prepared = None, st_disk = d\<lparr>cd_prepared := None\<rparr>\<rparr>))"
    have "store_wf cd C P (st\<lparr>st_disk := (st_disk st)\<lparr>cd_prepared := None\<rparr>\<rparr>)"
      "store_wf cd C P \<lparr>st_catalog = st_catalog st, st_prepared = None, st_disk = (st_disk st)\<lparr>cd_prepared := None\<rparr>\<rparr>"
      using assms(1) p by (simp_all add: store_wf_def)
    with p o assms(1) show ?thesis
      by (cases f) (simp_all add: Let_def durable_catalog_def)
  next
    assume c: "cd_prepared (st_disk st) = None" "catalog_open cd f (st_disk st) =
        (st_disk st, Inr \<lparr>st_catalog = st_catalog st, st_prepared = None, st_disk = st_disk st\<rparr>)"
      "durable_catalog st = st_catalog st"
    have "store_wf cd C P \<lparr>st_catalog = st_catalog st, st_prepared = None, st_disk = st_disk st\<rparr>"
      using assms(1) c(1) by (simp add: store_wf_def)
    with c show ?thesis by (simp add: durable_catalog_def)
  qed (use assms(1) in simp)
qed

lemma durable_catalog_simps [simp]:
  "durable_catalog (st\<lparr>st_disk := d\<rparr>) = durable_catalog st"
  "durable_catalog (st\<lparr>st_prepared := Some p\<rparr>) = pr_catalog p"
  by (simp_all add: durable_catalog_def split: option.split)

lemma durable_version:
  assumes "store_wf cd C P st" and "codec_ok cd C P"
  shows "durable_catalog st = st_catalog st \<or>
      ca_version (durable_catalog st) = saturating_add (ca_version (st_catalog st)) 1"
    "ca_version (st_catalog st) \<le> ca_version (durable_catalog st)"
    "ca_version (durable_catalog st) \<le> saturating_add (ca_version (st_catalog st)) 1"
proof -
  have n: "ca_version (st_catalog st) \<noteq> - 1" using assms by (auto simp: store_wf_def codec_ok_def)
  show *: "durable_catalog st = st_catalog st \<or>
      ca_version (durable_catalog st) = saturating_add (ca_version (st_catalog st)) 1"
    using assms(1)
    by (auto simp: store_wf_def durable_catalog_def validate_proposal_def split: option.splits if_splits)
  show "ca_version (st_catalog st) \<le> ca_version (durable_catalog st)"
    "ca_version (durable_catalog st) \<le> saturating_add (ca_version (st_catalog st)) 1"
    using * saturating_succ_greater [OF n] by (auto simp: less_imp_le)
qed

definition store_grows :: "catalog_store \<Rightarrow> catalog_store \<Rightarrow> bool" where
  "store_grows st st' \<longleftrightarrow> ca_version (st_catalog st) \<le> ca_version (st_catalog st') \<and>
     ca_version (durable_catalog st) \<le> ca_version (durable_catalog st')"

lemma store_step_ok:
  assumes "store_wf cd C P st" and "codec_ok cd C P" and "op_within C P op" and "\<not> late_fault op"
  shows "store_wf cd C P (store_step cd op st)" "store_grows st (store_step cd op st)"
proof -
  note ver = durable_version [OF assms(1,2)]
  have "store_wf cd C P (store_step cd op st) \<and> store_grows st (store_step cd op st)"
  proof (cases op)
    case (StPrepare fault p)
    then have p: "p \<in> P" "fault \<noteq> WfDirSync" using assms(3,4) by simp_all
    have "ca_version (durable_catalog st) \<le> ca_version (durable_catalog (fst (prepare cd fault p st)))"
    proof (rule prepare_cases [of cd fault p st])
      assume w: "prepare cd fault p st = write_prepared cd fault p st" "validate_proposal (st_catalog st) p = Inr ()"
      have v: "ca_version (pr_catalog p) = saturating_add (ca_version (st_catalog st)) 1"
        using w(2) by (auto simp: validate_proposal_def split: if_splits)
      show ?thesis
        by (rule write_prepared_result [OF p(2), of cd p st]) (use w v ver(3) in auto)
    qed simp
    then show ?thesis using StPrepare prepare_wf [OF assms(1) p] by (simp add: store_grows_def)
  next
    case (StCommit fault f t v)
    then show ?thesis using commit_prepared_wf [OF assms(1,2), of fault f t v] assms(4) ver
      by (auto simp: store_grows_def)
  next
    case (StInstall fault c)
    then have i: "store_wf cd C P (fst (install_committed cd fault c st)) \<and>
      (fst (install_committed cd fault c st) = st\<lparr>st_disk := st_disk (fst (install_committed cd fault c st))\<rparr> \<or>
       st_prepared st = None \<and> st_prepared (fst (install_committed cd fault c st)) = None \<and>
       st_catalog (fst (install_committed cd fault c st)) = c \<and> ca_version (st_catalog st) < ca_version c)"
      using install_wf [OF assms(1), of c fault] assms(3,4) by simp
    let ?st = "fst (install_committed cd fault c st)"
    from i have "st_catalog ?st = st_catalog st \<and> durable_catalog ?st = durable_catalog st \<or>
       st_catalog ?st = c \<and> durable_catalog ?st = c \<and> durable_catalog st = st_catalog st \<and>
       ca_version (st_catalog st) < ca_version c"
      unfolding durable_catalog_def
      by (metis catalog_store.select_convs(1,2) catalog_store.surjective catalog_store.update_convs(3) option.simps(4))
    with i StInstall show ?thesis by (auto simp: store_grows_def less_imp_le)
  next
    case (StReopen f)
    then show ?thesis using catalog_open_wf(2) [OF assms(1,2), of f] by (simp add: store_grows_def)
  qed
  then show "store_wf cd C P (store_step cd op st)" "store_grows st (store_step cd op st)" by auto
qed

text \<open>A late fault leaves the disk of the same operation gone well, a commit's proposal still in place.\<close>

lemma late_persist:
  assumes "persist_value hash enc magic WfDirSync v slot = (slot', r)"
  shows "\<exists>r'. persist_value hash enc magic WfOk v slot = (slot', r') \<and> (\<exists>e. r = Inl e) \<and> (r' = Inr () \<or> r' = r)"
  using assms by (auto simp: persist_value_def replace_file_def Let_def split: if_splits)

lemma late_persist_catalog:
  "\<exists>d e. persist_catalog cd WfDirSync c d0 = (d, Inl e) \<and>
     (persist_catalog cd WfOk c d0 = (d, Inr ()) \<or> persist_catalog cd WfOk c d0 = (d, Inl e))"
  by (auto simp: persist_catalog_def split: prod.splits dest!: late_persist)

lemma late_persist_prepared:
  "\<exists>d e. persist_prepared cd WfDirSync p d0 = (d, Inl e) \<and>
     (persist_prepared cd WfOk p d0 = (d, Inr ()) \<or> persist_prepared cd WfOk p d0 = (d, Inl e))"
  by (auto simp: persist_prepared_def split: prod.splits dest!: late_persist)

fun on_time :: "store_op \<Rightarrow> store_op" where
  "on_time (StPrepare _ p) = StPrepare WfOk p"
| "on_time (StCommit _ _ t v) = StCommit WfOk RmFails t v"
| "on_time (StInstall _ c) = StInstall WfOk c"
| "on_time (StReopen f) = StReopen f"

lemma late_step:
  assumes "late_fault op"
  shows "store_step cd op st = st\<lparr>st_disk := st_disk (store_step cd (on_time op) st)\<rparr> \<or>
    (\<exists>f t v. op = StCommit WfDirSync f t v \<and> store_step cd op st = store_step cd (StCommit WfOk f t v) st)"
proof (cases op)
  case (StPrepare fault p)
  then have f: "fault = WfDirSync" using assms by simp
  obtain d e where "persist_prepared cd WfDirSync p (st_disk st) = (d, Inl e)"
    "persist_prepared cd WfOk p (st_disk st) = (d, Inr ()) \<or> persist_prepared cd WfOk p (st_disk st) = (d, Inl e)"
    using late_persist_prepared by blast
  then have "fst (write_prepared cd WfDirSync p st) = st\<lparr>st_disk := st_disk (fst (write_prepared cd WfOk p st))\<rparr>"
    by (auto simp: write_prepared_def)
  then show ?thesis by (auto simp: StPrepare f prepare_def split: option.split sum.split)
next
  case (StCommit fault f t v)
  then have w: "fault = WfDirSync" using assms by simp
  show ?thesis
  proof (cases "ca_version (st_catalog st) \<noteq> v \<and> (\<exists>p. st_prepared st = Some p \<and> pr_term p = t \<and> ca_version (pr_catalog p) = v)")
    case True
    then obtain p where p: "st_prepared st = Some p" "pr_term p = t" "ca_version (pr_catalog p) = v"
      "ca_version (st_catalog st) \<noteq> v" by blast
    obtain d e where "persist_catalog cd WfDirSync (pr_catalog p) (st_disk st) = (d, Inl e)"
      "persist_catalog cd WfOk (pr_catalog p) (st_disk st) = (d, Inr ()) \<or>
       persist_catalog cd WfOk (pr_catalog p) (st_disk st) = (d, Inl e)"
      using late_persist_catalog by blast
    then show ?thesis
      by (auto simp: StCommit w commit_prepared_def p clear_prepared_def remove_prepared_def)
  qed (auto simp: StCommit w commit_prepared_def split: option.split)
next
  case (StInstall fault c)
  then have f: "fault = WfDirSync" using assms by simp
  obtain d e where "persist_catalog cd WfDirSync c (st_disk st) = (d, Inl e)"
    "persist_catalog cd WfOk c (st_disk st) = (d, Inr ()) \<or> persist_catalog cd WfOk c (st_disk st) = (d, Inl e)"
    using late_persist_catalog by blast
  then show ?thesis by (auto simp: StInstall f install_committed_def Let_def split: sum.split)
qed (use assms in simp)

text \<open>
  The files are those of a store in order, at least as new as memory and, unless memory may be
  behind, with what memory holds.
\<close>

definition store_inv :: "catalog_codec \<Rightarrow> catalog set \<Rightarrow> catalog_proposal set \<Rightarrow> bool \<Rightarrow> catalog_store \<Rightarrow> bool" where
  "store_inv cd C P behind st \<longleftrightarrow>
     (\<exists>st'. store_wf cd C P st' \<and> st_disk st' = st_disk st \<and> store_grows st st' \<and> (\<not> behind \<longrightarrow> st' = st))"

lemma store_grows_refl [simp]: "store_grows st st"
  by (simp add: store_grows_def)

lemma store_grows_trans: "store_grows a b \<Longrightarrow> store_grows b c \<Longrightarrow> store_grows a c"
  by (auto simp: store_grows_def)

lemma store_grows_disk [simp]:
  "store_grows (a\<lparr>st_disk := d\<rparr>) b = store_grows a b" "store_grows a (b\<lparr>st_disk := d\<rparr>) = store_grows a b"
  by (simp_all add: store_grows_def)

lemma store_inv_late:
  assumes "store_wf cd C P st" and "codec_ok cd C P" and "op_within C P op" and "late_fault op"
  shows "store_inv cd C P True (store_step cd op st) \<and> store_grows st (store_step cd op st)"
proof -
  have t: "op_within C P (on_time op)" "\<not> late_fault (on_time op)" using assms(3,4) by (cases op; simp)+
  note ok = store_step_ok [OF assms(1,2) t]
  from late_step [OF assms(4), of cd st] show ?thesis
  proof (elim disjE exE conjE)
    assume e: "store_step cd op st = st\<lparr>st_disk := st_disk (store_step cd (on_time op) st)\<rparr>"
    show ?thesis unfolding e store_inv_def
      using ok by (auto intro: exI [of _ "store_step cd (on_time op) st"])
  next
    fix f t v
    assume e: "store_step cd op st = store_step cd (StCommit WfOk f t v) st"
    from store_step_ok [OF assms(1,2), of "StCommit WfOk f t v"] show ?thesis
      unfolding e store_inv_def by auto
  qed
qed

lemma store_inv_reopen:
  assumes "store_inv cd C P True st" and "codec_ok cd C P"
  shows "store_inv cd C P (f \<noteq> RmOk) (store_step cd (StReopen f) st)" "store_grows st (store_step cd (StReopen f) st)"
proof -
  obtain st' where st': "store_wf cd C P st'" "st_disk st' = st_disk st" "store_grows st st'"
    using assms(1) by (auto simp: store_inv_def)
  have step: "store_step cd (StReopen f) st = store_step cd (StReopen f) st' \<or>
      f \<noteq> RmOk \<and> store_step cd (StReopen f) st = st\<lparr>st_disk := st_disk (store_step cd (StReopen f) st')\<rparr>"
    using catalog_open_wf(1) [OF st'(1) assms(2)] by (cases f) (auto simp: st'(2) split: prod.split sum.split)
  note w = store_step_ok [OF st'(1) assms(2), of "StReopen f"]
  have g: "store_grows st (store_step cd (StReopen f) st')" using store_grows_trans [OF st'(3)] w(2) by simp
  from step show "store_inv cd C P (f \<noteq> RmOk) (store_step cd (StReopen f) st)"
  proof
    assume "store_step cd (StReopen f) st = store_step cd (StReopen f) st'"
    then show ?thesis using w(1) by (auto simp: store_inv_def simp del: store_step.simps)
  next
    assume "f \<noteq> RmOk \<and> store_step cd (StReopen f) st = st\<lparr>st_disk := st_disk (store_step cd (StReopen f) st')\<rparr>"
    then show ?thesis using w(1) g
      by (auto simp: store_inv_def simp del: store_step.simps intro!: exI [of _ "store_step cd (StReopen f) st'"])
  qed
  from step g show "store_grows st (store_step cd (StReopen f) st)" by (auto simp del: store_step.simps)
qed

lemma store_inv_step:
  assumes "store_inv cd C P behind st" and "codec_ok cd C P" and "op_within C P op" and "behind \<longrightarrow> is_reopen op"
  shows "store_inv cd C P (behind_after op behind) (store_step cd op st) \<and> store_grows st (store_step cd op st)"
proof (cases "behind")
  case True
  then obtain f where "op = StReopen f" using assms(4) by (cases op) auto
  then show ?thesis using store_inv_reopen [of cd C P st f] assms(1,2) True by (simp add: behind_after_def del: store_step.simps)
next
  case False
  then have wf: "store_wf cd C P st" using assms(1) by (auto simp: store_inv_def)
  show ?thesis
  proof (cases "late_fault op")
    case True
    then show ?thesis using store_inv_late [OF wf assms(2,3)] by (simp add: behind_after_def)
  next
    case late: False
    then show ?thesis using store_step_ok [OF wf assms(2,3)] False by (auto simp: behind_after_def store_inv_def)
  qed
qed

lemma store_run_ok:
  assumes "store_inv cd C P behind st" and "codec_ok cd C P" and "\<forall>op \<in> set ops. op_within C P op"
    and "restarts_when_behind behind ops"
  shows "store_inv cd C P (ends_behind behind ops) (fold (store_step cd) ops st) \<and>
    store_grows st (fold (store_step cd) ops st)"
  using assms
proof (induction ops arbitrary: st behind)
  case (Cons op ops)
  have "store_inv cd C P (behind_after op behind) (store_step cd op st)" "store_grows st (store_step cd op st)"
    using store_inv_step [OF Cons.prems(1,2), of op] Cons.prems(3,4) by auto
  with Cons.IH [of "behind_after op behind" "store_step cd op st"] Cons.prems store_grows_trans show ?case by auto
qed simp

text \<open>
  (C4) The local catalog survives crashes. Take any sequence of prepares, commits, snapshot installs
  and restarts, each with its disk writes failing at any point; after a write whose directory fsync
  fails, when the file is already the new one and memory is not, the node is restarted before it
  takes another message. Then the store opens again: with the committed catalog memory held and the
  same value to carry into an election, or, when the run ends in such a failure, with versions at
  least as new. And along the run neither version ever goes back. The codec is right for the catalogs
  and proposals involved.
\<close>

theorem catalog_store_survives_crashes:
  assumes "codec_ok cd C P" and "store_wf cd C P st" and "\<forall>op \<in> set ops. op_within C P op"
    and "restarts_when_behind False ops" and "st' = fold (store_step cd) ops st"
  shows "(\<exists>d st''. catalog_open cd RmOk (st_disk st') = (d, Inr st'') \<and> store_grows st' st'' \<and>
      (\<not> ends_behind False ops \<longrightarrow>
        st_catalog st'' = st_catalog st' \<and> durable_catalog st'' = durable_catalog st')) \<and>
    ca_version (st_catalog st) \<le> ca_version (st_catalog st') \<and>
    ca_version (durable_catalog st) \<le> ca_version (durable_catalog st')"
proof -
  have "store_inv cd C P False st" using assms(2) by (auto simp: store_inv_def)
  from store_run_ok [OF this assms(1,3,4)]
  have inv: "store_inv cd C P (ends_behind False ops) st'" and grows: "store_grows st st'" by (simp_all add: assms(5))
  obtain f where f: "store_wf cd C P f" "st_disk f = st_disk st'" "store_grows st' f" "\<not> ends_behind False ops \<longrightarrow> f = st'"
    using inv by (auto simp: store_inv_def)
  with catalog_open_wf(1) [OF f(1) assms(1)] obtain d st'' where o: "catalog_open cd RmOk (st_disk st') = (d, Inr st'')"
    "st_catalog st'' = st_catalog f" "durable_catalog st'' = durable_catalog f" by auto
  then have "store_grows st' st''" using f(3) by (simp add: store_grows_def)
  with o f(4) grows show ?thesis by (auto simp: store_grows_def)
qed

definition demo_store_catalog :: "u64 \<Rightarrow> catalog" where
  "demo_store_catalog v =
     \<lparr>ca_format_version = CATALOG_FORMAT_VERSION, ca_cluster_id = 77, ca_version = v, ca_routing_epoch = 1,
      ca_compatibility = compatibility_current 1 ''3.45'' 4096 (LinearV1 linear_ONE),
      ca_routing = LinearV1 linear_ONE, ca_scaling_policy = scaling_policy_default,
      ca_members = [(1, fresh_member 1 1 ''a'' Voter)], ca_voter_transition = None,
      ca_placements = [], ca_operations = [], ca_next_operation_id = 1\<rparr>"

definition demo_proposal :: "epoch_term \<Rightarrow> u64 \<Rightarrow> catalog_proposal" where
  "demo_proposal t v = \<lparr>pr_term = t, pr_expected_version = v, pr_catalog = demo_store_catalog (v + 1)\<rparr>"

text \<open>A codec that is right for versions one and two of the sample catalog and the proposal
  between them.\<close>

definition demo_codec :: catalog_codec where
  "demo_codec = \<lparr>cc_hash = \<lambda>_. replicate 32 0,
     cc_enc = \<lambda>c. [ucast (ca_version c)],
     cc_dec = \<lambda>b. Some (demo_store_catalog (ucast (hd b)), 1),
     cc_enc_proposal = \<lambda>p. [ucast (pr_term p)],
     cc_dec_proposal = \<lambda>b. Some (demo_proposal (ucast (hd b)) 1, 1)\<rparr>"

definition demo_store :: catalog_store where
  "demo_store = \<lparr>st_catalog = demo_store_catalog 1, st_prepared = None,
     st_disk = \<lparr>cd_catalog = Some (file_of demo_codec (demo_store_catalog 1)), cd_prepared = None, cd_tmp = None\<rparr>\<rparr>"

lemma demo_store_valid: "catalog_validate (demo_store_catalog v) = Inr ()"
  by (simp add: catalog_validate_def demo_store_catalog_def scaling_policy_validate_def scaling_policy_default_def
      validate_member_def fresh_member_def validate_voter_transition_def bt_values_def
      linear_shard_count_def linear_base_def linear_ONE_def)

lemma demo_codec_ok: "codec_ok demo_codec {demo_store_catalog 1, demo_store_catalog 2} {demo_proposal 4 1}"
  by (simp add: codec_ok_def demo_codec_def demo_proposal_def demo_store_catalog_def)

lemma demo_store_wf: "store_wf demo_codec {demo_store_catalog 1, demo_store_catalog 2} {demo_proposal 4 1} demo_store"
  by (simp add: store_wf_def demo_store_def demo_store_valid fits_def demo_codec_def MAX_CATALOG_BYTES_def)

definition demo_ops :: "store_op list" where
  "demo_ops =
     [StPrepare WfOk (demo_proposal 4 1), StCommit (WfShort 3) RmOk 4 2, StCommit WfDirSync RmOk 4 2,
      StReopen RmFails, StReopen RmOk]"

theorem catalog_store_survives_crashes_witness:
  "\<exists>d st''. catalog_open demo_codec RmOk (st_disk (fold (store_step demo_codec) demo_ops demo_store)) = (d, Inr st'') \<and>
     st_catalog st'' = st_catalog (fold (store_step demo_codec) demo_ops demo_store)"
proof -
  have "\<forall>op \<in> set demo_ops. op_within {demo_store_catalog 1, demo_store_catalog 2} {demo_proposal 4 1} op"
    "restarts_when_behind False demo_ops" "\<not> ends_behind False demo_ops"
    by (simp_all add: demo_ops_def behind_after_def)
  with catalog_store_survives_crashes [OF demo_codec_ok demo_store_wf _ _ refl, of demo_ops] show ?thesis by blast
qed

text \<open>
  Without that restart the node can be locked out for good. A voter prepares a proposal and the
  directory's fsync fails: the proposal's file is there, but memory holds no proposal. The next
  committed version then arrives as a snapshot and is installed. From then on the two files do not
  fit each other, and the store never opens again, however often it is tried.
\<close>

theorem late_prepare_locks_the_store:
  assumes "codec_ok cd C P" and "store_wf cd C P st" and "st_prepared st = None"
    and "p \<in> P" and "validate_proposal (st_catalog st) p = Inr ()" and "fits (cc_enc_proposal cd p)"
    and "c \<in> C" and "catalog_validate c = Inr ()" and "fits (cc_enc cd c)" and "c \<noteq> pr_catalog p"
    and "ca_cluster_id c = ca_cluster_id (st_catalog st)" and "ca_version (st_catalog st) < ca_version c"
    and "st' = fold (store_step cd) [StPrepare WfDirSync p, StInstall WfOk c] st"
  shows "st_catalog st' = c \<and> st_prepared st' = None \<and>
    (\<forall>f. \<exists>e. catalog_open cd f (st_disk st') = (st_disk st', Inl e))"
proof -
  let ?a = "store_step cd (StPrepare WfDirSync p) st"
  have "ca_version (st_catalog st) \<noteq> - 1" using assms(1,2) by (auto simp: store_wf_def codec_ok_def)
  then have "pr_catalog p \<noteq> st_catalog st"
    using assms(5) by (auto simp: validate_proposal_def saturating_succ_differs split: if_splits)
  then have a: "st_catalog ?a = st_catalog st" "st_prepared ?a = None"
    "cd_prepared (st_disk ?a) = Some (prepared_file_of cd p)"
    using assms(3,5,6)
    by (auto simp: prepare_def write_prepared_def persist_prepared_def persist_value_def replace_file_def fits_def Let_def
        prepared_file_of_def framed_def)
  have inst: "st_catalog st' = c \<and> st_prepared st' = None \<and> cd_catalog (st_disk st') = Some (file_of cd c) \<and>
      cd_prepared (st_disk st') = Some (prepared_file_of cd p)"
    using assms(8,9,11,12) a
    by (auto simp: assms(13) install_committed_def persist_catalog_def persist_value_def replace_file_def fits_def Let_def
        file_of_def framed_def simp del: store_step.simps(1))
  have "read_value (cc_hash cd) (cc_dec cd) catalog_MAGIC (cd_catalog (st_disk st')) = Inr c"
    "read_value (cc_hash cd) (cc_dec_proposal cd) PREPARED_MAGIC (cd_prepared (st_disk st')) = Inr p"
    using inst assms(1,4,6,7,9) by (auto simp: codec_ok_def file_of_def prepared_file_of_def fits_def intro!: read_framed)
  moreover have "\<exists>e. validate_proposal c p = Inl e"
    using assms(5,12) by (auto simp: validate_proposal_def split: if_splits)
  ultimately have "\<exists>e. catalog_open cd f (st_disk st') = (st_disk st', Inl e)" for f
    using inst assms(8,10) by (auto simp: catalog_open_def)
  with inst show ?thesis by blast
qed

lemma demo_proposal_valid: "validate_proposal (demo_store_catalog 1) (demo_proposal 4 1) = Inr ()"
  by (simp add: validate_proposal_def demo_proposal_def demo_store_valid saturating_add_def
      compatibility_check_def) (simp add: demo_store_catalog_def)

theorem late_prepare_locks_the_store_witness:
  "\<forall>f. \<exists>e. snd (catalog_open demo_codec f (st_disk (fold (store_step demo_codec)
     [StPrepare WfDirSync (demo_proposal 4 1), StInstall WfOk (demo_store_catalog 3)] demo_store))) = Inl e"
proof -
  let ?C = "{demo_store_catalog 1, demo_store_catalog 2, demo_store_catalog 3}" and ?P = "{demo_proposal 4 1}"
  have cd: "codec_ok demo_codec ?C ?P"
    by (simp add: codec_ok_def demo_codec_def demo_proposal_def demo_store_catalog_def)
  have wf: "store_wf demo_codec ?C ?P demo_store" using demo_store_wf by (simp add: store_wf_def demo_store_def)
  have st: "st_prepared demo_store = None" "st_catalog demo_store = demo_store_catalog 1" by (simp_all add: demo_store_def)
  have fit: "fits (cc_enc_proposal demo_codec p)" "fits (cc_enc demo_codec c)" for p c
    by (simp_all add: fits_def demo_codec_def MAX_CATALOG_BYTES_def)
  have ne: "demo_store_catalog 3 \<noteq> pr_catalog (demo_proposal 4 1)" "ca_version (demo_store_catalog 1) < ca_version (demo_store_catalog 3)"
    "ca_cluster_id (demo_store_catalog 3) = ca_cluster_id (demo_store_catalog 1)"
    by (simp_all add: demo_proposal_def demo_store_catalog_def)
  have "\<forall>f. \<exists>e. catalog_open demo_codec f (st_disk (fold (store_step demo_codec)
     [StPrepare WfDirSync (demo_proposal 4 1), StInstall WfOk (demo_store_catalog 3)] demo_store)) =
     (st_disk (fold (store_step demo_codec)
     [StPrepare WfDirSync (demo_proposal 4 1), StInstall WfOk (demo_store_catalog 3)] demo_store), Inl e)"
    using late_prepare_locks_the_store [OF cd wf st(1) _ _ fit(1) _ demo_store_valid fit(2) ne(1) _ _ refl, folded st(2)]
      ne demo_proposal_valid by (simp add: st(2) del: fold.simps)
  then show ?thesis by (metis snd_conv)
qed

section \<open>A voter that keeps an abandoned proposal\<close>

text \<open>What a leader that is at least two versions ahead can send, and the voter's own restarts.\<close>

fun leader_ahead :: "u64 \<Rightarrow> store_op \<Rightarrow> bool" where
  "leader_ahead v (StPrepare _ q) \<longleftrightarrow> v < pr_expected_version q \<and> v + 1 < ca_version (pr_catalog q)"
| "leader_ahead v (StCommit _ _ _ w) \<longleftrightarrow> v + 1 < w"
| "leader_ahead v (StInstall _ c) \<longleftrightarrow> v + 1 < ca_version c"
| "leader_ahead v (StReopen _) \<longleftrightarrow> True"

lemma stale_prepared_step:
  assumes wf: "store_wf cd C P st" and cd: "codec_ok cd C P" and p: "st_prepared st = Some p"
    and val: "validate_proposal (st_catalog st) p = Inr ()"
    and op: "leader_ahead (ca_version (st_catalog st)) op"
  shows "store_step cd op st = st"
proof -
  let ?v = "ca_version (st_catalog st)"
  have n: "?v \<noteq> - 1" using wf cd by (auto simp: store_wf_def codec_ok_def)
  have lt: "?v < ?v + 1" using saturating_succ_greater [OF n] by (simp add: saturating_succ_eq [OF n])
  have pv: "ca_version (pr_catalog p) = ?v + 1"
    using val by (auto simp: validate_proposal_def saturating_succ_eq [OF n] split: if_splits)
  then have ne: "pr_catalog p \<noteq> st_catalog st" using lt by auto
  show ?thesis
  proof (cases op)
    case (StPrepare fault q)
    with op have "validate_proposal (st_catalog st) q \<noteq> Inr ()" "st_catalog st \<noteq> pr_catalog q"
      using lt by (auto simp: validate_proposal_def)
    then show ?thesis unfolding StPrepare
      by (cases "validate_proposal (st_catalog st) q") (simp_all add: prepare_def)
  next
    case (StCommit fault f t w)
    with op lt have "?v \<noteq> w" "ca_version (pr_catalog p) \<noteq> w" by (auto simp: pv)
    then show ?thesis by (simp add: StCommit commit_prepared_def p)
  next
    case (StInstall fault c)
    with op have "?v < ca_version c" using lt by (auto intro: less_trans)
    then show ?thesis
      by (cases "catalog_validate c") (auto simp: StInstall install_committed_def p Let_def less_not_sym)
  next
    case (StReopen f)
    show ?thesis unfolding StReopen by (rule catalog_open_cases [OF wf cd, of f])
      (use p ne wf in \<open>auto simp: store_wf_def\<close>)
  qed
qed

text \<open>
  (C21) A voter that prepared a proposal which was then abandoned, and that missed two committed
  versions, never catches up. Its prepared value blocks the installation of a snapshot, its
  committed version is too old for any current proposal, and a commit names a value it does not
  have: every message of a leader two or more versions ahead is refused and leaves the store as it
  was, and a restart brings the same prepared value back.
\<close>

theorem stale_prepared_voter_is_stuck:
  assumes "codec_ok cd C P" and "store_wf cd C P st" and "st_prepared st = Some p"
    and "validate_proposal (st_catalog st) p = Inr ()"
    and "\<forall>op \<in> set ops. leader_ahead (ca_version (st_catalog st)) op"
  shows "fold (store_step cd) ops st = st"
  using assms(5)
proof (induction ops)
  case (Cons op ops)
  then have "store_step cd op st = st" using stale_prepared_step [OF assms(2,1,3,4)] by simp
  then show ?case using Cons by simp
qed simp

definition demo_stuck :: catalog_store where
  "demo_stuck = demo_store\<lparr>st_prepared := Some (demo_proposal 4 1),
     st_disk := (st_disk demo_store)\<lparr>cd_prepared := Some (prepared_file_of demo_codec (demo_proposal 4 1))\<rparr>\<rparr>"

theorem stale_prepared_voter_is_stuck_witness:
  "fold (store_step demo_codec)
     [StInstall WfOk (demo_store_catalog 3), StReopen RmOk, StPrepare WfOk (demo_proposal 9 3),
      StCommit WfOk RmOk 9 3] demo_stuck = demo_stuck"
proof (rule stale_prepared_voter_is_stuck [OF demo_codec_ok])
  note v = demo_proposal_valid
  then show "validate_proposal (st_catalog demo_stuck) (demo_proposal 4 1) = Inr ()"
    by (simp add: demo_stuck_def demo_store_def)
  show "store_wf demo_codec {demo_store_catalog 1, demo_store_catalog 2} {demo_proposal 4 1} demo_stuck"
    using demo_store_wf v
    by (simp add: store_wf_def demo_stuck_def demo_store_def fits_def demo_codec_def MAX_CATALOG_BYTES_def)
qed (simp_all add: demo_stuck_def demo_store_def demo_store_catalog_def demo_proposal_def)

end
