(* ===== verification/Rebalance.thy ===== *)
theory Rebalance
  imports Catalog_Operations
begin

text \<open>
  The one-step planner of \<^verbatim>\<open>src/src/cluster/rebalance.rs\<close>. The planner counts the primaries of
  each node; a count is the number of placements that name the node.
\<close>

datatype rebalance_decision =
    Balanced
  | Waiting u64
  | NeedsSplit u32 nat
  | TransferDecision shard_id node_id node_id u64

definition primary_count :: "catalog \<Rightarrow> node_id \<Rightarrow> nat" where
  "primary_count c n = length (filter (\<lambda>p. rs_primary p = n) (bt_values (ca_placements c)))"

definition least_loaded :: "catalog \<Rightarrow> node_id list \<Rightarrow> node_id option \<Rightarrow> node_id option" where
  "least_loaded c eligible exclude =
     min_by (primary_less c (primary_count c)) (filter (\<lambda>n. Some n \<noteq> exclude) eligible)"

text \<open>For the maximum, equal loads are ordered by descending node id.\<close>

definition source_less :: "catalog \<Rightarrow> node_id \<Rightarrow> node_id \<Rightarrow> bool" where
  "source_less c l r \<longleftrightarrow>
     normalized_load_less (primary_count c l) (member_weight c l) (primary_count c r) (member_weight c r) \<or>
     normalized_load_eq (primary_count c l) (member_weight c l) (primary_count c r) (member_weight c r) \<and> r < l"

definition shard_choice_less :: "node_id \<Rightarrow> shard_id \<times> replica_set \<Rightarrow> shard_id \<times> replica_set \<Rightarrow> bool" where
  "shard_choice_less destination a b \<longleftrightarrow>
     (let fa = destination \<notin> set (rs_replicas (snd a)); fb = destination \<notin> set (rs_replicas (snd b)) in
      (\<not> fa \<and> fb) \<or> fa = fb \<and> fst a < fst b)"

definition on_inactive :: "catalog \<Rightarrow> shard_id \<times> replica_set \<Rightarrow> bool" where
  "on_inactive c e \<longleftrightarrow>
     (case bt_get (ca_members c) (rs_primary (snd e)) of Some m \<Rightarrow> mb_state m \<noteq> Active | None \<Rightarrow> False)"

definition balance_step :: "catalog \<Rightarrow> node_id list \<Rightarrow> rebalance_decision result" where
  "balance_step c eligible =
     and_then (expect_some ''eligible is non-empty'' (max_by (source_less c) eligible)) (\<lambda>source.
     and_then (expect_some ''eligible is non-empty'' (min_by (primary_less c (primary_count c)) eligible)) (\<lambda>destination.
       if primary_count c source * unat (member_weight c destination)
          \<le> (primary_count c destination + 1) * unat (member_weight c source)
       then Inr Balanced
       else
         and_then (expect_some ''a positive source count has a placement''
                     (min_by (shard_choice_less destination)
                        (filter (\<lambda>e. rs_primary (snd e) = source) (ca_placements c))))
           (\<lambda>(shard, p). Inr (TransferDecision shard source destination (rs_generation p)))))"

definition next_rebalance :: "catalog \<Rightarrow> rebalance_decision result" where
  "next_rebalance c =
     (case find (\<lambda>op. (op_kind op = Transfer \<or> op_kind op = Split) \<and> \<not> phase_terminal (op_phase op))
             (bt_values (ca_operations c)) of
        Some op \<Rightarrow> Inr (Waiting (op_id op))
      | None \<Rightarrow>
          if length (ca_placements c) \<noteq> unat (routing_shard_count (ca_routing c))
          then Inl (ClusterConfig ''cannot rebalance an incomplete placement map'')
          else
            let eligible = eligible_members c in
            if eligible = []
            then Inl (ClusterConfig ''cannot rebalance: no active storage or voter member may receive a primary'')
            else
              case find (on_inactive c) (ca_placements c) of
                Some (shard, p) \<Rightarrow>
                  and_then (ok_or (least_loaded c eligible (Some (rs_primary p)))
                              (ClusterConfig ''cannot evacuate node''))
                    (\<lambda>destination. Inr (TransferDecision shard (rs_primary p) destination (rs_generation p)))
              | None \<Rightarrow>
                  if routing_shard_count (ca_routing c) < word_of_nat (length eligible)
                  then Inr (NeedsSplit (routing_shard_count (ca_routing c)) (length eligible))
                  else balance_step c eligible)"

definition plan_next :: "catalog \<Rightarrow> (catalog \<times> rebalance_decision) result" where
  "plan_next c =
     and_then (next_rebalance c) (\<lambda>decision.
       case decision of
         TransferDecision shard _ destination _ \<Rightarrow>
           and_then (start_transfer shard destination c) (\<lambda>(c, _). Inr (c, decision))
       | _ \<Rightarrow> Inr (c, decision))"

end
