(* ===== verification/Join_Tokens.thy ===== *)
theory Join_Tokens
  imports Disk_File Durability
begin

text \<open>
  The single-use join tokens of \<^verbatim>\<open>src/src/cluster/control.rs\<close> (\<^verbatim>\<open>JoinTokenStore\<close>). The
  hash and the file encoding come from libraries and are arguments: \<^verbatim>\<open>hash\<close> is blake3,
  \<^verbatim>\<open>enc\<close> and \<^verbatim>\<open>dec\<close> are bincode on the token file. The clock and the random bytes of a new
  token are arguments as well. A store without a path lives in memory only.
\<close>

record join_token =
  jt_hash :: digest
  jt_expires_at :: u64
  jt_used :: bool

type_synonym join_token_file = "join_token list"

record 'b join_token_store =
  js_on_disk :: bool
  js_state :: join_token_file
  js_disk :: "'b file_slot"

definition tokens_memory :: "'b join_token_store" where
  "tokens_memory = \<lparr>js_on_disk = False, js_state = [], js_disk = \<lparr>fs_file = None, fs_tmp = None\<rparr>\<rparr>"

definition tokens_open ::
    "('b list \<Rightarrow> join_token_file option) \<Rightarrow> bool \<Rightarrow> 'b file_slot \<Rightarrow> 'b join_token_store result" where
  "tokens_open dec read_fails d =
     and_then
       (case fs_file d of
          None \<Rightarrow> Inr []
        | Some b \<Rightarrow> if read_fails then Inl (Manifest ''reading join tokens'')
                   else ok_or (dec b) (Manifest ''decoding join tokens''))
       (\<lambda>s. Inr \<lparr>js_on_disk = True, js_state = s, js_disk = d\<rparr>)"

text \<open>The final directory fsync is best effort, so its failure is a success.\<close>

definition tokens_persist ::
    "(join_token_file \<Rightarrow> 'b list) \<Rightarrow> write_fault \<Rightarrow> 'b join_token_store \<Rightarrow> 'b join_token_store \<times> unit result" where
  "tokens_persist enc fault st =
     (if \<not> js_on_disk st then (st, Inr ())
      else
        case replace_file fault (enc (js_state st)) (js_disk st) of
          (d, r) \<Rightarrow> (st\<lparr>js_disk := d\<rparr>, if fault = WfDirSync then Inr () else r))"

definition hex_digit :: "nat \<Rightarrow> char" where
  "hex_digit d = (if d < 10 then char_of (48 + d) else char_of (87 + d))"

definition hex_byte :: "u8 \<Rightarrow> string" where
  "hex_byte b = [hex_digit (unat b div 16), hex_digit (unat b mod 16)]"

definition clamp_ttl :: "u64 \<Rightarrow> u64" where
  "clamp_ttl ttl = max 60 (min 86400 ttl)"

definition tokens_issue ::
    "(string \<Rightarrow> digest) \<Rightarrow> (join_token_file \<Rightarrow> 'b list) \<Rightarrow> write_fault \<Rightarrow> u64 \<Rightarrow> u8 list result \<Rightarrow> u64 \<Rightarrow>
     'b join_token_store \<Rightarrow> 'b join_token_store \<times> (string \<times> u64) result" where
  "tokens_issue hash enc fault now nonce ttl st =
     (case nonce of
        Inl e \<Rightarrow> (st, Inl e)
      | Inr raw \<Rightarrow>
          let expires_at = saturating_add now (clamp_ttl ttl);
              token = concat (map hex_byte raw);
              rec = \<lparr>jt_hash = hash token, jt_expires_at = expires_at, jt_used = False\<rparr>;
              kept = filter (\<lambda>t. \<not> jt_used t \<and> now < jt_expires_at t) (js_state st)
          in case tokens_persist enc fault (st\<lparr>js_state := kept @ [rec]\<rparr>) of
               (st', Inl e) \<Rightarrow> (st', Inl e)
             | (st', Inr _) \<Rightarrow> (st', Inr (token, expires_at)))"

text \<open>The first record with the hash is the one looked at and marked.\<close>

fun mark_used :: "digest \<Rightarrow> join_token_file \<Rightarrow> join_token_file" where
  "mark_used h [] = []"
| "mark_used h (t # ts) = (if jt_hash t = h then t\<lparr>jt_used := True\<rparr> # ts else t # mark_used h ts)"

definition tokens_consume ::
    "(string \<Rightarrow> digest) \<Rightarrow> (join_token_file \<Rightarrow> 'b list) \<Rightarrow> write_fault \<Rightarrow> u64 \<Rightarrow> string \<Rightarrow>
     'b join_token_store \<Rightarrow> 'b join_token_store \<times> unit result" where
  "tokens_consume hash enc fault now token st =
     (case find (\<lambda>t. jt_hash t = hash token) (js_state st) of
        None \<Rightarrow> (st, Inl (ClusterConfig ''join token is invalid or already used''))
      | Some t \<Rightarrow>
          if jt_used t \<or> jt_expires_at t \<le> now
          then (st, Inl (ClusterConfig ''join token is expired or already used''))
          else tokens_persist enc fault (st\<lparr>js_state := mark_used (hash token) (js_state st)\<rparr>))"

section \<open>A token is accepted once\<close>

text \<open>The life of a ledger: tokens issued and presented, with disk faults and restarts anywhere.\<close>

datatype token_op =
    TokIssue write_fault u64 "u8 list result" u64
  | TokConsume write_fault u64 string
  | TokRestart bool

text \<open>The step returns the ledger and, when a token was accepted, its hash.\<close>

fun token_step ::
    "(string \<Rightarrow> digest) \<Rightarrow> (join_token_file \<Rightarrow> 'b list) \<Rightarrow> ('b list \<Rightarrow> join_token_file option) \<Rightarrow> token_op \<Rightarrow>
     'b join_token_store \<Rightarrow> 'b join_token_store \<times> digest list" where
  "token_step hash enc dec (TokIssue fault now nonce ttl) st =
     (fst (tokens_issue hash enc fault now nonce ttl st), [])"
| "token_step hash enc dec (TokConsume fault now token) st =
     (case tokens_consume hash enc fault now token st of
        (st', Inr _) \<Rightarrow> (st', [hash token])
      | (st', Inl _) \<Rightarrow> (st', []))"
| "token_step hash enc dec (TokRestart read_fails) st =
     (if js_on_disk st then
        (case tokens_open dec read_fails (js_disk st) of Inr st' \<Rightarrow> (st', []) | Inl _ \<Rightarrow> (st, []))
      else (tokens_memory, []))"

fun token_run ::
    "(string \<Rightarrow> digest) \<Rightarrow> (join_token_file \<Rightarrow> 'b list) \<Rightarrow> ('b list \<Rightarrow> join_token_file option) \<Rightarrow> token_op list \<Rightarrow>
     'b join_token_store \<Rightarrow> digest list" where
  "token_run hash enc dec [] st = []"
| "token_run hash enc dec (op # ops) st =
     (case token_step hash enc dec op st of (st', acc) \<Rightarrow> acc @ token_run hash enc dec ops st')"

fun issued_hashes :: "(string \<Rightarrow> digest) \<Rightarrow> token_op list \<Rightarrow> digest list" where
  "issued_hashes hash [] = []"
| "issued_hashes hash (TokIssue _ _ (Inr raw) _ # ops) = hash (concat (map hex_byte raw)) # issued_hashes hash ops"
| "issued_hashes hash (_ # ops) = issued_hashes hash ops"

definition live_hashes :: "join_token_file \<Rightarrow> digest list" where
  "live_hashes ts = map jt_hash (filter (\<lambda>t. \<not> jt_used t) ts)"

text \<open>
  The hashes a ledger could still accept, in memory or after a restart from its file; and the
  shape of the two copies: no hash twice, and none of the hashes in \<^term>\<open>F\<close>, which are yet to be
  issued.
\<close>

definition acceptable :: "(join_token_file \<Rightarrow> 'b list) \<Rightarrow> 'b join_token_store \<Rightarrow> digest set" where
  "acceptable enc st = set (live_hashes (js_state st)) \<union>
     {h. js_on_disk st \<and> (\<exists>s. fs_file (js_disk st) = Some (enc s) \<and> h \<in> set (live_hashes s))}"

definition tokens_ok :: "digest set \<Rightarrow> join_token_file \<Rightarrow> bool" where
  "tokens_ok F ts \<longleftrightarrow> distinct (map jt_hash ts) \<and> set (map jt_hash ts) \<inter> F = {}"

definition ledger_ok :: "(join_token_file \<Rightarrow> 'b list) \<Rightarrow> digest set \<Rightarrow> 'b join_token_store \<Rightarrow> bool" where
  "ledger_ok enc F st \<longleftrightarrow> tokens_ok F (js_state st) \<and>
     (js_on_disk st \<longrightarrow>
        (\<forall>b. fs_file (js_disk st) = Some b \<longrightarrow> (\<exists>s. b = enc s \<and> tokens_ok F s)))"

lemma tokens_persist_result:
  assumes "tokens_persist enc fault st = (st', r)"
  shows "js_state st' = js_state st" "js_on_disk st' = js_on_disk st"
    "fs_file (js_disk st') = fs_file (js_disk st) \<or> fs_file (js_disk st') = Some (enc (js_state st))"
    "r = Inr () \<Longrightarrow> js_on_disk st \<Longrightarrow> fs_file (js_disk st') = Some (enc (js_state st))"
  using assms by (cases fault; auto simp: tokens_persist_def replace_file_def split: if_splits)+

lemma live_hashes_simps [simp]:
  "live_hashes [] = []"
  "live_hashes (t # ts) = (if jt_used t then live_hashes ts else jt_hash t # live_hashes ts)"
  by (simp_all add: live_hashes_def)

lemma live_hashes_subset: "set (live_hashes ts) \<subseteq> jt_hash ` set ts"
  by (auto simp: live_hashes_def)

lemma find_hash_mem:
  "find (\<lambda>t. jt_hash t = h) ts = Some t \<Longrightarrow> \<not> jt_used t \<Longrightarrow> h \<in> set (live_hashes ts)"
  by (auto simp: find_Some_iff live_hashes_def)

lemma mark_used_hashes [simp]: "map jt_hash (mark_used h ts) = map jt_hash ts"
  by (induction ts) simp_all

lemma mark_used_live:
  "distinct (map jt_hash ts) \<Longrightarrow> set (live_hashes (mark_used h ts)) = set (live_hashes ts) - {h}"
proof (induction ts)
  case (Cons t ts)
  then have "jt_hash t \<notin> set (live_hashes ts)" using live_hashes_subset [of ts] by auto
  with Cons show ?case by auto
qed simp

lemma tokens_ok_filter_snoc:
  assumes "tokens_ok F ts" "jt_hash t \<in> F" "F' \<subseteq> F - {jt_hash t}"
  shows "tokens_ok F' (filter p ts @ [t])"
  using assms by (auto simp: tokens_ok_def distinct_map_filter)

lemma tokens_ok_mono: "tokens_ok F ts \<Longrightarrow> F' \<subseteq> F \<Longrightarrow> tokens_ok F' ts"
  by (auto simp: tokens_ok_def)

lemma ledger_ok_mono: "ledger_ok enc F st \<Longrightarrow> F' \<subseteq> F \<Longrightarrow> ledger_ok enc F' st"
  unfolding ledger_ok_def by (meson tokens_ok_mono)

lemma tokens_persist_ledger:
  assumes "tokens_persist enc fault (st\<lparr>js_state := ts\<rparr>) = (st', r)"
    and "ledger_ok enc F st" "tokens_ok F' ts" "F' \<subseteq> F" "inj enc"
  shows "ledger_ok enc F' st'" "acceptable enc st' \<subseteq> acceptable enc st \<union> set (live_hashes ts)"
    "r = Inr () \<Longrightarrow> acceptable enc st' = set (live_hashes ts)"
proof -
  note p = tokens_persist_result [OF assms(1), simplified]
  note d = ledger_ok_def acceptable_def inj_eq [OF \<open>inj enc\<close>]
  have mono: "\<And>s. tokens_ok F s \<Longrightarrow> tokens_ok F' s" by (rule tokens_ok_mono [OF _ \<open>F' \<subseteq> F\<close>])
  show "ledger_ok enc F' st'" using p assms(2,3) mono by (auto simp: d)
  show "acceptable enc st' \<subseteq> acceptable enc st \<union> set (live_hashes ts)" using p by (auto simp: d)
  show "r = Inr () \<Longrightarrow> acceptable enc st' = set (live_hashes ts)" using p by (auto simp: d)
qed

lemma token_step_consume:
  assumes "token_step hash enc dec (TokConsume fault now token) st = (st', acc)"
    and ok: "ledger_ok enc F st" and "inj enc"
  shows "ledger_ok enc F st'" "acceptable enc st' \<subseteq> acceptable enc st"
    "acc = [] \<or> (\<exists>h. acc = [h] \<and> h \<in> acceptable enc st \<and> h \<notin> acceptable enc st')"
proof -
  have dist: "distinct (map jt_hash (js_state st))" using ok by (simp add: ledger_ok_def tokens_ok_def)
  let ?ts = "mark_used (hash token) (js_state st)"
  have "ledger_ok enc F st' \<and> acceptable enc st' \<subseteq> acceptable enc st \<and>
    (acc = [] \<or> (\<exists>h. acc = [h] \<and> h \<in> acceptable enc st \<and> h \<notin> acceptable enc st'))"
  proof (cases "st' = st \<and> acc = []")
    case True
    then show ?thesis using ok by simp
  next
    case False
    then obtain t r where f: "find (\<lambda>t. jt_hash t = hash token) (js_state st) = Some t" "\<not> jt_used t"
      and p: "tokens_persist enc fault (st\<lparr>js_state := ?ts\<rparr>) = (st', r)"
      and acc: "acc = (case r of Inr _ \<Rightarrow> [hash token] | Inl _ \<Rightarrow> [])"
      using assms(1)
      by (auto simp: tokens_consume_def split: option.splits if_splits prod.splits sum.splits)
    have "tokens_ok F ?ts" using ok by (simp add: ledger_ok_def tokens_ok_def flip: set_map)
    note p = tokens_persist_ledger [OF p ok this subset_refl \<open>inj enc\<close>]
    show ?thesis using p mark_used_live [OF dist, of "hash token"] find_hash_mem [OF f] acc
      by (cases r) (auto simp: acceptable_def)
  qed
  then show "ledger_ok enc F st'" "acceptable enc st' \<subseteq> acceptable enc st"
    "acc = [] \<or> (\<exists>h. acc = [h] \<and> h \<in> acceptable enc st \<and> h \<notin> acceptable enc st')" by auto
qed

lemma token_step_issue:
  assumes "token_step hash enc dec (TokIssue fault now (Inr raw) ttl) st = (st', acc)"
    and "ledger_ok enc F st" "h = hash (concat (map hex_byte raw))" "h \<in> F" "F' \<subseteq> F - {h}" "inj enc"
  shows "ledger_ok enc F' st'" "acceptable enc st' \<subseteq> insert h (acceptable enc st)" "acc = []"
proof -
  define t where "t = \<lparr>jt_hash = h, jt_expires_at = saturating_add now (clamp_ttl ttl), jt_used = False\<rparr>"
  define ts where "ts = filter (\<lambda>t. \<not> jt_used t \<and> now < jt_expires_at t) (js_state st) @ [t]"
  have "fst (tokens_persist enc fault (st\<lparr>js_state := ts\<rparr>)) = st'" and acc: "acc = []"
    using assms(1,3) by (auto simp: tokens_issue_def Let_def ts_def t_def split: prod.splits sum.splits)
  then obtain r where p: "tokens_persist enc fault (st\<lparr>js_state := ts\<rparr>) = (st', r)"
    by (metis prod.collapse)
  have "tokens_ok F' ts" unfolding ts_def
    using assms(2,4,5) by (intro tokens_ok_filter_snoc) (auto simp: ledger_ok_def t_def)
  moreover have "set (live_hashes ts) \<subseteq> insert h (acceptable enc st)"
    by (auto simp: ts_def t_def live_hashes_def acceptable_def)
  ultimately show "ledger_ok enc F' st'" "acceptable enc st' \<subseteq> insert h (acceptable enc st)" "acc = []"
    using tokens_persist_ledger [OF p assms(2)] assms(5,6) acc by blast+
qed

lemma token_step_restart:
  assumes "token_step hash enc dec (TokRestart rf) st = (st', acc)" and ok: "ledger_ok enc F st"
    and dec: "\<And>s. dec (enc s) = Some s"
  shows "ledger_ok enc F st'" "acceptable enc st' \<subseteq> acceptable enc st" "acc = []"
proof -
  have "ledger_ok enc F st' \<and> acceptable enc st' \<subseteq> acceptable enc st \<and> acc = []"
  proof (cases "js_on_disk st \<and> st' \<noteq> st")
    case True
    then obtain s where st': "st' = \<lparr>js_on_disk = True, js_state = s, js_disk = js_disk st\<rparr>" and "acc = []"
      and s: "fs_file (js_disk st) = None \<and> s = [] \<or>
        (\<exists>b. fs_file (js_disk st) = Some b \<and> dec b = Some s)"
      using assms(1) by (auto simp: tokens_open_def result_simps ok_or_def split: option.splits if_splits)
    moreover have "fs_file (js_disk st) = Some b \<Longrightarrow> \<exists>s'. b = enc s' \<and> tokens_ok F s'" for b
      using ok True by (auto simp: ledger_ok_def)
    moreover have "tokens_ok F []" by (simp add: tokens_ok_def)
    ultimately show ?thesis using True dec
      by (cases "fs_file (js_disk st)") (auto simp: ledger_ok_def acceptable_def)
  next
    case False
    then show ?thesis using assms(1) ok
      by (auto simp: tokens_memory_def ledger_ok_def acceptable_def tokens_ok_def split: if_splits sum.splits)
  qed
  then show "ledger_ok enc F st'" "acceptable enc st' \<subseteq> acceptable enc st" "acc = []" by auto
qed

lemma token_run_accepts:
  assumes dec: "\<And>s. dec (enc s) = Some s"
  shows "ledger_ok enc (set (issued_hashes hash ops)) st \<Longrightarrow> distinct (issued_hashes hash ops) \<Longrightarrow>
    acceptable enc st \<inter> set (issued_hashes hash ops) = {} \<Longrightarrow>
    distinct (token_run hash enc dec ops st) \<and>
    set (token_run hash enc dec ops st) \<subseteq> acceptable enc st \<union> set (issued_hashes hash ops)"
proof (induction ops arbitrary: st)
  case (Cons op ops)
  have "inj enc" using dec by (metis injI option.inject)
  obtain st' acc where step: "token_step hash enc dec op st = (st', acc)" by fastforce
  then have run: "token_run hash enc dec (op # ops) st = acc @ token_run hash enc dec ops st'" by simp
  show ?case
  proof (cases op)
    case (TokIssue fault now nonce ttl)
    show ?thesis
    proof (cases nonce)
      case (Inl e)
      then show ?thesis using Cons TokIssue by (simp add: tokens_issue_def)
    next
      case (Inr raw)
      let ?h = "hash (concat (map hex_byte raw))" and ?F = "set (issued_hashes hash ops)"
      have fresh: "?h \<notin> ?F" "?h \<notin> acceptable enc st" using Cons.prems by (simp_all add: TokIssue Inr)
      have "ledger_ok enc ?F st'" "acceptable enc st' \<subseteq> insert ?h (acceptable enc st)" "acc = []"
        using token_step_issue [OF step [unfolded TokIssue Inr] Cons.prems(1) refl _ _ \<open>inj enc\<close>, of ?F] fresh
        by (simp_all add: TokIssue Inr)
      moreover have "issued_hashes hash (op # ops) = ?h # issued_hashes hash ops" by (simp add: TokIssue Inr)
      ultimately show ?thesis using Cons.IH [of st'] Cons.prems(2,3) fresh unfolding run by auto
    qed
  next
    case (TokConsume fault now token)
    note step' = token_step_consume [OF step [unfolded TokConsume] Cons.prems(1) \<open>inj enc\<close>]
    have "issued_hashes hash (op # ops) = issued_hashes hash ops" by (simp add: TokConsume)
    moreover from this have "acceptable enc st' \<inter> set (issued_hashes hash ops) = {}"
      using Cons.prems(3) step'(2) by auto
    moreover from calculation have "distinct (token_run hash enc dec ops st')"
      and "set (token_run hash enc dec ops st') \<subseteq> acceptable enc st' \<union> set (issued_hashes hash ops)"
      using Cons.IH [of st'] Cons.prems(2) step'(1) by simp_all
    ultimately show ?thesis using Cons.prems(3) step'(2,3) unfolding run by auto
  next
    case (TokRestart rf)
    note step' = token_step_restart [OF step [unfolded TokRestart] Cons.prems(1) dec]
    have "issued_hashes hash (op # ops) = issued_hashes hash ops" by (simp add: TokRestart)
    moreover from this have "acceptable enc st' \<inter> set (issued_hashes hash ops) = {}"
      using Cons.prems(3) step'(2) by auto
    moreover from calculation have "distinct (token_run hash enc dec ops st')"
      and "set (token_run hash enc dec ops st') \<subseteq> acceptable enc st' \<union> set (issued_hashes hash ops)"
      using Cons.IH [of st'] Cons.prems(2) step'(1) by simp_all
    ultimately show ?thesis using Cons.prems(3) step'(2,3) unfolding run by auto
  qed
qed simp

text \<open>
  (C16) A join token is accepted at most once. Whatever tokens are issued and presented, in any order,
  with any disk faults and any restarts in between, no hash is accepted twice, and only a hash
  that was issued is ever accepted. The hypotheses are that the library decodes what it encoded
  and that the random tokens do not repeat.
\<close>

theorem join_token_single_use:
  assumes "\<And>s. dec (enc s) = Some s" and "distinct (issued_hashes hash ops)"
    and "st = \<lparr>js_on_disk = persistent, js_state = [], js_disk = \<lparr>fs_file = None, fs_tmp = None\<rparr>\<rparr>"
  shows "distinct (token_run hash enc dec ops st) \<and>
    set (token_run hash enc dec ops st) \<subseteq> set (issued_hashes hash ops)"
proof -
  have "ledger_ok enc (set (issued_hashes hash ops)) st" "acceptable enc st = {}"
    by (simp_all add: assms(3) ledger_ok_def tokens_ok_def acceptable_def)
  with token_run_accepts [of dec enc hash ops st] assms(1,2) show ?thesis by simp
qed

theorem join_token_single_use_witness:
  "let hash = (\<lambda>s. word_of_nat (length s)) :: string \<Rightarrow> digest;
       ops = [TokIssue WfOk 0 (Inr [7]) 100, TokConsume WfSync 5 ''07'', TokRestart False,
              TokConsume WfOk 6 ''07'', TokRestart False, TokConsume WfOk 7 ''07''];
       st = \<lparr>js_on_disk = True, js_state = [], js_disk = \<lparr>fs_file = None, fs_tmp = None\<rparr>\<rparr>
   in distinct (token_run hash id Some ops st) \<and> token_run hash id Some ops st = [2]"
  unfolding Let_def
  by (rule conjI [OF conjunct1 [OF join_token_single_use]])
    (simp_all add: tokens_issue_def tokens_consume_def tokens_persist_def replace_file_def
      tokens_open_def hex_byte_def hex_digit_def clamp_ttl_def saturating_add_def ok_or_def result_simps Let_def)

end
