(* ===== verification/Control.thy ===== *)
theory Control
  imports Rebalance Join_Tokens
begin

text \<open>
  The commands of \<^verbatim>\<open>src/src/cluster/control.rs\<close>: the state-machine step each command makes on a
  catalog, with its handling of retries. The step is the closure \<^verbatim>\<open>CatalogControl::apply\<close>
  hands to the quorum; its result is the next catalog value, the operation it reports and the
  rebalance decision. Consuming a join token is an effect of the step that stays even when the
  step fails, so the token ledger is returned beside the result.
\<close>

section \<open>Progress of a transfer and of a split\<close>

datatype transfer_progress =
    TBeginSnapshot
  | TSnapshotInstalled u64 u64
  | TCatchUp u64 u64
  | TPrepare
  | TBeginFencing
  | TFinalLsn u64 u64
  | TRestartFencedSource u64 u64
  | TFencedBootstrap u64 u64
  | TFencedCatchUp u64 u64
  | TCommit
  | TBeginCleanup
  | TComplete
  | TAbort string

datatype split_progress =
    SBeginSnapshot
  | SSnapshotReady u64
  | SReplay u64
  | SPrepare
  | SBeginFencing
  | SFenced u64
  | SReplicaInstalled node_id
  | SCommit
  | SBeginCleanup
  | SReplicaCleaned node_id
  | SComplete
  | SAbort string

fun split_rank :: "operation_phase \<Rightarrow> nat" where
  "split_rank Planned = 0"
| "split_rank Snapshotting = 1"
| "split_rank CatchingUp = 2"
| "split_rank Prepared = 3"
| "split_rank Fencing = 4"
| "split_rank Installing = 5"
| "split_rank Committed = 6"
| "split_rank Cleaning = 7"
| "split_rank Complete = 8"
| "split_rank Aborted = 9"

fun split_target :: "split_progress \<Rightarrow> operation_phase" where
  "split_target SBeginSnapshot = Snapshotting"
| "split_target (SSnapshotReady _) = CatchingUp"
| "split_target (SReplay _) = CatchingUp"
| "split_target SPrepare = Prepared"
| "split_target SBeginFencing = Fencing"
| "split_target (SFenced _) = Installing"
| "split_target (SReplicaInstalled _) = Installing"
| "split_target SCommit = Committed"
| "split_target SBeginCleanup = Cleaning"
| "split_target (SReplicaCleaned _) = Cleaning"
| "split_target SComplete = Complete"
| "split_target (SAbort _) = Aborted"

definition split_progress_already_applied :: "operation_phase \<Rightarrow> split_progress \<Rightarrow> bool" where
  "split_progress_already_applied phase progress \<longleftrightarrow>
     (if phase = Aborted then (case progress of SAbort _ \<Rightarrow> True | _ \<Rightarrow> False)
      else split_rank (split_target progress) \<le> split_rank phase)"

definition apply_split :: "u64 \<Rightarrow> split_progress \<Rightarrow> catalog \<Rightarrow> catalog result" where
  "apply_split i progress c =
     and_then (ok_or (bt_get (ca_operations c) i) (ClusterConfig ''operation does not exist'')) (\<lambda>op.
       let current = op_phase op;
           otherwise = (if split_progress_already_applied current progress then Inr c
                        else Inl (ClusterConfig ''split command is stale or out of order''))
       in case progress of
            SBeginSnapshot \<Rightarrow> if current = Planned then begin_split_snapshot i c else otherwise
          | SSnapshotReady barrier \<Rightarrow>
              if current = Snapshotting then split_snapshot_ready i barrier c else otherwise
          | SReplay sequence \<Rightarrow> if current = CatchingUp then record_split_replay i sequence c else otherwise
          | SPrepare \<Rightarrow> if current = CatchingUp then prepare_split i c else otherwise
          | SBeginFencing \<Rightarrow> if current = Prepared then begin_split_fencing i c else otherwise
          | SFenced sequence \<Rightarrow> if current = Fencing then split_fenced i sequence c else otherwise
          | SReplicaInstalled node \<Rightarrow>
              if current = Installing then record_split_installed i node c else otherwise
          | SCommit \<Rightarrow> if current = Installing then commit_split i c else otherwise
          | SBeginCleanup \<Rightarrow> if current = Committed then begin_split_cleanup i c else otherwise
          | SReplicaCleaned node \<Rightarrow>
              if current = Cleaning then record_split_cleaned i node c else otherwise
          | SComplete \<Rightarrow> if current = Cleaning then complete_split i c else otherwise
          | SAbort reason \<Rightarrow> if phase_may_abort current then abort_operation i reason c else otherwise)"

fun transfer_rank :: "operation_phase \<Rightarrow> nat" where
  "transfer_rank Planned = 0"
| "transfer_rank Snapshotting = 1"
| "transfer_rank CatchingUp = 2"
| "transfer_rank Prepared = 3"
| "transfer_rank Fencing = 4"
| "transfer_rank Committed = 5"
| "transfer_rank Cleaning = 6"
| "transfer_rank Complete = 7"
| "transfer_rank Aborted = 8"
| "transfer_rank Installing = 2"

fun transfer_target :: "transfer_progress \<Rightarrow> operation_phase" where
  "transfer_target TBeginSnapshot = Snapshotting"
| "transfer_target (TSnapshotInstalled _ _) = CatchingUp"
| "transfer_target (TCatchUp _ _) = CatchingUp"
| "transfer_target TPrepare = Prepared"
| "transfer_target TBeginFencing = Fencing"
| "transfer_target (TFinalLsn _ _) = Fencing"
| "transfer_target (TRestartFencedSource _ _) = Fencing"
| "transfer_target (TFencedBootstrap _ _) = Fencing"
| "transfer_target (TFencedCatchUp _ _) = Fencing"
| "transfer_target TCommit = Committed"
| "transfer_target TBeginCleanup = Cleaning"
| "transfer_target TComplete = Complete"
| "transfer_target (TAbort _) = Aborted"

definition transfer_progress_already_applied :: "operation_phase \<Rightarrow> transfer_progress \<Rightarrow> bool" where
  "transfer_progress_already_applied phase progress \<longleftrightarrow>
     (if phase = Aborted then (case progress of TAbort _ \<Rightarrow> True | _ \<Rightarrow> False)
      else transfer_rank (transfer_target progress) \<le> transfer_rank phase)"

definition apply_transfer :: "u64 \<Rightarrow> transfer_progress \<Rightarrow> catalog \<Rightarrow> catalog result" where
  "apply_transfer i progress c =
     and_then (ok_or (bt_get (ca_operations c) i) (ClusterConfig ''operation does not exist'')) (\<lambda>op.
       let current = op_phase op;
           otherwise = (if transfer_progress_already_applied current progress then Inr c
                        else Inl (ClusterConfig ''transfer command is stale or out of order''))
       in case progress of
            TBeginSnapshot \<Rightarrow> if current = Planned then begin_snapshot i c else otherwise
          | TSnapshotInstalled epoch l \<Rightarrow>
              if current = Snapshotting then snapshot_installed i epoch l c else otherwise
          | TCatchUp epoch l \<Rightarrow> if current = CatchingUp then record_catch_up i epoch l c else otherwise
          | TPrepare \<Rightarrow> if current = CatchingUp then prepare_transfer i c else otherwise
          | TBeginFencing \<Rightarrow> if current = Prepared then begin_fencing i c else otherwise
          | TFinalLsn epoch l \<Rightarrow> if current = Fencing then record_final_lsn i epoch l c else otherwise
          | TRestartFencedSource epoch l \<Rightarrow>
              if current = Fencing then restart_fenced_stream i epoch l c else otherwise
          | TFencedBootstrap epoch l \<Rightarrow>
              if current = Fencing then record_fenced_bootstrap i epoch l c else otherwise
          | TFencedCatchUp epoch l \<Rightarrow>
              if current = Fencing then record_fenced_catch_up i epoch l c else otherwise
          | TCommit \<Rightarrow> if current = Fencing then commit_transfer i c else otherwise
          | TBeginCleanup \<Rightarrow> if current = Committed then begin_cleanup i c else otherwise
          | TComplete \<Rightarrow> if current = Cleaning then complete_transfer i c else otherwise
          | TAbort reason \<Rightarrow> if phase_may_abort current then abort_operation i reason c else otherwise)"

section \<open>Commands\<close>

datatype catalog_command =
    CmdJoin "cluster_id option" compatibility node_id u64 string
  | CmdJoinWithToken string "cluster_id option" compatibility node_id u64 string
  | CmdCompleteJoin u64 u64
  | CmdRebalance
  | CmdTransfer u64 transfer_progress
  | CmdSplit u64 split_progress
  | CmdCordon node_id bool
  | CmdSetMemberPolicy node_id u32 "string option"
  | CmdSetScalingPolicy scaling_policy
  | CmdDrain node_id
  | CmdCompleteDrain u64
  | CmdRemove node_id
  | CmdBeginVoterChange "node_id set"
  | CmdFinalizeVoterChange

type_synonym command_output = "catalog \<times> u64 option \<times> rebalance_decision option"

definition report :: "catalog \<Rightarrow> u64 option \<Rightarrow> command_output result" where
  "report c operation = Inr (c, operation, None)"

definition find_operation :: "(catalog_operation \<Rightarrow> bool) \<Rightarrow> catalog \<Rightarrow> u64 option" where
  "find_operation p c = map_option op_id (find p (bt_values (ca_operations c)))"

definition join_operation_of :: "node_id \<Rightarrow> catalog \<Rightarrow> u64 option" where
  "join_operation_of node = find_operation (\<lambda>op. op_kind op = Join \<and> op_destination op = Some node)"

definition other_member :: "member \<Rightarrow> u64 \<Rightarrow> string \<Rightarrow> bool" where
  "other_member m incarnation address \<longleftrightarrow> mb_incarnation m \<noteq> incarnation \<or> mb_address m \<noteq> address"

definition admit ::
    "cluster_id option \<Rightarrow> compatibility \<Rightarrow> node_id \<Rightarrow> u64 \<Rightarrow> string \<Rightarrow> catalog \<Rightarrow> command_output result" where
  "admit local_cluster required node incarnation address c =
     and_then (start_join local_cluster required node incarnation address c) (\<lambda>(c, i). report c (Some i))"

definition apply_join ::
    "cluster_id option \<Rightarrow> compatibility \<Rightarrow> node_id \<Rightarrow> u64 \<Rightarrow> string \<Rightarrow> catalog \<Rightarrow> command_output result" where
  "apply_join local_cluster required node incarnation address c =
     (case bt_get (ca_members c) node of
        Some m \<Rightarrow>
          if other_member m incarnation address
          then Inl (ClusterConfig ''is already registered as incarnation'')
          else report c (join_operation_of node c)
      | None \<Rightarrow> admit local_cluster required node incarnation address c)"

definition apply_join_with_token ::
    "(string \<Rightarrow> digest) \<Rightarrow> (join_token_file \<Rightarrow> 'b list) \<Rightarrow> write_fault \<Rightarrow> u64 \<Rightarrow> string \<Rightarrow> cluster_id option \<Rightarrow>
     compatibility \<Rightarrow> node_id \<Rightarrow> u64 \<Rightarrow> string \<Rightarrow> catalog \<Rightarrow> 'b join_token_store \<Rightarrow>
     'b join_token_store \<times> command_output result" where
  "apply_join_with_token hash enc fault now token local_cluster required node incarnation address c st =
     (case validate_join c local_cluster required of
        Inl e \<Rightarrow> (st, Inl e)
      | Inr _ \<Rightarrow>
          (case bt_get (ca_members c) node of
             Some m \<Rightarrow>
               if other_member m incarnation address
               then (st, Inl (ClusterConfig ''is already registered as a different member''))
               else
                 (case tokens_consume hash enc fault now token st of
                    (st', r) \<Rightarrow> (st', and_then r (\<lambda>_. report c (join_operation_of node c))))
           | None \<Rightarrow>
               (case tokens_consume hash enc fault now token st of
                  (st', r) \<Rightarrow> (st', and_then r (\<lambda>_.
                    admit local_cluster required node incarnation address c)))))"

definition apply_complete_join :: "u64 \<Rightarrow> u64 \<Rightarrow> catalog \<Rightarrow> command_output result" where
  "apply_complete_join i version c =
     and_then (ok_or (bt_get (ca_operations c) i) (ClusterConfig ''operation does not exist'')) (\<lambda>op.
     and_then
       (if op_phase op \<noteq> Complete then
          and_then (record_join_catch_up i version c) (\<lambda>c.
          and_then (prepare_join i c) (\<lambda>c.
          and_then (commit_storage_join i c) (complete_join i)))
        else Inr c)
       (\<lambda>c. report c (Some i)))"

definition apply_rebalance :: "catalog \<Rightarrow> command_output result" where
  "apply_rebalance c =
     and_then (plan_next c) (\<lambda>(c, decision).
     and_then
       (case decision of
          TransferDecision shard _ _ _ \<Rightarrow>
            Inr (c, find_operation (\<lambda>op. op_kind op = Transfer \<and> op_shard op = Some shard \<and>
                       \<not> phase_terminal (op_phase op)) c)
        | Waiting i \<Rightarrow> Inr (c, Some i)
        | NeedsSplit _ _ \<Rightarrow> and_then (start_split c) (\<lambda>(c, i). Inr (c, Some i))
        | Balanced \<Rightarrow> Inr (c, None))
       (\<lambda>(c, operation). Inr (c, operation, Some decision)))"

definition apply_drain :: "node_id \<Rightarrow> catalog \<Rightarrow> command_output result" where
  "apply_drain node c =
     (case find_operation (\<lambda>op. op_kind op = Drain \<and> op_source op = Some node \<and>
             \<not> phase_terminal (op_phase op)) c of
        Some i \<Rightarrow> report c (Some i)
      | None \<Rightarrow> and_then (start_drain node c) (\<lambda>(c, i). report c (Some i)))"

definition apply_remove :: "node_id \<Rightarrow> catalog \<Rightarrow> command_output result" where
  "apply_remove node c =
     (case bt_get (ca_members c) node of
        Some m \<Rightarrow>
          if mb_role m = Voter
          then Inl (ClusterConfig ''remove the node from the voter set before removing membership'')
          else and_then (remove_member node c) (\<lambda>c. report c None)
      | None \<Rightarrow> and_then (remove_member node c) (\<lambda>c. report c None))"

fun apply_change ::
    "(string \<Rightarrow> digest) \<Rightarrow> (join_token_file \<Rightarrow> 'b list) \<Rightarrow> write_fault \<Rightarrow> u64 \<Rightarrow> catalog_command \<Rightarrow> catalog \<Rightarrow>
     'b join_token_store \<Rightarrow> 'b join_token_store \<times> command_output result" where
  "apply_change hash enc fault now (CmdJoin cluster required node incarnation address) c st =
     (st, apply_join cluster required node incarnation address c)"
| "apply_change hash enc fault now (CmdJoinWithToken token cluster required node incarnation address) c st =
     apply_join_with_token hash enc fault now token cluster required node incarnation address c st"
| "apply_change hash enc fault now (CmdCompleteJoin i version) c st = (st, apply_complete_join i version c)"
| "apply_change hash enc fault now CmdRebalance c st = (st, apply_rebalance c)"
| "apply_change hash enc fault now (CmdTransfer i progress) c st =
     (st, and_then (apply_transfer i progress c) (\<lambda>c. report c (Some i)))"
| "apply_change hash enc fault now (CmdSplit i progress) c st =
     (st, and_then (apply_split i progress c) (\<lambda>c. report c (Some i)))"
| "apply_change hash enc fault now (CmdCordon node cordoned) c st =
     (st, and_then (set_member_state node (if cordoned then Cordoned else Active) c) (\<lambda>c. report c None))"
| "apply_change hash enc fault now (CmdSetMemberPolicy node weight domain) c st =
     (st, and_then (set_member_policy node weight domain c) (\<lambda>c. report c None))"
| "apply_change hash enc fault now (CmdSetScalingPolicy policy) c st =
     (st, and_then (set_scaling_policy policy c) (\<lambda>c. report c None))"
| "apply_change hash enc fault now (CmdDrain node) c st = (st, apply_drain node c)"
| "apply_change hash enc fault now (CmdCompleteDrain i) c st =
     (st, and_then (complete_drain i c) (\<lambda>c. report c (Some i)))"
| "apply_change hash enc fault now (CmdRemove node) c st = (st, apply_remove node c)"
| "apply_change hash enc fault now (CmdBeginVoterChange voters) c st =
     (st, and_then (begin_voter_change voters c) (\<lambda>c. report c None))"
| "apply_change hash enc fault now CmdFinalizeVoterChange c st =
     (st, and_then (finalize_voter_change c) (\<lambda>c. report c None))"

text \<open>The two retries \<^verbatim>\<open>apply\<close> answers without a new catalog value.\<close>

definition already_applied :: "catalog_command \<Rightarrow> catalog \<Rightarrow> bool" where
  "already_applied cmd c \<longleftrightarrow>
     (case cmd of
        CmdBeginVoterChange voters \<Rightarrow>
          (case ca_voter_transition c of Some t \<Rightarrow> vt_new t = voters | None \<Rightarrow> False)
      | CmdFinalizeVoterChange \<Rightarrow> ca_voter_transition c = None
      | _ \<Rightarrow> False)"

end
