(* ===== verification/Catalog_Safety.thy ===== *)
theory Catalog_Safety
  imports Control
begin

text \<open>
  What every command does to the catalog. The first part says, for each field that matters, which
  commands change it and how; the properties of ownership, voters and operations follow from these
  frames.
\<close>

section \<open>Frames\<close>

lemma update_operation_frame [simp]:
  "ca_placements (update_operation i f c) = ca_placements c"
  "ca_members (update_operation i f c) = ca_members c"
  "ca_routing (update_operation i f c) = ca_routing c"
  "ca_routing_epoch (update_operation i f c) = ca_routing_epoch c"
  "ca_voter_transition (update_operation i f c) = ca_voter_transition c"
  "ca_cluster_id (update_operation i f c) = ca_cluster_id c"
  "ca_compatibility (update_operation i f c) = ca_compatibility c"
  "ca_version (update_operation i f c) = ca_version c"
  "ca_next_operation_id (update_operation i f c) = ca_next_operation_id c"
  "ca_operations (update_operation i f c) = bt_adjust i f (ca_operations c)"
  by (simp_all add: update_operation_def)

lemma operation_in_Inr_iff [result_simps]:
  "operation_in i kind phase c = Inr op \<longleftrightarrow>
     bt_get (ca_operations c) i = Some op \<and> op_kind op = kind \<and> op_phase op = phase"
  by (auto simp: operation_in_def result_simps split: if_splits)

lemma transition_Inr_iff [result_simps]:
  "transition i kind p q c = Inr c' \<longleftrightarrow>
     (\<exists>op. bt_get (ca_operations c) i = Some op \<and> op_kind op = kind \<and> op_phase op = p) \<and>
     c' = update_operation i (set_phase q) c"
  by (auto simp: transition_def result_simps)

lemma expect_some_Inr_iff [result_simps]: "expect_some why x = Inr v \<longleftrightarrow> x = Some v"
  by (simp add: expect_some_def result_simps)

lemma with_member_Inr_iff [result_simps]:
  "with_member n f c = Inr c' \<longleftrightarrow>
     bt_get (ca_members c) n \<noteq> None \<and> c' = c\<lparr>ca_members := bt_adjust n f (ca_members c)\<rparr>"
  by (auto simp: with_member_def result_simps)

lemma start_operation_Inr_iff [result_simps]:
  "start_operation kind shard source destination generation c = Inr (c', i) \<longleftrightarrow>
     \<not> (shard \<noteq> None \<and>
        list_ex (\<lambda>op. op_shard op = shard \<and> \<not> phase_terminal (op_phase op)) (bt_values (ca_operations c))) \<and>
     i = ca_next_operation_id c \<and> checked_add i 1 \<noteq> None \<and>
     c' = c\<lparr>ca_next_operation_id := i + 1,
            ca_operations := bt_insert i
              (new_operation i kind shard source destination generation (ca_version c)) (ca_operations c)\<rparr>"
  unfolding start_operation_def
  by (auto simp: result_simps checked_add_def Let_def split: if_splits)

lemmas transfer_defs = begin_snapshot_def snapshot_installed_def record_durable_def record_catch_up_def
  prepare_transfer_def begin_fencing_def record_final_lsn_def restart_fenced_stream_def
  record_fenced_bootstrap_def record_fenced_catch_up_def begin_cleanup_def abort_operation_def

lemmas split_defs = begin_split_snapshot_def split_snapshot_ready_def record_split_replay_def
  prepare_split_def begin_split_fencing_def split_fenced_def record_split_installed_def
  begin_split_cleanup_def record_split_cleaned_def complete_split_def abort_operation_def

text \<open>A step of a transfer other than the cutover and the cleanup changes the operation only.\<close>

definition same_operation :: "catalog_operation \<Rightarrow> catalog_operation \<Rightarrow> bool" where
  "same_operation a b \<longleftrightarrow> op_id b = op_id a \<and> op_kind b = op_kind a \<and> op_shard b = op_shard a \<and>
     op_source b = op_source a \<and> op_destination b = op_destination a \<and>
     op_expected_generation b = op_expected_generation a \<and>
     op_retain_source_replica b = op_retain_source_replica a \<and>
     op_routing_before b = op_routing_before a \<and> op_routing_after b = op_routing_after a \<and>
     op_split_required_nodes b = op_split_required_nodes a"

lemma same_operation_refl [simp]: "same_operation op op"
  by (simp add: same_operation_def)

lemma same_operation_trans: "same_operation a b \<Longrightarrow> same_operation b c \<Longrightarrow> same_operation a c"
  by (simp add: same_operation_def)

lemma same_operation_set_phase [simp]: "same_operation op (set_phase p op)"
  by (simp add: same_operation_def set_phase_def)

text \<open>The successor of a phase, by the kind of the operation; any phase before fencing may abort.\<close>

fun phase_succ :: "operation_kind \<Rightarrow> operation_phase \<Rightarrow> operation_phase option" where
  "phase_succ Transfer Planned = Some Snapshotting"
| "phase_succ Transfer Snapshotting = Some CatchingUp"
| "phase_succ Transfer CatchingUp = Some Prepared"
| "phase_succ Transfer Prepared = Some Fencing"
| "phase_succ Transfer Fencing = Some Committed"
| "phase_succ Transfer Committed = Some Cleaning"
| "phase_succ Transfer Cleaning = Some Complete"
| "phase_succ Split Planned = Some Snapshotting"
| "phase_succ Split Snapshotting = Some CatchingUp"
| "phase_succ Split CatchingUp = Some Prepared"
| "phase_succ Split Prepared = Some Fencing"
| "phase_succ Split Fencing = Some Installing"
| "phase_succ Split Installing = Some Committed"
| "phase_succ Split Committed = Some Cleaning"
| "phase_succ Split Cleaning = Some Complete"
| "phase_succ Join Planned = Some CatchingUp"
| "phase_succ Join CatchingUp = Some Prepared"
| "phase_succ Join Prepared = Some Committed"
| "phase_succ Join Committed = Some Complete"
| "phase_succ Drain Planned = Some Complete"
| "phase_succ _ _ = None"

definition phase_step :: "operation_kind \<Rightarrow> operation_phase \<Rightarrow> operation_phase \<Rightarrow> bool" where
  "phase_step kind p q \<longleftrightarrow> q = p \<or> phase_succ kind p = Some q \<or> (q = Aborted \<and> phase_may_abort p)"

lemma phase_step_refl [simp]: "phase_step kind p p"
  by (simp add: phase_step_def)

text \<open>One committed command moves an operation one phase on, or aborts it; completing a join takes it through all that are left.\<close>

definition phase_hop :: "operation_kind \<Rightarrow> operation_phase \<Rightarrow> operation_phase \<Rightarrow> bool" where
  "phase_hop kind p q \<longleftrightarrow> phase_step kind p q \<or> kind = Join \<and> p \<in> {Planned, CatchingUp} \<and> q = Complete"

lemma phase_hop_step [intro]: "phase_step kind p q \<Longrightarrow> phase_hop kind p q"
  by (simp add: phase_hop_def)

lemma phase_hop_refl [simp]: "phase_hop kind p p"
  by (simp add: phase_hop_def)

lemma phase_hop_steps:
  assumes "phase_hop kind p q"
  shows "(phase_step kind)\<^sup>*\<^sup>* p q"
proof -
  have "(phase_step Join)\<^sup>*\<^sup>* CatchingUp Complete"
    by (intro converse_rtranclp_into_rtranclp [of _ CatchingUp Prepared]
        converse_rtranclp_into_rtranclp [of _ Prepared Committed]
        converse_rtranclp_into_rtranclp [of _ Committed Complete]) (simp_all add: phase_step_def)
  moreover from this have "(phase_step Join)\<^sup>*\<^sup>* Planned Complete"
    by (rule converse_rtranclp_into_rtranclp [rotated]) (simp add: phase_step_def)
  ultimately show ?thesis using assms by (auto simp: phase_hop_def)
qed

lemma phase_step_terminal: "phase_step kind p q \<Longrightarrow> phase_terminal p \<Longrightarrow> q = p"
  by (cases kind) (auto simp: phase_step_def phase_terminal_def phase_may_abort_def)

definition updates_operation :: "u64 \<Rightarrow> catalog \<Rightarrow> catalog \<Rightarrow> bool" where
  "updates_operation i c c' \<longleftrightarrow>
     (\<exists>f op. bt_get (ca_operations c) i = Some op \<and> same_operation op (f op) \<and>
        phase_step (op_kind op) (op_phase op) (op_phase (f op)) \<and> op_phase (f op) \<noteq> Committed \<and>
        \<not> phase_terminal (op_phase op) \<and> c' = update_operation i f c)"

lemma updates_operationI:
  "bt_get (ca_operations c) i = Some op \<Longrightarrow> same_operation op (f op) \<Longrightarrow> \<not> phase_terminal (op_phase op) \<Longrightarrow>
   phase_step (op_kind op) (op_phase op) (op_phase (f op)) \<Longrightarrow> op_phase (f op) \<noteq> Committed \<Longrightarrow>
   updates_operation i c (update_operation i f c)"
  by (auto simp: updates_operation_def)

lemma apply_transfer_cases:
  assumes "apply_transfer i progress c = Inr c'"
  obtains (same) "c' = c"
    | (progress) "updates_operation i c c'"
    | (cutover) "progress = TCommit" "commit_transfer i c = Inr c'"
    | (cleanup) "progress = TComplete" "complete_transfer i c = Inr c'"
proof -
  have "c' = c \<or> updates_operation i c c' \<or> (progress = TCommit \<and> commit_transfer i c = Inr c') \<or>
     (progress = TComplete \<and> complete_transfer i c = Inr c')"
    using assms
    by (cases progress)
      (auto simp: apply_transfer_def Let_def result_simps transfer_defs phase_terminal_def phase_may_abort_def
        same_operation_def set_phase_def phase_step_def split: if_splits intro!: updates_operationI)
  then show thesis using same progress cutover cleanup by blast
qed

lemma apply_split_cases:
  assumes "apply_split i progress c = Inr c'"
  obtains (same) "c' = c"
    | (progress) "updates_operation i c c'"
    | (cutover) "progress = SCommit" "commit_split i c = Inr c'"
proof -
  have "c' = c \<or> updates_operation i c c' \<or> (progress = SCommit \<and> commit_split i c = Inr c')"
    using assms
    by (cases progress)
      (auto simp: apply_split_def Let_def result_simps split_defs phase_terminal_def phase_may_abort_def
        same_operation_def set_phase_def phase_step_def split: if_splits intro!: updates_operationI)
  then show thesis using same progress cutover by blast
qed

section \<open>Commands\<close>

text \<open>A command takes one catalog to another, whatever token ledger, clock and disk it meets.\<close>

definition command_yields :: "catalog_command \<Rightarrow> catalog \<Rightarrow> catalog \<Rightarrow> bool" where
  "command_yields cmd c c' \<longleftrightarrow>
     (\<exists>hash (enc :: join_token_file \<Rightarrow> bytes) fault now st out.
        snd (apply_change hash enc fault now cmd c st) = Inr (c', out))"

lemmas join_defs = admit_def apply_join_def apply_join_with_token_def apply_complete_join_def report_def
  start_join_def add_learner_def record_join_catch_up_def prepare_join_def commit_storage_join_def
  complete_join_def promote_def

lemmas member_defs = set_member_state_def set_member_policy_def set_scaling_policy_def apply_drain_def
  start_drain_def complete_drain_def apply_remove_def remove_member_def begin_voter_change_def
  finalize_voter_change_def

lemma admit_cases:
  assumes "admit cluster required node incarnation address c = Inr (c', out)"
    and "bt_get (ca_members c) node = None"
  shows "c' = c\<lparr>ca_members := bt_insert node (fresh_member node incarnation address Learner) (ca_members c),
      ca_next_operation_id := ca_next_operation_id c + 1,
      ca_operations := bt_insert (ca_next_operation_id c)
        (new_operation (ca_next_operation_id c) Join None None (Some node) None (ca_version c)) (ca_operations c)\<rparr>"
    "checked_add (ca_next_operation_id c) 1 \<noteq> None"
  using assms by (auto simp: join_defs result_simps split: if_splits option.splits prod.splits)

lemma apply_join_with_token_yields:
  assumes "snd (apply_join_with_token hash enc fault now token cluster required node incarnation address c st)
      = Inr (c', out)"
  shows "c' = c \<or> (bt_get (ca_members c) node = None \<and>
     admit cluster required node incarnation address c = Inr (c', out))"
  using assms
  by (auto simp: apply_join_with_token_def report_def result_simps split: sum.splits option.splits if_splits prod.splits)

lemma apply_join_yields:
  assumes "apply_join cluster required node incarnation address c = Inr (c', out)"
  shows "c' = c \<or> (bt_get (ca_members c) node = None \<and>
     admit cluster required node incarnation address c = Inr (c', out))"
  using assms by (auto simp: apply_join_def report_def split: option.splits if_splits)

lemma apply_complete_join_yields:
  assumes "apply_complete_join i version c = Inr (c', out)"
  shows "c' = c \<or> (\<exists>op d f. bt_get (ca_operations c) i = Some op \<and> op_kind op = Join \<and>
     (op_phase op = Planned \<or> op_phase op = CatchingUp) \<and> same_operation op (f op) \<and> op_phase (f op) = Complete \<and>
     op_destination op = Some d \<and> bt_get (ca_members c) d \<noteq> None \<and>
     c' = c\<lparr>ca_operations := bt_adjust i f (ca_operations c),
            ca_members := bt_adjust d (mb_role_update (\<lambda>_. Storage)) (ca_members c)\<rparr>)"
proof (cases "c' = c")
  case False
  then obtain op c1 c2 c3 where op: "bt_get (ca_operations c) i = Some op" "op_phase op \<noteq> Complete"
    and c1: "record_join_catch_up i version c = Inr c1" and c2: "prepare_join i c1 = Inr c2"
    and c3: "commit_storage_join i c2 = Inr c3" and c': "complete_join i c3 = Inr c'"
    using assms by (auto simp: apply_complete_join_def report_def result_simps split: if_splits)
  let ?v = "\<lambda>op. op\<lparr>op_catalog_version := Some version\<rparr>"
  from op c1 obtain g where g: "c1 = update_operation i g c" "op_kind op = Join"
      "op_phase op = Planned \<or> op_phase op = CatchingUp" "same_operation op (g op)"
    by (fastforce simp: record_join_catch_up_def result_simps update_operation_def same_operation_def
        set_phase_def split: if_splits)
  from c2 have c2': "c2 = update_operation i (set_phase Prepared) c1"
    by (auto simp: prepare_join_def result_simps split: if_splits)
  from c3 obtain op2 d where d: "bt_get (ca_operations c2) i = Some op2" "op_destination op2 = Some d"
      "bt_get (ca_members c2) d \<noteq> None"
      "c3 = update_operation i (set_phase Committed)
         (c2\<lparr>ca_members := bt_adjust d (mb_role_update (\<lambda>_. Storage)) (ca_members c2)\<rparr>)"
    by (auto simp: commit_storage_join_def promote_def result_simps)
  from c' have "c' = update_operation i (set_phase Complete) c3"
    by (auto simp: complete_join_def result_simps)
  then have "c' = c\<lparr>ca_operations :=
      bt_adjust i (\<lambda>op. set_phase Complete (set_phase Committed (set_phase Prepared (g op)))) (ca_operations c),
      ca_members := bt_adjust d (mb_role_update (\<lambda>_. Storage)) (ca_members c)\<rparr>"
    by (simp add: d c2' g(1) update_operation_def)
  moreover have "op_destination op = Some d" "bt_get (ca_members c) d \<noteq> None"
    using d(1-3) op(1) g by (auto simp: c2' g(1) same_operation_def set_phase_def)
  ultimately show ?thesis using op g
    by (intro disjI2 exI [of _ op] exI [of _ d]
        exI [of _ "\<lambda>op. set_phase Complete (set_phase Committed (set_phase Prepared (g op)))"])
      (auto simp: phase_terminal_def same_operation_def set_phase_def)
qed simp

lemma plan_next_yields:
  assumes "plan_next c = Inr (c1, decision)"
  shows "next_rebalance c = Inr decision"
    "case decision of TransferDecision s _ d _ \<Rightarrow> \<exists>i. start_transfer s d c = Inr (c1, i) | _ \<Rightarrow> c1 = c"
proof -
  from assms obtain d where d: "next_rebalance c = Inr d" by (auto simp: plan_next_def result_simps)
  with assms show "next_rebalance c = Inr decision"
    by (cases d) (auto simp: plan_next_def result_simps)
  from assms d show "case decision of TransferDecision s _ d _ \<Rightarrow> \<exists>i. start_transfer s d c = Inr (c1, i) | _ \<Rightarrow> c1 = c"
    by (cases d) (auto simp: plan_next_def result_simps)
qed

lemma apply_rebalance_yields:
  assumes "apply_rebalance c = Inr (c', out)"
  shows "c' = c \<or> (\<exists>s d i. start_transfer s d c = Inr (c', i)) \<or> (\<exists>i. start_split c = Inr (c', i))"
proof -
  from assms obtain c1 decision where p: "plan_next c = Inr (c1, decision)"
    by (auto simp: apply_rebalance_def result_simps)
  with assms plan_next_yields(2) [OF p] show ?thesis
    by (cases decision) (auto simp: apply_rebalance_def result_simps)
qed

lemma command_cases:
  assumes "command_yields cmd c c'"
  obtains (same) "c' = c"
    | (join) node m where "bt_get (ca_members c) node = None" "checked_add (ca_next_operation_id c) 1 \<noteq> None"
        "mb_node m = node" "mb_role m = Learner"
        "c' = c\<lparr>ca_members := bt_insert node m (ca_members c),
           ca_next_operation_id := ca_next_operation_id c + 1,
           ca_operations := bt_insert (ca_next_operation_id c)
             (new_operation (ca_next_operation_id c) Join None None (Some node) None (ca_version c))
             (ca_operations c)\<rparr>"
    | (joined) i op d f where "bt_get (ca_operations c) i = Some op" "op_kind op = Join"
        "op_phase op = Planned \<or> op_phase op = CatchingUp" "op_phase (f op) = Complete"
        "same_operation op (f op)" "op_destination op = Some d"
        "bt_get (ca_members c) d \<noteq> None"
        "c' = c\<lparr>ca_operations := bt_adjust i f (ca_operations c),
           ca_members := bt_adjust d (mb_role_update (\<lambda>_. Storage)) (ca_members c)\<rparr>"
    | (progress) i where "updates_operation i c c'"
    | (cutover) i where "commit_transfer i c = Inr c'"
    | (cleanup) i where "complete_transfer i c = Inr c'"
    | (split) i where "commit_split i c = Inr c'"
    | (start_transfer) s d i where "start_transfer s d c = Inr (c', i)"
    | (start_split) i where "start_split c = Inr (c', i)"
    | (member_state) n s where "cmd = CmdCordon n (s = Cordoned)" "set_member_state n s c = Inr c'"
    | (member_policy) n w d where "set_member_policy n w d c = Inr c'"
    | (scaling) p where "c' = c\<lparr>ca_scaling_policy := p\<rparr>"
    | (drain) n i where "start_drain n c = Inr (c', i)"
    | (removed) n where "remove_member n c = Inr c'"
    | (begin_change) V where "begin_voter_change V c = Inr c'"
    | (finalize) "finalize_voter_change c = Inr c'"
proof -
  from assms obtain hash and enc :: "join_token_file \<Rightarrow> bytes" and fault now st out
    where a: "snd (apply_change hash enc fault now cmd c st) = Inr (c', out)"
    by (auto simp: command_yields_def)
  have adm: thesis if "bt_get (ca_members c) node = None"
      "admit cluster required node incarnation address c = Inr (c', out)"
    for cluster required node incarnation address
    by (rule join [OF that(1) admit_cases(2) [OF that(2,1)] _ _ admit_cases(1) [OF that(2,1)]])
      (simp_all add: fresh_member_def)
  show thesis
  proof (cases cmd)
    case (CmdJoin cluster required node incarnation address)
    with a have "apply_join cluster required node incarnation address c = Inr (c', out)" by simp
    from apply_join_yields [OF this] show thesis using adm same by blast
  next
    case (CmdJoinWithToken token cluster required node incarnation address)
    with a have "snd (apply_join_with_token hash enc fault now token cluster required node incarnation address c st)
      = Inr (c', out)" by simp
    from apply_join_with_token_yields [OF this] show thesis using adm same by blast
  next
    case (CmdCompleteJoin i v)
    with a apply_complete_join_yields [of i v c c' out] joined same show thesis by auto
  next
    case CmdRebalance
    with a apply_rebalance_yields [of c c' out] same start_transfer start_split show thesis by auto
  next
    case (CmdTransfer i p)
    with a have "apply_transfer i p c = Inr c'" by (auto simp: report_def result_simps)
    then show thesis by (rule apply_transfer_cases) (use same progress cutover cleanup in auto)
  next
    case (CmdSplit i p)
    with a have "apply_split i p c = Inr c'" by (auto simp: report_def result_simps)
    then show thesis by (rule apply_split_cases) (use same progress split in auto)
  next
    case (CmdCordon n b)
    with a have "set_member_state n (if b then Cordoned else Active) c = Inr c'"
      by (auto simp: report_def result_simps)
    with CmdCordon show thesis by (intro member_state [of n "if b then Cordoned else Active"]) auto
  next
    case (CmdSetMemberPolicy n w d)
    with a member_policy show thesis by (auto simp: report_def result_simps)
  next
    case (CmdSetScalingPolicy p)
    with a scaling show thesis by (auto simp: report_def result_simps set_scaling_policy_def)
  next
    case (CmdDrain n)
    with a same drain show thesis by (auto simp: report_def result_simps apply_drain_def split: option.splits)
  next
    case (CmdCompleteDrain i)
    with a have "complete_drain i c = Inr c'" by (auto simp: report_def result_simps)
    then have "updates_operation i c c'"
      by (auto simp: complete_drain_def result_simps phase_terminal_def phase_step_def set_phase_def
          same_operation_def split: if_splits intro!: updates_operationI)
    then show thesis by (rule progress)
  next
    case (CmdRemove n)
    with a removed show thesis
      by (auto simp: report_def result_simps apply_remove_def split: option.splits if_splits)
  next
    case (CmdBeginVoterChange V)
    with a begin_change show thesis by (auto simp: report_def result_simps)
  next
    case CmdFinalizeVoterChange
    with a finalize show thesis by (auto simp: report_def result_simps)
  qed
qed

section \<open>What validation establishes\<close>

lemma validate_placement_facts:
  assumes "catalog_validate c = Inr ()" and "(s, p) \<in> set (ca_placements c)"
  shows "s < routing_shard_count (ca_routing c)" "bt_get (ca_members c) (rs_primary p) \<noteq> None"
    "rs_primary p \<notin> set (rs_replicas p)"
proof -
  have "check_all (validate_placement c) (ca_placements c) = Inr ()"
    using assms(1) by (auto simp: catalog_validate_def result_simps split: if_splits)
  then have v: "validate_placement c (s, p) = Inr ()" using assms(2) by (auto simp: check_all_ok_iff)
  then show "s < routing_shard_count (ca_routing c)" "bt_get (ca_members c) (rs_primary p) \<noteq> None"
    by (auto simp: validate_placement_def result_simps split: if_splits)
  from v have "check_all (validate_replica c p) (rs_replicas p) = Inr ()"
    by (auto simp: validate_placement_def result_simps split: if_splits)
  then show "rs_primary p \<notin> set (rs_replicas p)"
    by (auto simp: check_all_ok_iff validate_replica_def result_simps split: if_splits)
qed

lemma validate_operations_ok:
  assumes "validate_operations c active ops = Inr ()" and "(i, op) \<in> set ops"
  shows "validate_by_kind c op = Inr ()" "op_id op = i"
  using assms by (induction c active ops rule: validate_operations.induct)
    (auto simp: result_simps split: if_splits option.splits)

lemma validate_operation_facts:
  assumes "catalog_validate c = Inr ()" and "bt_get (ca_operations c) i = Some op"
  shows "validate_by_kind c op = Inr ()" "op_id op = i"
  using assms validate_operations_ok [OF _ bt_get_mem [OF assms(2)], of c "{}"]
  by (auto simp: catalog_validate_def result_simps split: if_splits)

section \<open>Operations\<close>

text \<open>Operation ids are handed out in increasing order, so a new one never replaces an old one.\<close>

definition ids_fresh :: "catalog \<Rightarrow> bool" where
  "ids_fresh c \<longleftrightarrow> (\<forall>i. bt_mem (ca_operations c) i \<longrightarrow> i < ca_next_operation_id c)"

lemma checked_succ_less: "checked_add i 1 \<noteq> None \<Longrightarrow> i < i + (1 :: u64)"
  by (metis checked_succ_greater checked_add_Some_iff not_None_eq)

lemma bt_mem_get_iff: "bt_mem m k \<longleftrightarrow> bt_get m k \<noteq> None"
  by (simp add: bt_mem_def)

lemma command_operation:
  assumes "command_yields cmd c c'" and "ids_fresh c" and "bt_get (ca_operations c) i = Some op"
  obtains op' where "bt_get (ca_operations c') i = Some op'" "same_operation op op'"
    "phase_hop (op_kind op) (op_phase op) (op_phase op')"
    "op_kind op = Split \<and> op_phase op = Installing \<longrightarrow> op_phase op' = Installing \<or> commit_split i c = Inr c'"
proof -
  note found = that
  have keep: thesis if "bt_get (ca_operations c') i = bt_get (ca_operations c) i"
    using that assms(3) by (intro found [of op]) auto
  have adj: thesis if "ca_operations c' = bt_adjust j (set_phase q) (ca_operations c)"
      "i = j \<Longrightarrow> phase_step (op_kind op) (op_phase op) q"
      "i = j \<Longrightarrow> op_kind op = Split \<Longrightarrow> op_phase op = Installing \<Longrightarrow> commit_split i c = Inr c'" for j q
  proof (cases "i = j")
    case True
    then show thesis using that assms(3)
      by (intro found [of "set_phase q op"]) (auto simp: set_phase_def same_operation_def)
  next
    case False
    then show thesis using that(1) by (intro keep) simp
  qed
  have old: "i < ca_next_operation_id c" using assms(2,3) by (simp add: ids_fresh_def bt_mem_get_iff)
  from assms(1) show thesis
  proof (cases rule: command_cases)
    case (joined j jop d f)
    show thesis
    proof (cases "i = j")
      case True
      with joined assms(3) show thesis by (intro found [of "f op"]) (auto simp: phase_hop_def)
    qed (use joined in \<open>auto intro!: keep\<close>)
  next
    case (progress j)
    then obtain f jop where f: "bt_get (ca_operations c) j = Some jop" "same_operation jop (f jop)"
      "phase_step (op_kind jop) (op_phase jop) (op_phase (f jop))" "op_phase (f jop) \<noteq> Committed"
      "c' = update_operation j f c" by (auto simp: updates_operation_def)
    show thesis
    proof (cases "i = j")
      case True
      have "op_kind op = Split \<Longrightarrow> op_phase op = Installing \<Longrightarrow> op_phase (f op) = Installing"
        using f True assms(3) by (auto simp: phase_step_def phase_may_abort_def)
      then show thesis using f True assms(3) by (intro found [of "f op"]) auto
    qed (use f in \<open>auto intro!: keep\<close>)
  next
    case (cutover j)
    then have "ca_operations c' = bt_adjust j (set_phase Committed) (ca_operations c)"
        "\<exists>jop. bt_get (ca_operations c) j = Some jop \<and> op_kind jop = Transfer \<and> op_phase jop = Fencing"
      by (auto simp: commit_transfer_def result_simps split: if_splits)
    then show thesis using assms(3) by (intro adj [of j Committed]) (auto simp: phase_step_def)
  next
    case (cleanup j)
    then have "ca_operations c' = bt_adjust j (set_phase Complete) (ca_operations c)"
        "\<exists>jop. bt_get (ca_operations c) j = Some jop \<and> op_kind jop = Transfer \<and> op_phase jop = Cleaning"
      by (auto simp: complete_transfer_def result_simps split: if_splits)
    then show thesis using assms(3) by (intro adj [of j Complete]) (auto simp: phase_step_def)
  next
    case (split j)
    then have "ca_operations c' = bt_adjust j (set_phase Committed) (ca_operations c)"
        "\<exists>jop. bt_get (ca_operations c) j = Some jop \<and> op_kind jop = Split \<and> op_phase jop = Installing"
      by (auto simp: commit_split_def result_simps split: if_splits routing.splits)
    then show thesis using assms(3) split by (intro adj [of j Committed]) (auto simp: phase_step_def)
  next
    case (start_transfer t d j)
    then show thesis using old by (auto simp: start_transfer_def result_simps split: if_splits intro!: keep)
  next
    case (start_split j)
    then show thesis using old
      by (auto simp: start_split_def result_simps Let_def split: if_splits routing.splits intro!: keep)
  next
    case (drain n j)
    then show thesis using old by (auto simp: start_drain_def set_member_state_def result_simps split: if_splits intro!: keep)
  qed (use old in \<open>auto intro!: keep simp: member_defs result_simps Let_def split: if_splits option.splits\<close>)
qed

lemma ids_fresh_keep:
  "ids_fresh c \<Longrightarrow> ca_next_operation_id c' = ca_next_operation_id c \<Longrightarrow>
   (\<And>i. bt_mem (ca_operations c') i \<Longrightarrow> bt_mem (ca_operations c) i) \<Longrightarrow> ids_fresh c'"
  by (simp add: ids_fresh_def)

lemma ids_fresh_new:
  "ids_fresh c \<Longrightarrow> checked_add (ca_next_operation_id c) 1 \<noteq> None \<Longrightarrow>
   ca_next_operation_id c' = ca_next_operation_id c + 1 \<Longrightarrow>
   (\<And>i. bt_mem (ca_operations c') i \<Longrightarrow> i = ca_next_operation_id c \<or> bt_mem (ca_operations c) i) \<Longrightarrow> ids_fresh c'"
  unfolding ids_fresh_def by (metis checked_succ_less less_trans)

lemma command_ids_fresh:
  assumes "command_yields cmd c c'" and "ids_fresh c"
  shows "ids_fresh c'"
proof -
  note keep = ids_fresh_keep [OF assms(2)] and new = ids_fresh_new [OF assms(2)]
  from assms(1) show ?thesis
  proof (cases rule: command_cases)
    case (start_transfer s d i)
    then show ?thesis by (intro new) (auto simp: start_transfer_def result_simps split: if_splits)
  next
    case (start_split i)
    then show ?thesis
      by (intro new) (auto simp: start_split_def result_simps Let_def split: if_splits routing.splits)
  next
    case (drain n i)
    then show ?thesis
      by (intro new) (auto simp: start_drain_def set_member_state_def result_simps split: if_splits)
  next
    case (join node m)
    then show ?thesis by (intro new) auto
  qed (auto simp: updates_operation_def commit_transfer_def complete_transfer_def commit_split_def member_defs
     result_simps Let_def split: if_splits option.splits routing.splits intro!: keep)
qed

section \<open>Ownership\<close>

text \<open>
  One committed catalog after another: the command's catalog with the next version number, as
  \<^verbatim>\<open>CatalogStore::propose\<close> builds it, and validated.
\<close>

definition committed_step :: "catalog_command \<Rightarrow> catalog \<Rightarrow> catalog \<Rightarrow> bool" where
  "committed_step cmd c c' \<longleftrightarrow>
     (\<exists>c1 v. command_yields cmd c c1 \<and> checked_add (ca_version c1) 1 = Some v \<and>
        c' = c1\<lparr>ca_version := v\<rparr> \<and> catalog_validate c' = Inr ())"

definition catalog_next :: "catalog \<Rightarrow> catalog \<Rightarrow> bool" where
  "catalog_next c c' \<longleftrightarrow> catalog_validate c = Inr () \<and> (\<exists>cmd. committed_step cmd c c')"

text \<open>A cutover: what the operation must have recorded, and the placement it leaves.\<close>

definition cutover_of :: "catalog \<Rightarrow> shard_id \<Rightarrow> replica_set \<Rightarrow> replica_set \<Rightarrow> bool" where
  "cutover_of c s p p' \<longleftrightarrow>
     (\<exists>i op final. bt_get (ca_operations c) i = Some op \<and> op_kind op = Transfer \<and>
        op_phase op = Fencing \<and> op_shard op = Some s \<and> op_source op = Some (rs_primary p) \<and>
        op_destination op = Some (rs_primary p') \<and> op_expected_generation op = Some (rs_generation p) \<and>
        op_snapshot_lsn op \<noteq> None \<and> op_final_lsn op = Some final \<and>
        final \<le> or_zero (op_durable_lsn op) \<and>
        unat (rs_generation p') = Suc (unat (rs_generation p)) \<and>
        p' = handed_over (rs_generation p') (rs_primary p) (rs_primary p') p)"

lemma commit_transfer_yields:
  assumes "commit_transfer i c = Inr c'"
  obtains s p p' where "bt_get (ca_placements c) s = Some p" "cutover_of c s p p'"
    "bt_get (ca_placements c') s = Some p'" "\<And>t. t \<noteq> s \<Longrightarrow> bt_get (ca_placements c') t = bt_get (ca_placements c) t"
proof -
  from assms obtain op s src dst g fl p ng where
    f: "bt_get (ca_operations c) i = Some op" "op_kind op = Transfer" "op_phase op = Fencing"
      "op_shard op = Some s" "op_source op = Some src" "op_destination op = Some dst"
      "op_expected_generation op = Some g" "op_snapshot_lsn op \<noteq> None" "op_final_lsn op = Some fl"
      "\<not> or_zero (op_durable_lsn op) < fl" "bt_get (ca_placements c) s = Some p"
      "rs_generation p = g" "rs_primary p = src" "checked_add (rs_generation p) 1 = Some ng"
    and c': "c' = update_operation i (set_phase Committed)
        (c\<lparr>ca_placements := bt_adjust s (handed_over ng src dst) (ca_placements c)\<rparr>)"
    by (auto simp: commit_transfer_def result_simps split: if_splits)
  let ?p' = "handed_over ng src dst p"
  have p': "rs_primary ?p' = dst" "rs_generation ?p' = ng" by (simp_all add: handed_over_def Let_def)
  have "unat ng = Suc (unat g)" using unat_checked_add [OF f(14)] f(12) by simp
  then have "cutover_of c s p ?p'" unfolding cutover_of_def
    using f p' by (intro exI [of _ i] exI [of _ op] exI [of _ fl]) (auto simp: not_less)
  then show thesis using that [of s p ?p'] f(11) by (simp add: c')
qed

lemma complete_transfer_yields:
  assumes "complete_transfer i c = Inr c'"
  shows "ca_placements c' = ca_placements c \<or>
    (\<exists>op s. bt_get (ca_operations c) i = Some op \<and> op_kind op = Transfer \<and> op_phase op = Cleaning \<and>
       op_shard op = Some s \<and> \<not> op_retain_source_replica op \<and>
       ca_placements c' = bt_adjust s (drop_replica (op_source op)) (ca_placements c))"
proof -
  from assms obtain op where op: "bt_get (ca_operations c) i = Some op" "op_kind op = Transfer" "op_phase op = Cleaning"
    by (auto simp: complete_transfer_def result_simps)
  with assms show ?thesis
    by (cases "op_retain_source_replica op") (auto simp: complete_transfer_def result_simps)
qed

lemma commit_split_yields:
  assumes "commit_split i c = Inr c'"
  obtains op s owner g before p where "bt_get (ca_operations c) i = Some op" "op_kind op = Split"
      "op_phase op = Installing" "op_shard op = Some s" "op_source op = Some owner"
      "op_expected_generation op = Some g" "op_routing_before op = Some (LinearV1 before)"
      "op_routing_after op = Some (ca_routing c')" "ca_routing c = LinearV1 before"
      "op_split_required_nodes op \<subseteq> op_split_installed_nodes op"
      "bt_get (ca_placements c) s = Some p" "rs_primary p = owner" "rs_generation p = g"
      "ca_placements c' = bt_insert (split_destination before)
        \<lparr>rs_generation = 1, rs_primary = owner,
         rs_replicas = filter (\<lambda>n. n \<noteq> owner) (sorted_list_of_set (op_split_required_nodes op))\<rparr>
        (ca_placements c)"
      "ca_operations c' = bt_adjust i (set_phase Committed) (ca_operations c)"
      "ca_members c' = ca_members c" "ca_voter_transition c' = ca_voter_transition c"
  using assms that by (auto simp: commit_split_def result_simps split: if_splits routing.splits)

lemma start_transfer_yields:
  assumes "start_transfer s d c = Inr (c', i)"
  obtains p m where "bt_get (ca_placements c) s = Some p" "bt_get (ca_members c) d = Some m"
      "may_receive_placement m" "rs_primary p \<noteq> d"
      "\<And>j. bt_get (ca_operations c') j = (if j = i then
         Some ((new_operation i Transfer (Some s) (Some (rs_primary p)) (Some d) (Some (rs_generation p))
           (ca_version c))\<lparr>op_retain_source_replica := d \<in> set (rs_replicas p)\<rparr>)
         else bt_get (ca_operations c) j)"
      "ca_placements c' = ca_placements c" "ca_members c' = ca_members c" "ca_routing c' = ca_routing c"
      "ca_voter_transition c' = ca_voter_transition c"
  using assms by (auto simp: start_transfer_def result_simps split: if_splits intro!: that)

lemma start_split_yields:
  assumes "start_split c = Inr (c', i)"
  obtains l l' p op where "ca_routing c = LinearV1 l" "grown l = Inr l'"
      "bt_get (ca_placements c) (split_source l) = Some p" "\<not> bt_mem (ca_placements c) (split_destination l)"
      "bt_get (ca_operations c') i = Some op" "op_kind op = Split" "op_phase op = Planned"
      "op_shard op = Some (split_source l)" "op_routing_before op = Some (ca_routing c)"
      "op_routing_after op = Some (LinearV1 l')"
      "\<And>j. j \<noteq> i \<Longrightarrow> bt_get (ca_operations c') j = bt_get (ca_operations c) j"
      "ca_placements c' = ca_placements c" "ca_members c' = ca_members c" "ca_routing c' = ca_routing c"
      "ca_voter_transition c' = ca_voter_transition c"
proof -
  from assms obtain l l' p c1 where f: "ca_routing c = LinearV1 l" "grown l = Inr l'"
      "bt_get (ca_placements c) (split_source l) = Some p" "\<not> bt_mem (ca_placements c) (split_destination l)"
    and c1: "start_operation Split (Some (split_source l)) (Some (rs_primary p)) (Some (rs_primary p))
      (Some (rs_generation p)) c = Inr (c1, i)"
    and c': "c' = update_operation i (\<lambda>op. op\<lparr>op_routing_before := Some (ca_routing c),
      op_routing_after := Some (LinearV1 l'),
      op_split_required_nodes := insert (rs_primary p) (set (rs_replicas p))\<rparr>) c1"
    by (auto simp: start_split_def result_simps Let_def simp del: start_operation_Inr_iff
        split: if_splits routing.splits)
  from c1 show thesis
    by (auto simp: c' start_operation_Inr_iff new_operation_def intro!: that [OF f])
qed

text \<open>What one command does to the placement of a shard.\<close>

definition same_owner :: "replica_set \<Rightarrow> replica_set \<Rightarrow> bool" where
  "same_owner p p' \<longleftrightarrow> rs_generation p' = rs_generation p \<and> rs_primary p' = rs_primary p"

lemma same_owner_refl [simp]: "same_owner p p"
  by (simp add: same_owner_def)

lemma command_placement:
  assumes "command_yields cmd c c'" and "catalog_validate c = Inr ()" and "bt_get (ca_placements c) s = Some p"
  obtains p' where "bt_get (ca_placements c') s = Some p'" "same_owner p p' \<or> cutover_of c s p p'"
proof -
  note found = that
  have keep: thesis if "ca_placements c' = ca_placements c" using that assms(3) by (intro found [of p]) simp_all
  from assms(1) show thesis
  proof (cases rule: command_cases)
    case (cutover i)
    then show thesis
    proof (rule commit_transfer_yields)
      fix t q q' assume t: "bt_get (ca_placements c) t = Some q" "cutover_of c t q q'"
        "bt_get (ca_placements c') t = Some q'"
        "\<And>u. u \<noteq> t \<Longrightarrow> bt_get (ca_placements c') u = bt_get (ca_placements c) u"
      then show thesis using assms(3) by (cases "s = t") (auto intro: that)
    qed
  next
    case (cleanup i)
    from complete_transfer_yields [OF this] show thesis
    proof (elim disjE exE conjE keep)
      fix op t assume t: "ca_placements c' = bt_adjust t (drop_replica (op_source op)) (ca_placements c)"
      show thesis
        by (rule that [of "if s = t then drop_replica (op_source op) p else p"])
          (use assms(3) t in \<open>auto simp: same_owner_def drop_replica_def\<close>)
    qed
  next
    case (split i)
    then show thesis
    proof (rule commit_split_yields)
      fix op :: catalog_operation and owner before q
      assume r: "ca_routing c = LinearV1 before" and pl: "ca_placements c' = bt_insert (split_destination before)
        \<lparr>rs_generation = 1, rs_primary = owner,
         rs_replicas = filter (\<lambda>n. n \<noteq> owner) (sorted_list_of_set (op_split_required_nodes op))\<rparr>
        (ca_placements c)"
      have "s < split_destination before"
        using validate_placement_facts(1) [OF assms(2) bt_get_mem [OF assms(3)]] r
        by (simp add: split_destination_def linear_shard_count_def)
      then show thesis using assms(3) pl by (intro that [of p]) auto
    qed
  next
    case (start_transfer t d i)
    then show thesis by (rule start_transfer_yields) (rule keep)
  next
    case (start_split i)
    then show thesis by (rule start_split_yields) (rule keep)
  qed (auto intro!: keep simp: updates_operation_def member_defs result_simps Let_def split: if_splits option.splits)
qed

lemma catalog_next_placement:
  assumes "catalog_next c c'" and "bt_get (ca_placements c) s = Some p"
  obtains p' where "bt_get (ca_placements c') s = Some p'" "same_owner p p' \<or> cutover_of c s p p'"
  using assms command_placement unfolding catalog_next_def committed_step_def
  by (metis catalog.select_convs(10) catalog.surjective catalog.update_convs(3))

lemma cutover_replicas:
  assumes "cutover_of c s p p'"
  shows "set (rs_replicas p') = insert (rs_primary p) (set (rs_replicas p) - {rs_primary p'})"
proof -
  have "p' = handed_over (rs_generation p') (rs_primary p) (rs_primary p') p"
    using assms by (auto simp: cutover_of_def)
  then have "rs_replicas p' = rs_replicas (handed_over (rs_generation p') (rs_primary p) (rs_primary p') p)"
    by simp
  then show ?thesis by (auto simp: handed_over_def Let_def)
qed

lemma cutover_generation: "cutover_of c s p p' \<Longrightarrow> rs_generation p < rs_generation p'"
  by (auto simp: cutover_of_def word_less_nat_alt)

section \<open>A concrete cluster\<close>

text \<open>Two nodes and one shard, with a transfer of the shard in its fencing phase.\<close>

definition demo_operation :: catalog_operation where
  "demo_operation = (new_operation 5 Transfer (Some 0) (Some 1) (Some 2) (Some 3) 7)
     \<lparr>op_phase := Fencing, op_stream_epoch := Some 9, op_snapshot_lsn := Some 10, op_durable_lsn := Some 12,
      op_final_lsn := Some 12, op_retain_source_replica := True\<rparr>"

definition demo_catalog :: catalog where
  "demo_catalog =
     \<lparr>ca_format_version = CATALOG_FORMAT_VERSION, ca_cluster_id = 77, ca_version = 8, ca_routing_epoch = 1,
      ca_compatibility = compatibility_current 1 ''3.45'' 4096 (LinearV1 linear_ONE),
      ca_routing = LinearV1 linear_ONE, ca_scaling_policy = scaling_policy_default,
      ca_members = [(1, fresh_member 1 1 ''a'' Voter), (2, fresh_member 2 1 ''b'' Storage)],
      ca_voter_transition = None,
      ca_placements = [(0, \<lparr>rs_generation = 3, rs_primary = 1, rs_replicas = [2]\<rparr>)],
      ca_operations = [(5, demo_operation)], ca_next_operation_id = 6\<rparr>"

definition demo_after :: catalog where
  "demo_after = demo_catalog\<lparr>ca_version := 9,
     ca_placements := [(0, \<lparr>rs_generation = 4, rs_primary = 2, rs_replicas = [1]\<rparr>)],
     ca_operations := [(5, demo_operation\<lparr>op_phase := Committed\<rparr>)]\<rparr>"

lemma demo_linear: "linear_shard_count linear_ONE = 1"
  by (simp add: linear_shard_count_def linear_base_def linear_ONE_def)

lemma demo_valid: "catalog_validate demo_catalog = Inr ()" "catalog_validate demo_after = Inr ()"
  by (simp_all add: catalog_validate_def demo_after_def demo_catalog_def demo_operation_def new_operation_def
      scaling_policy_validate_def scaling_policy_default_def validate_member_def fresh_member_def
      validate_voter_transition_def validate_placement_def validate_replica_def validate_by_kind_def
      validate_transfer_def bt_values_def bt_get_Cons bt_mem_def demo_linear)

lemma demo_commit: "commit_transfer 5 demo_catalog = Inr (demo_after\<lparr>ca_version := 8\<rparr>)"
  by (simp add: commit_transfer_def operation_in_def expect_some_def update_operation_def set_phase_def
      demo_catalog_def demo_after_def demo_operation_def new_operation_def bt_get_Cons or_zero_def
      checked_add_def handed_over_def bt_adjust_def)

lemma demo_next: "catalog_next demo_catalog demo_after"
proof -
  have "snd (apply_change (\<lambda>_. 0) (\<lambda>_. [] :: bytes) WfOk 0 (CmdTransfer 5 TCommit) demo_catalog tokens_memory)
      = Inr (demo_after\<lparr>ca_version := 8\<rparr>, Some 5, None)"
    by (simp add: apply_transfer_def report_def demo_commit demo_catalog_def [THEN arg_cong [where f = ca_operations]]
      bt_get_Cons demo_operation_def)
  then have "command_yields (CmdTransfer 5 TCommit) demo_catalog (demo_after\<lparr>ca_version := 8\<rparr>)"
    unfolding command_yields_def by blast
  moreover have "demo_after = demo_after\<lparr>ca_version := 8, ca_version := 9\<rparr>" by (simp add: demo_after_def)
  ultimately have "committed_step (CmdTransfer 5 TCommit) demo_catalog demo_after"
    unfolding committed_step_def
    by (intro exI [of _ "demo_after\<lparr>ca_version := 8\<rparr>"] exI [of _ 9]) (simp add: demo_valid checked_add_def)
  then show ?thesis using demo_valid by (auto simp: catalog_next_def)
qed

text \<open>
  (C2) Ownership generations fence writes: along any sequence of committed catalog commands a shard
  keeps its placement, its generation never goes back, and two placements of the shard with the
  same generation name the same primary. So a node that holds a token of an old generation can
  never be mistaken for the owner.
\<close>

theorem generation_fixes_the_primary:
  assumes "catalog_next\<^sup>*\<^sup>* c c'" and "bt_get (ca_placements c) s = Some p"
  shows "\<exists>p'. bt_get (ca_placements c') s = Some p' \<and> rs_generation p \<le> rs_generation p' \<and>
    (rs_generation p' = rs_generation p \<longrightarrow> rs_primary p' = rs_primary p)"
  using assms(1)
proof (induction rule: rtranclp_induct)
  case (step c1 c2)
  then obtain p1 where p1: "bt_get (ca_placements c1) s = Some p1" "rs_generation p \<le> rs_generation p1"
    "rs_generation p1 = rs_generation p \<longrightarrow> rs_primary p1 = rs_primary p" by auto
  from step(2) p1(1) obtain p2 where p2: "bt_get (ca_placements c2) s = Some p2"
    "same_owner p1 p2 \<or> cutover_of c1 s p1 p2" by (rule catalog_next_placement)
  from p2(2) show ?case
  proof
    assume "cutover_of c1 s p1 p2"
    then have "rs_generation p < rs_generation p2" using cutover_generation p1(2) by fastforce
    then show ?thesis using p2(1) by (auto simp: less_imp_le)
  qed (use p1 p2 in \<open>auto simp: same_owner_def\<close>)
qed (use assms(2) in auto)

theorem generation_fixes_the_primary_witness:
  "\<exists>p'. bt_get (ca_placements demo_after) 0 = Some p' \<and> 3 \<le> rs_generation p' \<and>
    (rs_generation p' = 3 \<longrightarrow> rs_primary p' = 1)"
  using generation_fixes_the_primary [OF r_into_rtranclp [of catalog_next, OF demo_next], of 0
      "\<lparr>rs_generation = 3, rs_primary = 1, rs_replicas = [2]\<rparr>"]
  by (simp add: demo_catalog_def bt_get_Cons)

text \<open>
  (C3) The primary of a shard changes in one way only: by the cutover of a transfer that is in its
  fencing phase, whose source is the current primary at the current generation, and whose
  destination has reported a snapshot and a durable position at or past the final position of the
  fenced source. The generation grows by exactly one, and the old primary stays a replica until
  the cleanup.
\<close>

theorem primary_moves_only_by_fenced_cutover:
  assumes "catalog_next c c'" and "bt_get (ca_placements c) s = Some p"
    and "bt_get (ca_placements c') s = Some p'" and "rs_primary p' \<noteq> rs_primary p"
  shows "\<exists>i op final durable. bt_get (ca_operations c) i = Some op \<and> op_kind op = Transfer \<and>
      op_phase op = Fencing \<and> op_shard op = Some s \<and>
      op_source op = Some (rs_primary p) \<and> op_destination op = Some (rs_primary p') \<and>
      op_expected_generation op = Some (rs_generation p) \<and> op_snapshot_lsn op \<noteq> None \<and>
      op_final_lsn op = Some final \<and> or_zero (op_durable_lsn op) = durable \<and> final \<le> durable \<and>
      unat (rs_generation p') = Suc (unat (rs_generation p)) \<and> rs_primary p \<in> set (rs_replicas p')"
proof -
  have cut: "cutover_of c s p p'"
    by (rule catalog_next_placement [OF assms(1,2)]) (use assms(3,4) in \<open>auto simp: same_owner_def\<close>)
  then have "rs_primary p \<in> set (rs_replicas p')" by (simp add: cutover_replicas)
  with cut show ?thesis by (auto simp: cutover_of_def)
qed

theorem primary_moves_only_by_fenced_cutover_witness:
  "\<exists>i op. bt_get (ca_operations demo_catalog) i = Some op \<and> op_phase op = Fencing \<and> op_destination op = Some 2"
proof -
  have "bt_get (ca_placements demo_catalog) 0 = Some \<lparr>rs_generation = 3, rs_primary = 1, rs_replicas = [2]\<rparr>"
    and "bt_get (ca_placements demo_after) 0 = Some \<lparr>rs_generation = 4, rs_primary = 2, rs_replicas = [1]\<rparr>"
    by (simp_all add: demo_catalog_def demo_after_def bt_get_Cons)
  from primary_moves_only_by_fenced_cutover [OF demo_next this] show ?thesis by auto
qed

end
