(* ===== verification/Catalog_Limits.thy ===== *)
theory Catalog_Limits
  imports Catalog_Safety
begin

text \<open>
  Limits of the topology commands that follow from \<^verbatim>\<open>Catalog::validate\<close> keeping every finished
  operation under check and from the way replicas leave a placement: a second split can never
  commit, a member that took part in an operation can never be removed, and a draining node keeps
  the replicas it holds.
\<close>

section \<open>Along committed catalogs\<close>

lemma catalog_next_operation:
  assumes "catalog_next c c'" and "ids_fresh c" and "bt_get (ca_operations c) i = Some op"
  obtains op' where "bt_get (ca_operations c') i = Some op'" "same_operation op op'"
    "phase_hop (op_kind op) (op_phase op) (op_phase op')"
    "op_kind op = Split \<and> op_phase op = Installing \<longrightarrow>
       op_phase op' = Installing \<or> (\<exists>c1 v. commit_split i c = Inr c1 \<and> c' = c1\<lparr>ca_version := v\<rparr>)"
proof -
  from assms(1) obtain cmd c1 v where c1: "command_yields cmd c c1" "c' = c1\<lparr>ca_version := v\<rparr>"
    by (auto simp: catalog_next_def committed_step_def)
  from c1(1) assms(2,3) obtain op' where "bt_get (ca_operations c1) i = Some op'" "same_operation op op'"
    "phase_hop (op_kind op) (op_phase op) (op_phase op')"
    "op_kind op = Split \<and> op_phase op = Installing \<longrightarrow> op_phase op' = Installing \<or> commit_split i c = Inr c1"
    by (rule command_operation)
  then show thesis by (intro that [of op']) (auto simp: c1(2))
qed

lemma catalog_next_ids_fresh: "catalog_next c c' \<Longrightarrow> ids_fresh c \<Longrightarrow> ids_fresh c'"
  using command_ids_fresh by (fastforce simp: catalog_next_def committed_step_def ids_fresh_def)

lemma catalog_next_valid: "catalog_next c c' \<Longrightarrow> catalog_validate c' = Inr ()"
  by (auto simp: catalog_next_def committed_step_def)

lemma reachable_operation:
  assumes "catalog_next\<^sup>*\<^sup>* c c'" and "ids_fresh c" and "bt_get (ca_operations c) i = Some op"
  shows "ids_fresh c' \<and> (\<exists>op'. bt_get (ca_operations c') i = Some op' \<and> same_operation op op' \<and>
    (phase_step (op_kind op))\<^sup>*\<^sup>* (op_phase op) (op_phase op'))"
  using assms(1)
proof (induction rule: rtranclp_induct)
  case (step c1 c2)
  then obtain op1 where op1: "bt_get (ca_operations c1) i = Some op1" "same_operation op op1"
    "(phase_step (op_kind op))\<^sup>*\<^sup>* (op_phase op) (op_phase op1)" and fresh: "ids_fresh c1" by auto
  from step(2) fresh op1(1) obtain op2 where op2: "bt_get (ca_operations c2) i = Some op2"
    "same_operation op1 op2" "phase_hop (op_kind op1) (op_phase op1) (op_phase op2)"
    by (rule catalog_next_operation)
  have "op_kind op1 = op_kind op" using op1(2) by (simp add: same_operation_def)
  with op1 op2 phase_hop_steps [OF op2(3)] show ?case
    using catalog_next_ids_fresh [OF step(2) fresh] by (auto intro: same_operation_trans rtranclp_trans)
qed (use assms in auto)

lemma steps_never_abort:
  assumes "(phase_step k)\<^sup>*\<^sup>* p q" and "\<not> phase_may_abort p" and "p \<noteq> Aborted"
  shows "\<not> phase_may_abort q \<and> q \<noteq> Aborted"
  using assms(1)
proof (induction rule: rtranclp_induct)
  case (step q r)
  then show ?case by (cases k; cases q) (auto simp: phase_step_def phase_may_abort_def)
qed (use assms in simp)

lemma steps_terminal: "(phase_step k)\<^sup>*\<^sup>* p q \<Longrightarrow> phase_terminal p \<Longrightarrow> q = p"
  by (induction rule: rtranclp_induct) (auto dest: phase_step_terminal)

text \<open>
  (C13) Operations move forward, one phase at a time: along any sequence of committed commands an
  operation is never lost and keeps its kind, shard, source, destination and expected generation.
  Wherever it has got to, the next committed command leaves its phase, takes it to the next phase
  in the order of its kind, or aborts it from a phase before fencing; only the completion of a
  join, which is one command, goes through all the phases that are left. So no phase is skipped and
  none is gone back to, an operation that has reached fencing is never aborted, and one that is
  complete or aborted stays so.
\<close>

theorem operations_move_forward:
  assumes "catalog_next\<^sup>*\<^sup>* c c'" and "ids_fresh c" and "bt_get (ca_operations c) i = Some op"
  shows "\<exists>op'. bt_get (ca_operations c') i = Some op' \<and> same_operation op op' \<and>
    (phase_step (op_kind op))\<^sup>*\<^sup>* (op_phase op) (op_phase op') \<and>
    (\<not> phase_may_abort (op_phase op) \<and> op_phase op \<noteq> Aborted \<longrightarrow> op_phase op' \<noteq> Aborted) \<and>
    (phase_terminal (op_phase op) \<longrightarrow> op_phase op' = op_phase op) \<and>
    (\<forall>c'' op''. catalog_next c' c'' \<and> bt_get (ca_operations c'') i = Some op'' \<longrightarrow>
       op_phase op'' = op_phase op' \<or> phase_succ (op_kind op) (op_phase op') = Some (op_phase op'') \<or>
       op_phase op'' = Aborted \<and> phase_may_abort (op_phase op') \<or>
       op_kind op = Join \<and> op_phase op' \<in> {Planned, CatchingUp} \<and> op_phase op'' = Complete)"
proof -
  from reachable_operation [OF assms] obtain op' where fresh: "ids_fresh c'"
    and op': "bt_get (ca_operations c') i = Some op'" "same_operation op op'"
      "(phase_step (op_kind op))\<^sup>*\<^sup>* (op_phase op) (op_phase op')" by auto
  have kind: "op_kind op' = op_kind op" using op'(2) by (simp add: same_operation_def)
  have "phase_hop (op_kind op) (op_phase op') (op_phase op'')"
    if "catalog_next c' c''" "bt_get (ca_operations c'') i = Some op''" for c'' op''
    by (rule catalog_next_operation [OF that(1) fresh op'(1)]) (use that(2) kind in auto)
  then have "\<forall>c'' op''. catalog_next c' c'' \<and> bt_get (ca_operations c'') i = Some op'' \<longrightarrow>
       op_phase op'' = op_phase op' \<or> phase_succ (op_kind op) (op_phase op') = Some (op_phase op'') \<or>
       op_phase op'' = Aborted \<and> phase_may_abort (op_phase op') \<or>
       op_kind op = Join \<and> op_phase op' \<in> {Planned, CatchingUp} \<and> op_phase op'' = Complete"
    unfolding phase_hop_def phase_step_def by blast
  with op' steps_never_abort steps_terminal show ?thesis by blast
qed

section \<open>A second split\<close>

lemma grown_differs: "grown l = Inr l' \<Longrightarrow> l' \<noteq> l"
  by (cases l) (auto simp: grown_def Let_def result_simps linear_new_Inr_iff checked_add_Some_iff split: if_splits)

lemma validate_split_facts:
  assumes "catalog_validate c = Inr ()" and "bt_get (ca_operations c) i = Some op" and "op_kind op = Split"
  obtains before after where "op_routing_before op = Some (LinearV1 before)"
    "op_routing_after op = Some (LinearV1 after)" "grown before = Inr after"
    "split_committed op \<Longrightarrow> ca_routing c = LinearV1 after"
    "\<not> split_committed op \<Longrightarrow> op_phase op \<noteq> Aborted \<Longrightarrow> ca_routing c = LinearV1 before"
    "\<forall>n \<in> op_split_required_nodes op. finite (op_split_required_nodes op) \<longrightarrow> bt_mem (ca_members c) n"
proof -
  have v: "validate_split c op = Inr ()"
    using validate_operation_facts(1) [OF assms(1,2)] assms(3) by (simp add: validate_by_kind_def)
  then obtain before after where f: "op_routing_before op = Some (LinearV1 before)"
      "op_routing_after op = Some (LinearV1 after)"
    by (cases "op_routing_before op"; cases "op_routing_after op"; cases "the (op_routing_before op)";
        cases "the (op_routing_after op)") (auto simp: validate_split_def result_simps)
  with v have "grown before = Inr after" and p: "validate_split_phase c before after op = Inr ()"
    and q: "check_all (\<lambda>node. if bt_mem (ca_members c) node then Inr ()
      else Inl (ClusterConfig ''split operation requires missing node'')) (sorted_list_of_set (op_split_required_nodes op))
      = Inr ()"
    by (auto simp: validate_split_def result_simps Let_def split: if_splits)
  with f show thesis
    by (intro that [of before after])
      (auto simp: validate_split_phase_def check_all_ok_iff split: if_splits)
qed

lemma split_committed_steps:
  assumes "(phase_step k)\<^sup>*\<^sup>* p q" and "k = Split" and "p \<in> {Committed, Cleaning, Complete}"
  shows "q \<in> {Committed, Cleaning, Complete}"
  using assms(1)
proof (induction rule: rtranclp_induct)
  case (step q r)
  then show ?case using assms(2) by (auto simp: phase_step_def phase_may_abort_def)
qed (use assms(3) in simp)

definition split_stuck :: "u64 \<Rightarrow> u64 \<Rightarrow> catalog \<Rightarrow> bool" where
  "split_stuck j i c \<longleftrightarrow>
     (\<exists>done op. bt_get (ca_operations c) j = Some done \<and> op_kind done = Split \<and> split_committed done \<and>
        bt_get (ca_operations c) i = Some op \<and> op_kind op = Split \<and> op_phase op = Installing)"

lemma second_split_invalid:
  assumes "catalog_validate c = Inr ()" and "split_stuck j i c" and "commit_split i c = Inr c1"
  shows "catalog_validate (c1\<lparr>ca_version := v\<rparr>) \<noteq> Inr ()"
proof
  assume valid: "catalog_validate (c1\<lparr>ca_version := v\<rparr>) = Inr ()"
  from assms(2) obtain dn op where dn: "bt_get (ca_operations c) j = Some dn" "op_kind dn = Split" "split_committed dn"
    and op: "bt_get (ca_operations c) i = Some op" "op_kind op = Split" "op_phase op = Installing"
    by (auto simp: split_stuck_def)
  have "j \<noteq> i" using dn op by (auto simp: split_committed_def)
  from assms(3) obtain before where r: "ca_routing c = LinearV1 before"
      "op_routing_before op = Some (LinearV1 before)" "op_routing_after op = Some (ca_routing c1)"
      "ca_operations c1 = bt_adjust i (set_phase Committed) (ca_operations c)"
    by (rule commit_split_yields) (use op in auto)
  obtain after where after: "grown before = Inr after" "ca_routing c1 = LinearV1 after"
    by (rule validate_split_facts [OF assms(1) op(1,2)]) (use r in auto)
  obtain was where was: "op_routing_after dn = Some (LinearV1 was)" "ca_routing c = LinearV1 was"
    by (rule validate_split_facts [OF assms(1) dn(1,2)]) (use dn(3) in auto)
  have "bt_get (ca_operations (c1\<lparr>ca_version := v\<rparr>)) j = Some dn" using r(4) dn(1) \<open>j \<noteq> i\<close> by simp
  from validate_split_facts [OF valid this dn(2)] dn(3) was after(2)
  have "ca_routing c1 = LinearV1 was" by auto
  with was(2) r(1) after grown_differs show False by auto
qed

text \<open>
  (C19) Once one split has committed, a second one that reaches its installing phase is stuck for good.
  No later command can commit it, because the catalog that would result fails its validation (the
  finished split still demands the routing it left behind), and none can abort it. From then on
  the planner answers every rebalance request with \<^verbatim>\<open>Waiting\<close>, so no shard is ever moved again.
\<close>

theorem second_split_is_stuck:
  assumes "catalog_next\<^sup>*\<^sup>* c c'" and "ids_fresh c" and "catalog_validate c = Inr ()"
    and "bt_get (ca_operations c) j = Some first" and "op_kind first = Split" and "split_committed first"
    and "bt_get (ca_operations c) i = Some second" and "op_kind second = Split" and "op_phase second = Installing"
  shows "(\<exists>op. bt_get (ca_operations c') i = Some op \<and> op_phase op = Installing) \<and>
    (\<exists>k. next_rebalance c' = Inr (Waiting k))"
proof -
  have "split_stuck j i c' \<and> ids_fresh c' \<and> catalog_validate c' = Inr ()"
    using assms(1)
  proof (induction rule: rtranclp_induct)
    case base
    then show ?case using assms by (auto simp: split_stuck_def)
  next
    case (step c1 c2)
    then obtain dn op where dn: "bt_get (ca_operations c1) j = Some dn" "op_kind dn = Split" "split_committed dn"
      and op: "bt_get (ca_operations c1) i = Some op" "op_kind op = Split" "op_phase op = Installing"
      by (auto simp: split_stuck_def)
    have fresh: "ids_fresh c1" and valid2: "catalog_validate c2 = Inr ()"
      using step catalog_next_valid by auto
    from step(2) fresh dn(1) obtain dn' where dn': "bt_get (ca_operations c2) j = Some dn'"
      "same_operation dn dn'" "phase_hop (op_kind dn) (op_phase dn) (op_phase dn')"
      by (rule catalog_next_operation)
    have "split_committed dn'" using split_committed_steps [OF phase_hop_steps [OF dn'(3)]] dn(2,3) by (simp add: split_committed_def)
    moreover from step(2) fresh op(1) obtain op' where op': "bt_get (ca_operations c2) i = Some op'"
      "same_operation op op'" "op_phase op' = Installing \<or> (\<exists>c3 v. commit_split i c1 = Inr c3 \<and> c2 = c3\<lparr>ca_version := v\<rparr>)"
      by (rule catalog_next_operation) (use op in auto)
    moreover have "op_phase op' = Installing"
      using op'(3) second_split_invalid [of c1 j i] step valid2 by auto
    ultimately show ?case
      using dn(2) dn' op(2) valid2 catalog_next_ids_fresh [OF step(2) fresh]
      by (auto simp: split_stuck_def same_operation_def)
  qed
  then obtain op where op: "bt_get (ca_operations c') i = Some op" "op_kind op = Split" "op_phase op = Installing"
    by (auto simp: split_stuck_def)
  then have "op \<in> set (bt_values (ca_operations c'))" using bt_get_mem by (fastforce simp: bt_values_mem)
  with op have "find (\<lambda>op. (op_kind op = Transfer \<or> op_kind op = Split) \<and> \<not> phase_terminal (op_phase op))
      (bt_values (ca_operations c')) \<noteq> None"
    by (auto simp: find_None_all phase_terminal_def)
  with op show ?thesis by (auto simp: next_rebalance_def)
qed

definition demo_split :: "u64 \<Rightarrow> operation_phase \<Rightarrow> shard_id \<Rightarrow> linear_v1 \<Rightarrow> linear_v1 \<Rightarrow> catalog_operation" where
  "demo_split i phase source before after =
     (new_operation i Split (Some source) (Some 1) (Some 1) (Some 3) 4)
       \<lparr>op_phase := phase, op_snapshot_lsn := Some 5, op_durable_lsn := Some 6, op_final_lsn := Some 6,
        op_routing_before := Some (LinearV1 before), op_routing_after := Some (LinearV1 after),
        op_split_required_nodes := {1}, op_split_installed_nodes := {1}, op_split_cleaned_nodes := {1}\<rparr>"

definition demo_two :: linear_v1 where
  "demo_two = \<lparr>level = 1, split_pointer = 0\<rparr>"

definition demo_three :: linear_v1 where
  "demo_three = \<lparr>level = 1, split_pointer = 1\<rparr>"

definition demo_second_split :: catalog where
  "demo_second_split = demo_catalog
     \<lparr>ca_routing := LinearV1 demo_two,
      ca_placements := [(0, \<lparr>rs_generation = 3, rs_primary = 1, rs_replicas = []\<rparr>),
                        (1, \<lparr>rs_generation = 1, rs_primary = 1, rs_replicas = []\<rparr>)],
      ca_operations := [(2, demo_split 2 Complete 0 linear_ONE demo_two),
                        (3, demo_split 3 Installing 0 demo_two demo_three)]\<rparr>"

lemma two_not_le_one [simp]: "\<not> (2 :: u32) \<le> 1"
  by (simp add: word_le_nat_alt)

lemma demo_grown: "grown linear_ONE = Inr demo_two" "grown demo_two = Inr demo_three"
  by (simp_all add: grown_def linear_ONE_def demo_two_def demo_three_def linear_base_def checked_add_def
      linear_new_def base_for_def)

lemma demo_two_count: "linear_shard_count demo_two = 2" "split_source linear_ONE = 0" "split_source demo_two = 0"
  by (simp_all add: linear_shard_count_def demo_two_def linear_base_def linear_ONE_def split_source_def)

lemma demo_second_split_valid: "catalog_validate demo_second_split = Inr ()"
  by (simp add: catalog_validate_def demo_second_split_def demo_catalog_def demo_split_def new_operation_def
      scaling_policy_validate_def scaling_policy_default_def validate_member_def fresh_member_def
      validate_voter_transition_def validate_placement_def validate_by_kind_def validate_split_def
      validate_split_phase_def split_committed_def bt_values_def bt_get_Cons bt_mem_def demo_grown
      demo_two_count phase_terminal_def)

theorem second_split_is_stuck_witness:
  "(\<exists>op. bt_get (ca_operations demo_second_split) 3 = Some op \<and> op_phase op = Installing) \<and>
   (\<exists>k. next_rebalance demo_second_split = Inr (Waiting k))"
proof (rule second_split_is_stuck [OF rtranclp.rtrancl_refl _ demo_second_split_valid])
  show "bt_get (ca_operations demo_second_split) 2 = Some (demo_split 2 Complete 0 linear_ONE demo_two)"
    and "bt_get (ca_operations demo_second_split) 3 = Some (demo_split 3 Installing 0 demo_two demo_three)"
    and "ids_fresh demo_second_split"
    by (auto simp: demo_second_split_def demo_catalog_def bt_get_Cons ids_fresh_def bt_mem_def split: if_splits)
qed (simp_all add: demo_split_def new_operation_def split_committed_def)

section \<open>Removing a member\<close>

text \<open>The nodes an operation names, finished or not.\<close>

definition names_node :: "catalog_operation \<Rightarrow> node_id \<Rightarrow> bool" where
  "names_node op n \<longleftrightarrow>
     (case op_kind op of
        Transfer \<Rightarrow> op_source op = Some n \<or> op_destination op = Some n
      | Split \<Rightarrow> op_source op = Some n
      | Join \<Rightarrow> op_destination op = Some n
      | Drain \<Rightarrow> op_source op = Some n
      | Remove \<Rightarrow> False)"

lemma names_node_member:
  assumes "catalog_validate c = Inr ()" and "bt_get (ca_operations c) i = Some op" and "names_node op n"
  shows "bt_mem (ca_members c) n"
proof -
  have v: "validate_by_kind c op = Inr ()" by (rule validate_operation_facts(1) [OF assms(1,2)])
  show ?thesis
  proof (cases "op_kind op")
    case Split
    with v have s: "validate_split c op = Inr ()" by (simp add: validate_by_kind_def)
    then obtain before after where "op_routing_before op = Some (LinearV1 before)"
      "op_routing_after op = Some (LinearV1 after)"
      using validate_split_facts [OF assms(1,2) Split] by metis
    with s Split assms(3) show ?thesis
      by (auto simp: validate_split_def names_node_def result_simps Let_def split: if_splits)
  qed (use v assms(3) in \<open>auto simp: validate_by_kind_def names_node_def validate_transfer_def
      validate_join_operation_def validate_drain_def result_simps split: if_splits\<close>)
qed

lemma names_node_same: "same_operation op op' \<Longrightarrow> names_node op n \<Longrightarrow> names_node op' n"
  by (auto simp: same_operation_def names_node_def split: operation_kind.splits)

lemma remove_yields:
  assumes "command_yields (CmdRemove n) c c'"
  shows "\<not> bt_mem (ca_members c') n" "ca_operations c' = ca_operations c"
proof -
  have "remove_member n c = Inr c'"
    using assms by (auto simp: command_yields_def apply_remove_def report_def result_simps split: option.splits if_splits)
  then show "\<not> bt_mem (ca_members c') n" "ca_operations c' = ca_operations c"
    by (auto simp: remove_member_def result_simps split: if_splits)
qed

text \<open>
  (C20) A node that any operation names, even one finished long ago, can never be removed from the
  membership: in every catalog that follows, the removal command fails, because the catalog without
  the node does not validate. Every node admitted through a join is such a node, and so is every
  node that was drained to be removed.
\<close>

theorem operation_members_are_permanent:
  assumes "catalog_next\<^sup>*\<^sup>* c c'" and "ids_fresh c" and "bt_get (ca_operations c) i = Some op" and "names_node op n"
  shows "\<not> committed_step (CmdRemove n) c' c''"
proof
  assume "committed_step (CmdRemove n) c' c''"
  then obtain c1 v where c1: "command_yields (CmdRemove n) c' c1" and c'': "c'' = c1\<lparr>ca_version := v\<rparr>"
    and valid: "catalog_validate c'' = Inr ()" by (auto simp: committed_step_def)
  from reachable_operation [OF assms(1-3)] obtain op' where
    "bt_get (ca_operations c') i = Some op'" "same_operation op op'" by auto
  then have "bt_get (ca_operations c'') i = Some op'" "names_node op' n"
    using remove_yields(2) [OF c1] names_node_same assms(4) by (auto simp: c'')
  from names_node_member [OF valid this] show False using remove_yields(1) [OF c1] by (simp add: c'')
qed

lemma demo_ids_fresh: "ids_fresh demo_catalog"
  by (auto simp: ids_fresh_def bt_mem_def demo_catalog_def bt_get_Cons split: if_splits)

lemma demo_operation_get: "bt_get (ca_operations demo_catalog) 5 = Some demo_operation"
  by (simp add: demo_catalog_def bt_get_Cons)

lemma demo_reach: "catalog_next\<^sup>*\<^sup>* demo_catalog demo_after"
  using demo_next by (rule r_into_rtranclp [of catalog_next])

theorem operation_members_are_permanent_witness:
  "\<forall>c''. \<not> committed_step (CmdRemove 2) demo_after c''"
  using operation_members_are_permanent [OF demo_reach demo_ids_fresh demo_operation_get, of 2]
  by (simp add: names_node_def demo_operation_def new_operation_def)

section \<open>Draining a node that holds replicas\<close>

text \<open>The state that cannot be left: the node takes no new copies, holds one of the shard, and no
  unfinished transfer of the shard involves it.\<close>

definition replica_stuck :: "node_id \<Rightarrow> shard_id \<Rightarrow> catalog \<Rightarrow> bool" where
  "replica_stuck n s c \<longleftrightarrow>
     (\<exists>m. bt_get (ca_members c) n = Some m \<and> mb_state m \<noteq> Active) \<and>
     (\<exists>p. bt_get (ca_placements c) s = Some p \<and> n \<in> set (rs_replicas p)) \<and>
     (\<forall>i op. bt_get (ca_operations c) i = Some op \<and> op_kind op = Transfer \<and> op_shard op = Some s \<and>
        \<not> phase_terminal (op_phase op) \<longrightarrow> op_source op \<noteq> Some n \<and> op_destination op \<noteq> Some n)"

text \<open>Any committed command but the one that makes the node active again.\<close>

definition draining_next :: "node_id \<Rightarrow> catalog \<Rightarrow> catalog \<Rightarrow> bool" where
  "draining_next n c c' \<longleftrightarrow>
     catalog_validate c = Inr () \<and> (\<exists>cmd. cmd \<noteq> CmdCordon n False \<and> committed_step cmd c c')"

lemma finalized_role_frame [simp]:
  "mb_state (finalized_role V m) = mb_state m" "mb_node (finalized_role V m) = mb_node m"
  by (simp_all add: finalized_role_def)

lemma stuck_members:
  assumes "command_yields cmd c c'" and "cmd \<noteq> CmdCordon n False"
    and "bt_get (ca_members c) n = Some m" "mb_state m \<noteq> Active"
    and "bt_get (ca_placements c) s = Some p" "holds_copy n p"
  shows "\<exists>m'. bt_get (ca_members c') n = Some m' \<and> mb_state m' \<noteq> Active"
  using assms(1)
proof (cases rule: command_cases)
  case (removed k)
  have "p \<in> set (bt_values (ca_placements c))" using bt_get_mem [OF assms(5)] by (auto simp: bt_values_mem)
  then have "n \<noteq> k" using removed assms(6)
    by (auto simp: remove_member_def result_simps list_ex_iff split: if_splits)
  then show ?thesis using removed assms(3,4) by (auto simp: remove_member_def result_simps split: if_splits)
next
  case finalize
  then show ?thesis using assms(3,4)
    by (auto simp: finalize_voter_change_def result_simps)
next
  case (member_state k st)
  then show ?thesis using assms(2-4) by (cases "st = Active") (auto simp: set_member_state_def result_simps)
qed (use assms(3,4) in \<open>auto simp: updates_operation_def commit_transfer_def complete_transfer_def
   commit_split_def start_transfer_def start_split_def start_drain_def set_member_state_def set_member_policy_def
   begin_voter_change_def result_simps Let_def split: if_splits option.splits routing.splits\<close>)

lemma stuck_placement:
  assumes "command_yields cmd c c'" and "catalog_validate c = Inr ()" and "replica_stuck n s c"
  shows "\<exists>p. bt_get (ca_placements c') s = Some p \<and> n \<in> set (rs_replicas p)"
proof -
  from assms(3) obtain p where p: "bt_get (ca_placements c) s = Some p" "n \<in> set (rs_replicas p)"
    and ops: "\<And>i op. bt_get (ca_operations c) i = Some op \<Longrightarrow> op_kind op = Transfer \<Longrightarrow> op_shard op = Some s \<Longrightarrow>
      \<not> phase_terminal (op_phase op) \<Longrightarrow> op_source op \<noteq> Some n \<and> op_destination op \<noteq> Some n"
    by (auto simp: replica_stuck_def)
  from assms(1) show ?thesis
  proof (cases rule: command_cases)
    case (cutover i)
    then show ?thesis
    proof (rule commit_transfer_yields)
      fix t q q' assume t: "bt_get (ca_placements c) t = Some q" "cutover_of c t q q'"
        "bt_get (ca_placements c') t = Some q'"
        "\<And>u. u \<noteq> t \<Longrightarrow> bt_get (ca_placements c') u = bt_get (ca_placements c) u"
      show ?thesis
      proof (cases "t = s")
        case True
        then have "q = p" using t(1) p(1) by simp
        from t(2) True ops have "rs_primary q' \<noteq> n" by (auto simp: cutover_of_def phase_terminal_def)
        then have "n \<in> set (rs_replicas q')" using cutover_replicas [OF t(2)] p(2) \<open>q = p\<close> by auto
        then show ?thesis using t(3) True by auto
      qed (use t(4) p in auto)
    qed
  next
    case (cleanup i)
    from complete_transfer_yields [OF this] show ?thesis
    proof (elim disjE exE conjE)
      fix op t assume t: "bt_get (ca_operations c) i = Some op" "op_kind op = Transfer" "op_phase op = Cleaning"
        "op_shard op = Some t" "ca_placements c' = bt_adjust t (drop_replica (op_source op)) (ca_placements c)"
      show ?thesis
      proof (cases "t = s")
        case True
        then have "op_source op \<noteq> Some n" using ops [OF t(1,2)] t(3,4) by (simp add: phase_terminal_def)
        then show ?thesis using p t(5) True by (auto simp: drop_replica_def)
      qed (use p t(5) in auto)
    qed (use p in simp)
  next
    case (split i)
    obtain before r where "ca_routing c = LinearV1 before"
      and "ca_placements c' = bt_insert (split_destination before) r (ca_placements c)"
      by (rule commit_split_yields [OF split]) blast
    moreover from this have "s < split_destination before"
      using validate_placement_facts(1) [OF assms(2) bt_get_mem [OF p(1)]]
      by (simp add: split_destination_def linear_shard_count_def)
    ultimately show ?thesis using p by auto
  next
    case (start_transfer t d i)
    then show ?thesis by (rule start_transfer_yields) (use p in auto)
  next
    case (start_split i)
    then show ?thesis by (rule start_split_yields) (use p in auto)
  qed (use p in \<open>auto simp: updates_operation_def member_defs result_simps Let_def split: if_splits option.splits\<close>)
qed

lemma transfer_origin:
  assumes "command_yields cmd c c'" and "bt_get (ca_operations c') i = Some op'"
    and "op_kind op' = Transfer" "\<not> phase_terminal (op_phase op')"
  shows "(\<exists>op. bt_get (ca_operations c) i = Some op \<and> same_operation op op' \<and> \<not> phase_terminal (op_phase op)) \<or>
    (\<exists>s p d m. bt_get (ca_placements c) s = Some p \<and> bt_get (ca_members c) d = Some m \<and> may_receive_placement m \<and>
       op_shard op' = Some s \<and> op_source op' = Some (rs_primary p) \<and> op_destination op' = Some d)"
  using assms(1)
proof (cases rule: command_cases)
  case (start_transfer s d j)
  then show ?thesis by (rule start_transfer_yields)
    (use assms(2-) in \<open>auto simp: new_operation_def split: if_splits\<close>)
next
  case (start_split j)
  then show ?thesis
  proof (rule start_split_yields)
    fix l l' :: linear_v1 and op assume "bt_get (ca_operations c') j = Some op" "op_kind op = Split"
      "\<And>k. k \<noteq> j \<Longrightarrow> bt_get (ca_operations c') k = bt_get (ca_operations c) k"
    then show ?thesis using assms(2-) by (cases "i = j") auto
  qed
qed (use assms(2-) in \<open>auto simp: updates_operation_def commit_transfer_def complete_transfer_def commit_split_def
   start_drain_def member_defs new_operation_def set_phase_def same_operation_def phase_terminal_def result_simps
   Let_def split: if_splits option.splits routing.splits\<close>)

lemma stuck_step:
  assumes "draining_next n c c'" and "replica_stuck n s c"
  shows "replica_stuck n s c'"
proof -
  from assms(1) obtain cmd c1 v where cmd: "cmd \<noteq> CmdCordon n False" "command_yields cmd c c1"
    and c': "c' = c1\<lparr>ca_version := v\<rparr>" and valid: "catalog_validate c = Inr ()"
    by (auto simp: draining_next_def committed_step_def)
  from assms(2) obtain m p where m: "bt_get (ca_members c) n = Some m" "mb_state m \<noteq> Active"
    and p: "bt_get (ca_placements c) s = Some p" "n \<in> set (rs_replicas p)"
    by (auto simp: replica_stuck_def)
  have "rs_primary p \<noteq> n" using validate_placement_facts(3) [OF valid bt_get_mem [OF p(1)]] p(2) by auto
  have "op_source op \<noteq> Some n \<and> op_destination op \<noteq> Some n"
    if "bt_get (ca_operations c1) i = Some op" "op_kind op = Transfer" "op_shard op = Some s"
      "\<not> phase_terminal (op_phase op)" for i op
    using transfer_origin [OF cmd(2) that(1,2,4)]
  proof (elim disjE exE conjE)
    fix op0 assume "bt_get (ca_operations c) i = Some op0" "same_operation op0 op" "\<not> phase_terminal (op_phase op0)"
    then show ?thesis using assms(2) that(2,3) by (auto simp: replica_stuck_def same_operation_def)
  next
    fix t q d md assume "bt_get (ca_placements c) t = Some q" "bt_get (ca_members c) d = Some md"
      "may_receive_placement md" "op_shard op = Some t" "op_source op = Some (rs_primary q)" "op_destination op = Some d"
    then show ?thesis using that(3) p(1) \<open>rs_primary p \<noteq> n\<close> m by (auto simp: may_receive_placement_def)
  qed
  moreover have "holds_copy n p" using p(2) by (simp add: holds_copy_def)
  ultimately show ?thesis
    using stuck_members [OF cmd(2,1) m p(1)] stuck_placement [OF cmd(2) valid assms(2)]
    unfolding c' replica_stuck_def by auto
qed

text \<open>
  A drain never completes for a node that holds a replica. While the node stays cordoned or
  draining, whatever other commands are committed, it keeps the replica of a shard it holds (as long
  as no unfinished transfer of that shard involves it), and so the completion of its drain is
  refused. The planner moves primaries only; nothing moves a replica away.
\<close>

theorem drain_with_replica_never_completes:
  assumes "(draining_next n)\<^sup>*\<^sup>* c c'" and "replica_stuck n s c"
    and "bt_get (ca_operations c') i = Some op" and "op_kind op = Drain" and "op_source op = Some n"
  shows "complete_drain i c' = Inl (ClusterConfig ''refusing stale or out-of-order command'') \<or>
    complete_drain i c' = Inl (ClusterConfig ''drain operation cannot complete'')"
proof -
  from assms(1,2) have "replica_stuck n s c'"
    by (induction rule: rtranclp_induct) (auto intro: stuck_step)
  then obtain p where p: "bt_get (ca_placements c') s = Some p" "holds_copy n p"
    by (auto simp: replica_stuck_def holds_copy_def)
  then have "list_ex (holds_copy n) (bt_values (ca_placements c'))"
    using bt_get_mem [OF p(1)] by (force simp: list_ex_iff bt_values_def)
  then show ?thesis using assms(3-5) by (simp add: complete_drain_def operation_in_def expect_some_def)
qed

definition demo_drain :: catalog where
  "demo_drain = demo_catalog
     \<lparr>ca_members := [(1, fresh_member 1 1 ''a'' Voter), (2, (fresh_member 2 1 ''b'' Storage)\<lparr>mb_state := Draining\<rparr>)],
      ca_operations := [(5, new_operation 5 Drain None (Some 2) None None 7)]\<rparr>"

theorem drain_with_replica_never_completes_witness:
  "complete_drain 5 demo_drain = Inl (ClusterConfig ''refusing stale or out-of-order command'') \<or>
   complete_drain 5 demo_drain = Inl (ClusterConfig ''drain operation cannot complete'')"
proof (rule drain_with_replica_never_completes [OF rtranclp.rtrancl_refl])
  show "replica_stuck 2 0 demo_drain"
    by (simp add: replica_stuck_def demo_drain_def demo_catalog_def bt_get_Cons new_operation_def)
  show "bt_get (ca_operations demo_drain) 5 = Some (new_operation 5 Drain None (Some 2) None None 7)"
    by (simp add: demo_drain_def bt_get_Cons)
qed (simp_all add: new_operation_def)

theorem operations_move_forward_witness:
  "\<exists>op'. bt_get (ca_operations demo_after) 5 = Some op' \<and> op_phase op' \<noteq> Aborted"
  using operations_move_forward [OF demo_reach demo_ids_fresh demo_operation_get]
  by (auto simp: demo_operation_def phase_may_abort_def)

end
