(* ===== verification/Promotion.thy ===== *)
theory Promotion
  imports Fence
begin

text \<open>
  Who owns a shard's file: the marks of \<^verbatim>\<open>src/src/shard/mode.rs\<close>, the set of shards the replication
  loop follows (\<^verbatim>\<open>src/src/net/replica.rs\<close>), and the handover between them,
  \<^verbatim>\<open>src/src/cluster/promotion.rs\<close>. The order of the steps of a handover is its correctness
  argument, so a handover is a list of steps, run one at a time. Closing cached connections and
  waiting for the loop to rest depend on threads; their outcomes are arguments.
\<close>

section \<open>Ownership marks\<close>

datatype shard_mode = Led | Followed

record shard_modes =
  sm_modes :: "(shard_id, shard_mode) btree"
  sm_refused :: u64
  sm_closed_on_handover :: u64

definition modes_new :: shard_modes where
  "modes_new = \<lparr>sm_modes = [], sm_refused = 0, sm_closed_on_handover = 0\<rparr>"

definition modes_mode :: "shard_modes \<Rightarrow> shard_id \<Rightarrow> shard_mode" where
  "modes_mode m s = (case bt_get (sm_modes m) s of Some x \<Rightarrow> x | None \<Rightarrow> Led)"

definition modes_set :: "shard_id \<Rightarrow> shard_mode \<Rightarrow> shard_modes \<Rightarrow> shard_modes" where
  "modes_set s x m = m\<lparr>sm_modes := bt_insert s x (sm_modes m)\<rparr>"

definition record_handover :: "nat \<Rightarrow> shard_modes \<Rightarrow> shard_modes" where
  "record_handover closed m =
     (if closed > 0 then m\<lparr>sm_closed_on_handover := sm_closed_on_handover m + word_of_nat closed\<rparr> else m)"

definition check_may_open :: "shard_id \<Rightarrow> shard_modes \<Rightarrow> shard_modes \<times> unit result" where
  "check_may_open s m =
     (case modes_mode m s of
        Led \<Rightarrow> (m, Inr ())
      | Followed \<Rightarrow> (m\<lparr>sm_refused := sm_refused m + 1\<rparr>, Inl (ShardFollowed s)))"

section \<open>The handover\<close>

record handover =
  ho_fence :: fence
  ho_modes :: shard_modes
  ho_following :: "shard_id set"
  ho_shards :: "shard_id list"
  ho_paused :: bool
  ho_stop :: bool

text \<open>The outcomes of the waits: closing a shard's connections, the loop coming to rest in time.\<close>

record handover_env =
  he_quiesce :: "shard_id \<Rightarrow> nat result"
  he_settled :: bool

datatype handover_action =
    OpenGates "shard_id list" epoch_term
  | ManagerFollow shard_id
  | ReplicaFollow shard_id
  | Pause
  | WaitIdle
  | Unfollow shard_id
  | ManagerLead shard_id
  | Resume

fun handover_step :: "handover_env \<Rightarrow> handover_action \<Rightarrow> handover \<Rightarrow> handover \<times> unit result" where
  "handover_step env (OpenGates shards t) h =
     (h\<lparr>ho_fence := fence_open_for shards t (ho_fence h)\<rparr>, Inr ())"
| "handover_step env (ManagerFollow s) h =
     (let h = h\<lparr>ho_modes := modes_set s Followed (ho_modes h)\<rparr> in
      case he_quiesce env s of
        Inl e \<Rightarrow> (h, Inl e)
      | Inr closed \<Rightarrow> (h\<lparr>ho_modes := record_handover closed (ho_modes h)\<rparr>, Inr ()))"
| "handover_step env (ReplicaFollow s) h = (h\<lparr>ho_following := insert s (ho_following h)\<rparr>, Inr ())"
| "handover_step env Pause h = (h\<lparr>ho_paused := True\<rparr>, Inr ())"
| "handover_step env WaitIdle h =
     (if he_settled env then (h, Inr ()) else (h\<lparr>ho_paused := False\<rparr>, Inl PromotionBlocked))"
| "handover_step env (Unfollow s) h = (h\<lparr>ho_following := ho_following h - {s}\<rparr>, Inr ())"
| "handover_step env (ManagerLead s) h = (h\<lparr>ho_modes := modes_set s Led (ho_modes h)\<rparr>, Inr ())"
| "handover_step env Resume h = (h\<lparr>ho_paused := False\<rparr>, Inr ())"

text \<open>Running stops at the first error; the states passed through are kept.\<close>

fun run_steps :: "handover_env \<Rightarrow> handover_action list \<Rightarrow> handover \<Rightarrow> handover list \<times> handover \<times> unit result" where
  "run_steps env [] h = ([h], h, Inr ())"
| "run_steps env (s # ss) h =
     (case handover_step env s h of
        (h', Inl e) \<Rightarrow> ([h, h'], h', Inl e)
      | (h', Inr _) \<Rightarrow> (case run_steps env ss h' of (trace, h'', r) \<Rightarrow> (h # trace, h'', r)))"

definition losing :: "shard_id list \<Rightarrow> fence \<Rightarrow> shard_id list" where
  "losing lead f = filter (\<lambda>s. s \<notin> set lead) (fence_led_shards f)"

definition gaining :: "shard_id list \<Rightarrow> fence \<Rightarrow> shard_id list" where
  "gaining lead f = filter (\<lambda>s. \<not> fence_is_open f s) (sorted_list_of_set (set lead))"

definition apply_steps :: "shard_id list \<Rightarrow> epoch_term \<Rightarrow> fence \<Rightarrow> handover_action list" where
  "apply_steps lead t f =
     (let lose = losing lead f; gain = gaining lead f;
          keep = filter (\<lambda>s. s \<in> set lead) (fence_led_shards f)
      in (if lose = [] then []
          else OpenGates keep t # concat (map (\<lambda>s. [ManagerFollow s, ReplicaFollow s]) lose)) @
         (if gain = [] then []
          else [Pause, WaitIdle] @ concat (map (\<lambda>s. [Unfollow s, ManagerLead s]) gain) @
               [Resume, OpenGates lead t]))"

definition promotion_apply ::
    "handover_env \<Rightarrow> shard_id list \<Rightarrow> epoch_term \<Rightarrow> handover \<Rightarrow> handover \<times> unit result" where
  "promotion_apply env lead t h = snd (run_steps env (apply_steps lead t (ho_fence h)) h)"

text \<open>\<^verbatim>\<open>follow\<close>: every gate closes before any file is handed over.\<close>

definition promotion_follow :: "handover_env \<Rightarrow> handover \<Rightarrow> handover \<times> unit result" where
  "promotion_follow env h =
     (case snd (run_steps env (map ManagerFollow (ho_shards h)) (h\<lparr>ho_fence := fence_close (ho_fence h)\<rparr>)) of
        (h', Inl e) \<Rightarrow> (h', Inl e)
      | (h', Inr _) \<Rightarrow> (h'\<lparr>ho_stop := False\<rparr>, Inr ()))"

text \<open>\<^verbatim>\<open>promote\<close>: the argument says whether the loop stopped before the deadline.\<close>

definition promotion_promote :: "handover_env \<Rightarrow> bool \<Rightarrow> epoch_term \<Rightarrow> handover \<Rightarrow> handover \<times> unit result" where
  "promotion_promote env stopped t h =
     (let h = h\<lparr>ho_stop := True\<rparr> in
      if \<not> stopped then (h, Inl PromotionBlocked)
      else snd (run_steps env (map ManagerLead (ho_shards h) @ [OpenGates (ho_shards h) t]) h))"

definition fence_for_transfer ::
    "unit result \<Rightarrow> u64 option \<Rightarrow> (shard_id \<Rightarrow> lsn) \<Rightarrow> shard_id \<Rightarrow> handover \<Rightarrow> handover \<times> (u64 \<times> lsn) result" where
  "fence_for_transfer drained epoch last_lsn s h =
     (if s \<notin> set (ho_shards h) \<or> \<not> fence_is_open (ho_fence h) s
      then (h, Inl (ClusterConfig ''cannot fence for transfer: this node is not its writable source''))
      else
        let h = h\<lparr>ho_fence := fst (fence_close_shard s (ho_fence h))\<rparr> in
        (h, and_then drained (\<lambda>_.
              and_then (ok_or epoch (ClusterConfig ''cannot transfer without frame capture and a stream epoch''))
                (\<lambda>e. Inr (e, last_lsn s)))))"

section \<open>An open gate is over an owned file\<close>

definition owned :: "handover \<Rightarrow> shard_id \<Rightarrow> bool" where
  "owned h s \<longleftrightarrow> modes_mode (ho_modes h) s = Led \<and> s \<notin> ho_following h"

definition gates_owned :: "handover \<Rightarrow> bool" where
  "gates_owned h \<longleftrightarrow> (\<forall>s. fence_is_open (ho_fence h) s \<longrightarrow> owned h s)"

text \<open>All states passed through satisfy \<open>P\<close>, and a run to the end satisfies \<open>Q\<close>.\<close>

definition runs :: "handover_env \<Rightarrow> (handover \<Rightarrow> bool) \<Rightarrow> handover_action list \<Rightarrow> handover \<Rightarrow>
    (handover \<Rightarrow> bool) \<Rightarrow> bool" where
  "runs env P ss h Q \<longleftrightarrow>
     (\<forall>x \<in> set (fst (run_steps env ss h)). P x) \<and>
     (snd (snd (run_steps env ss h)) = Inr () \<longrightarrow> Q (fst (snd (run_steps env ss h))))"

lemma runs_Nil [simp]: "runs env P [] h Q \<longleftrightarrow> P h \<and> Q h"
  by (simp add: runs_def)

lemma runs_Cons:
  "runs env P (s # ss) h Q \<longleftrightarrow>
     P h \<and> (case handover_step env s h of
              (h', Inl e) \<Rightarrow> P h' | (h', Inr _) \<Rightarrow> runs env P ss h' Q)"
  by (auto simp: runs_def split: prod.split sum.split)

lemma runs_append:
  "runs env P (ss @ ts) h Q \<longleftrightarrow> runs env P ss h (\<lambda>h'. runs env P ts h' Q)"
proof (induction ss arbitrary: h)
  case Nil
  show ?case by (cases ts) (auto simp: runs_Cons)
next
  case (Cons s ss)
  then show ?case by (simp add: runs_Cons split: prod.split sum.split)
qed

lemma runs_mono: "runs env P ss h Q \<Longrightarrow> (\<And>x. P x \<Longrightarrow> Q x \<Longrightarrow> R x) \<Longrightarrow> runs env P ss h R"
proof (induction ss arbitrary: h)
  case Nil
  then show ?case by simp
next
  case (Cons s ss)
  then show ?case by (auto simp: runs_Cons split: prod.splits sum.splits)
qed

lemma modes_mode_set [simp]: "modes_mode (modes_set s x m) s' = (if s' = s then x else modes_mode m s')"
  by (simp add: modes_mode_def modes_set_def)

lemma modes_mode_handover [simp]: "modes_mode (record_handover n m) s = modes_mode m s"
  by (simp add: modes_mode_def record_handover_def)

lemma open_for_is_open:
  "fe_highest f \<le> t \<Longrightarrow> fence_is_open (fence_open_for shards t f) s \<longleftrightarrow> s \<in> set shards"
  using fence_open_for_exact [of f t shards s]
  by (auto simp: fence_is_open_def fence_open_term_def bt_mem_def split: if_splits)

lemma open_for_highest: "fe_highest (fence_open_for shards t f) = max (fe_highest f) t"
  by (simp add: fence_open_for_def Let_def)

text \<open>Handing over shards whose gates are shut.\<close>

lemma runs_hand_over:
  assumes "gates_owned h" and "\<forall>s \<in> set lose. \<not> fence_is_open (ho_fence h) s"
  shows "runs env gates_owned (concat (map (\<lambda>s. [ManagerFollow s, ReplicaFollow s]) lose)) h
    (\<lambda>h'. gates_owned h' \<and> ho_fence h' = ho_fence h \<and>
      (\<forall>s \<in> set lose. modes_mode (ho_modes h') s = Followed \<and> s \<in> ho_following h') \<and>
      (\<forall>s. s \<notin> set lose \<longrightarrow> owned h' s = owned h s \<and> modes_mode (ho_modes h') s = modes_mode (ho_modes h) s \<and>
         (s \<in> ho_following h' \<longleftrightarrow> s \<in> ho_following h)))"
  using assms
proof (induction lose arbitrary: h)
  case Nil
  then show ?case by simp
next
  case (Cons s lose)
  let ?m = "modes_set s Followed (ho_modes h)"
  have shut: "\<not> fence_is_open (ho_fence h) s" using Cons.prems(2) by simp
  have mid: "gates_owned (h\<lparr>ho_modes := m\<rparr>)" if "\<And>x. modes_mode m x = modes_mode ?m x" for m
    using Cons.prems(1) shut that by (auto simp: gates_owned_def owned_def)
  show ?case
  proof (cases "he_quiesce env s")
    case (Inl e)
    then show ?thesis using Cons.prems(1) mid [of ?m] by (simp add: runs_Cons)
  next
    case (Inr n)
    let ?h = "h\<lparr>ho_modes := record_handover n ?m, ho_following := insert s (ho_following h)\<rparr>"
    have "gates_owned ?h"
      using Cons.prems(1) shut by (auto simp: gates_owned_def owned_def)
    moreover have "\<forall>x \<in> set lose. \<not> fence_is_open (ho_fence ?h) x" using Cons.prems(2) by simp
    ultimately have "runs env gates_owned (concat (map (\<lambda>s. [ManagerFollow s, ReplicaFollow s]) lose)) ?h
      (\<lambda>h'. gates_owned h' \<and> ho_fence h' = ho_fence ?h \<and>
        (\<forall>s \<in> set lose. modes_mode (ho_modes h') s = Followed \<and> s \<in> ho_following h') \<and>
        (\<forall>s. s \<notin> set lose \<longrightarrow> owned h' s = owned ?h s \<and> modes_mode (ho_modes h') s = modes_mode (ho_modes ?h) s \<and>
           (s \<in> ho_following h' \<longleftrightarrow> s \<in> ho_following ?h)))"
      by (rule Cons.IH)
    then have "runs env gates_owned (concat (map (\<lambda>s. [ManagerFollow s, ReplicaFollow s]) lose)) ?h
      (\<lambda>h'. gates_owned h' \<and> ho_fence h' = ho_fence h \<and>
      (\<forall>x \<in> set (s # lose). modes_mode (ho_modes h') x = Followed \<and> x \<in> ho_following h') \<and>
      (\<forall>x. x \<notin> set (s # lose) \<longrightarrow> owned h' x = owned h x \<and> modes_mode (ho_modes h') x = modes_mode (ho_modes h) x \<and>
         (x \<in> ho_following h' \<longleftrightarrow> x \<in> ho_following h)))"
      by (rule runs_mono) (force simp: owned_def)
    moreover have "gates_owned (h\<lparr>ho_modes := record_handover n ?m\<rparr>)" by (rule mid) simp
    ultimately show ?thesis using Cons.prems(1) Inr mid [of ?m] by (simp add: runs_Cons Let_def)
  qed
qed

text \<open>Taking shards back while their gates are shut.\<close>

lemma runs_take_over:
  assumes "gates_owned h"
  shows "runs env gates_owned (concat (map (\<lambda>s. [Unfollow s, ManagerLead s]) gain)) h
    (\<lambda>h'. gates_owned h' \<and> ho_fence h' = ho_fence h \<and>
      (\<forall>s. owned h' s \<longleftrightarrow> s \<in> set gain \<or> owned h s) \<and>
      (\<forall>s. s \<notin> set gain \<longrightarrow> modes_mode (ho_modes h') s = modes_mode (ho_modes h) s \<and>
         (s \<in> ho_following h' \<longleftrightarrow> s \<in> ho_following h)))"
  using assms
proof (induction gain arbitrary: h)
  case Nil
  then show ?case by simp
next
  case (Cons s gain)
  let ?a = "h\<lparr>ho_following := ho_following h - {s}\<rparr>"
  let ?h = "h\<lparr>ho_following := ho_following h - {s}, ho_modes := modes_set s Led (ho_modes h)\<rparr>"
  have a: "gates_owned ?a" and h: "gates_owned ?h"
    using Cons.prems by (auto simp: gates_owned_def owned_def)
  from Cons.IH [OF h]
  have "runs env gates_owned (concat (map (\<lambda>s. [Unfollow s, ManagerLead s]) gain)) ?h
    (\<lambda>h'. gates_owned h' \<and> ho_fence h' = ho_fence h \<and>
      (\<forall>x. owned h' x \<longleftrightarrow> x \<in> set (s # gain) \<or> owned h x) \<and>
      (\<forall>x. x \<notin> set (s # gain) \<longrightarrow> modes_mode (ho_modes h') x = modes_mode (ho_modes h) x \<and>
         (x \<in> ho_following h' \<longleftrightarrow> x \<in> ho_following h)))"
    by (rule runs_mono) (auto simp: owned_def)
  then show ?case using Cons.prems a by (simp add: runs_Cons)
qed

lemma gaining_iff: "s \<in> set (gaining lead f) \<longleftrightarrow> s \<in> set lead \<and> \<not> fence_is_open f s"
  by (auto simp: gaining_def)

lemma losing_iff: "s \<in> set (losing lead f) \<longleftrightarrow> s \<notin> set lead \<and> fence_is_open f s"
  by (auto simp: losing_def fence_led_shards_iff)

definition given_up :: "shard_id list \<Rightarrow> handover \<Rightarrow> bool" where
  "given_up shards h \<longleftrightarrow>
     (\<forall>s \<in> set shards. modes_mode (ho_modes h) s = Followed \<and> s \<in> ho_following h)"

lemma runs_losing:
  assumes "gates_owned h" and "fe_highest (ho_fence h) \<le> t"
  shows "runs env gates_owned
    (if losing lead (ho_fence h) = [] then []
     else OpenGates (filter (\<lambda>s. s \<in> set lead) (fence_led_shards (ho_fence h))) t #
       concat (map (\<lambda>s. [ManagerFollow s, ReplicaFollow s]) (losing lead (ho_fence h)))) h
    (\<lambda>h'. gates_owned h' \<and> fe_highest (ho_fence h') \<le> t \<and>
      (\<forall>s. fence_is_open (ho_fence h') s \<longleftrightarrow> s \<in> set lead \<and> fence_is_open (ho_fence h) s) \<and>
      given_up (losing lead (ho_fence h)) h')"
proof (cases "losing lead (ho_fence h) = []")
  case True
  then have "fence_is_open (ho_fence h) s \<Longrightarrow> s \<in> set lead" for s
    using losing_iff [of s lead "ho_fence h"] by auto
  with True assms show ?thesis by (auto simp: given_up_def)
next
  case False
  let ?keep = "filter (\<lambda>s. s \<in> set lead) (fence_led_shards (ho_fence h))"
  let ?h = "h\<lparr>ho_fence := fence_open_for ?keep t (ho_fence h)\<rparr>"
  have open_iff: "fence_is_open (ho_fence ?h) s \<longleftrightarrow> s \<in> set lead \<and> fence_is_open (ho_fence h) s" for s
    using assms(2) by (auto simp: open_for_is_open fence_led_shards_iff)
  have "gates_owned ?h" using assms(1) open_iff by (auto simp: gates_owned_def owned_def)
  moreover have "\<forall>s \<in> set (losing lead (ho_fence h)). \<not> fence_is_open (ho_fence ?h) s"
    using open_iff by (auto simp: losing_iff)
  ultimately have "runs env gates_owned
      (concat (map (\<lambda>s. [ManagerFollow s, ReplicaFollow s]) (losing lead (ho_fence h)))) ?h
      (\<lambda>h'. gates_owned h' \<and> ho_fence h' = ho_fence ?h \<and> given_up (losing lead (ho_fence h)) h')"
    by (rule runs_mono [OF runs_hand_over]) (auto simp: given_up_def)
  then have "runs env gates_owned
      (concat (map (\<lambda>s. [ManagerFollow s, ReplicaFollow s]) (losing lead (ho_fence h)))) ?h
      (\<lambda>h'. gates_owned h' \<and> fe_highest (ho_fence h') \<le> t \<and>
        (\<forall>s. fence_is_open (ho_fence h') s \<longleftrightarrow> s \<in> set lead \<and> fence_is_open (ho_fence h) s) \<and>
        given_up (losing lead (ho_fence h)) h')"
    by (rule runs_mono) (use assms(2) open_iff in \<open>auto simp: open_for_highest\<close>)
  with False assms(1) show ?thesis by (simp add: runs_Cons)
qed

lemma runs_gaining:
  assumes h: "gates_owned h" and t: "fe_highest (ho_fence h) \<le> t"
    and gain: "\<forall>s. s \<in> set gain \<longleftrightarrow> s \<in> set lead \<and> \<not> fence_is_open (ho_fence h) s"
    and lead: "\<forall>s. fence_is_open (ho_fence h) s \<longrightarrow> s \<in> set lead"
    and lost: "given_up lose h" "set lose \<inter> set gain = {}"
  shows "runs env gates_owned
    (if gain = [] then []
     else [Pause, WaitIdle] @ concat (map (\<lambda>s. [Unfollow s, ManagerLead s]) gain) @ [Resume, OpenGates lead t]) h
    (\<lambda>h'. gates_owned h' \<and> (\<forall>s. fence_is_open (ho_fence h') s \<longleftrightarrow> s \<in> set lead) \<and> given_up lose h')"
proof (cases "gain = []")
  case True
  with assms show ?thesis by auto
next
  case False
  let ?p = "h\<lparr>ho_paused := True\<rparr>"
  have p: "gates_owned ?p" "gates_owned (h\<lparr>ho_paused := False\<rparr>)"
    using h by (auto simp: gates_owned_def owned_def)
  have "runs env gates_owned (concat (map (\<lambda>s. [Unfollow s, ManagerLead s]) gain)) ?p
    (\<lambda>h'. runs env gates_owned [Resume, OpenGates lead t] h'
      (\<lambda>h'. gates_owned h' \<and> (\<forall>s. fence_is_open (ho_fence h') s \<longleftrightarrow> s \<in> set lead) \<and> given_up lose h'))"
  proof (rule runs_mono [OF runs_take_over [OF p(1)]])
    fix x
    assume x: "gates_owned x" and post: "gates_owned x \<and> ho_fence x = ho_fence ?p \<and>
      (\<forall>s. owned x s \<longleftrightarrow> s \<in> set gain \<or> owned ?p s) \<and>
      (\<forall>s. s \<notin> set gain \<longrightarrow> modes_mode (ho_modes x) s = modes_mode (ho_modes ?p) s \<and>
         (s \<in> ho_following x \<longleftrightarrow> s \<in> ho_following ?p))"
    have f: "ho_fence x = ho_fence h" and own: "\<And>s. s \<in> set lead \<Longrightarrow> owned x s"
      using post gain h by (auto simp: gates_owned_def owned_def)
    have opened: "fence_is_open (fence_open_for lead t (ho_fence x)) s \<longleftrightarrow> s \<in> set lead" for s
      using t by (simp add: f open_for_is_open)
    have "given_up lose x" using post lost by (fastforce simp: given_up_def)
    moreover have "gates_owned (x\<lparr>ho_paused := False\<rparr>)" using x by (simp add: gates_owned_def owned_def)
    moreover have "gates_owned (x\<lparr>ho_paused := False, ho_fence := fence_open_for lead t (ho_fence x)\<rparr>)"
      using own by (simp add: gates_owned_def owned_def opened)
    ultimately show "runs env gates_owned [Resume, OpenGates lead t] x
      (\<lambda>h'. gates_owned h' \<and> (\<forall>s. fence_is_open (ho_fence h') s \<longleftrightarrow> s \<in> set lead) \<and> given_up lose h')"
      using x opened by (simp add: runs_Cons given_up_def)
  qed
  with False h p show ?thesis by (simp add: runs_Cons runs_append)
qed

text \<open>
  (C5) A handover never exposes a file with two owners. Take a node whose open gates are all over
  files it owns, and a placement whose term is no older than the fence's highest. Then every state
  the handover passes through, including those where it stops on an error, has write gates open only
  over shards whose file this node owns and no longer follows; and when it succeeds the open gates
  are exactly the placement's shards and every shard given up is followed. For a placement of an
  older term nothing is claimed.
\<close>

theorem handover_never_opens_a_followed_file:
  assumes "gates_owned h" and "fe_highest (ho_fence h) \<le> t"
  shows "(\<forall>x \<in> set (fst (run_steps env (apply_steps lead t (ho_fence h)) h)). gates_owned x) \<and>
    (snd (promotion_apply env lead t h) = Inr () \<longrightarrow>
      (\<forall>s. fence_is_open (ho_fence (fst (promotion_apply env lead t h))) s \<longleftrightarrow> s \<in> set lead) \<and>
      given_up (losing lead (ho_fence h)) (fst (promotion_apply env lead t h)))"
proof -
  let ?Q = "\<lambda>h'. gates_owned h' \<and> (\<forall>s. fence_is_open (ho_fence h') s \<longleftrightarrow> s \<in> set lead) \<and>
    given_up (losing lead (ho_fence h)) h'"
  have "runs env gates_owned (apply_steps lead t (ho_fence h)) h ?Q"
    unfolding apply_steps_def Let_def runs_append
  proof (rule runs_mono [OF runs_losing [OF assms]])
    fix x
    assume "gates_owned x" and "gates_owned x \<and> fe_highest (ho_fence x) \<le> t \<and>
      (\<forall>s. fence_is_open (ho_fence x) s \<longleftrightarrow> s \<in> set lead \<and> fence_is_open (ho_fence h) s) \<and>
      given_up (losing lead (ho_fence h)) x"
    then show "runs env gates_owned (if gaining lead (ho_fence h) = [] then []
       else [Pause, WaitIdle] @ concat (map (\<lambda>s. [Unfollow s, ManagerLead s]) (gaining lead (ho_fence h))) @
         [Resume, OpenGates lead t]) x ?Q"
      by (intro runs_gaining) (auto simp: gaining_iff losing_iff)
  qed
  then show ?thesis by (auto simp: runs_def promotion_apply_def)
qed

text \<open>A node that follows shard 2 and leads shard 1 is told to lead 2 instead.\<close>

definition demo_handover :: handover where
  "demo_handover =
     \<lparr>ho_fence = fence_open_for [1] 3 (fence_new 7 3),
      ho_modes = modes_set 2 Followed modes_new, ho_following = {2}, ho_shards = [1, 2],
      ho_paused = False, ho_stop = False\<rparr>"

definition demo_handover_env :: handover_env where
  "demo_handover_env = \<lparr>he_quiesce = (\<lambda>s. Inr 1), he_settled = True\<rparr>"

lemma demo_handover_owned: "gates_owned demo_handover"
  by (simp add: gates_owned_def owned_def demo_handover_def open_for_is_open fence_new_def modes_new_def
      modes_mode_def [of modes_new] modes_mode_def [of "\<lparr>sm_modes = [], sm_refused = 0, sm_closed_on_handover = 0\<rparr>"]
      bt_get_def)

lemma demo_handover_succeeds: "snd (promotion_apply demo_handover_env [2] 4 demo_handover) = Inr ()"
  by (simp add: promotion_apply_def apply_steps_def losing_def gaining_def demo_handover_def demo_handover_env_def
      fence_open_for_def fence_new_def fence_led_shards_def fence_is_open_def bt_mem_def bt_get_def bt_keys_def)

theorem handover_never_opens_a_followed_file_witness:
  "gates_owned demo_handover \<and> snd (promotion_apply demo_handover_env [2] 4 demo_handover) = Inr () \<and>
   (\<forall>s. fence_is_open (ho_fence (fst (promotion_apply demo_handover_env [2] 4 demo_handover))) s \<longleftrightarrow> s = 2)"
  using handover_never_opens_a_followed_file [of demo_handover 4 demo_handover_env "[2]"]
    demo_handover_owned demo_handover_succeeds
  by (simp add: demo_handover_def fence_open_for_def fence_new_def)

section \<open>Shards whose gates were shut by a step-down\<close>

fun acts_on :: "shard_id \<Rightarrow> handover_action \<Rightarrow> bool" where
  "acts_on s (OpenGates shards t) \<longleftrightarrow> s \<in> set shards"
| "acts_on s (ManagerFollow s') \<longleftrightarrow> s = s'"
| "acts_on s (ReplicaFollow s') \<longleftrightarrow> s = s'"
| "acts_on s (Unfollow s') \<longleftrightarrow> s = s'"
| "acts_on s (ManagerLead s') \<longleftrightarrow> s = s'"
| "acts_on s _ \<longleftrightarrow> False"

definition same_ownership :: "shard_id \<Rightarrow> handover \<Rightarrow> handover \<Rightarrow> bool" where
  "same_ownership s h h' \<longleftrightarrow>
     modes_mode (ho_modes h') s = modes_mode (ho_modes h) s \<and> (s \<in> ho_following h' \<longleftrightarrow> s \<in> ho_following h) \<and>
     (fence_is_open (ho_fence h') s \<longrightarrow> fence_is_open (ho_fence h) s)"

lemma same_ownership_trans: "same_ownership s a b \<Longrightarrow> same_ownership s b c \<Longrightarrow> same_ownership s a c"
  by (simp add: same_ownership_def)

lemma open_for_opens: "fence_is_open (fence_open_for shards t f) s \<Longrightarrow> s \<in> set shards \<or> fence_is_open f s"
  using open_for_is_open [of f t shards s]
  by (cases "t < fe_highest f") (auto simp: fence_open_for_def fence_is_open_def Let_def)

lemma handover_step_frame:
  "\<not> acts_on s a \<Longrightarrow> handover_step env a h = (h', r) \<Longrightarrow> same_ownership s h h'"
  by (cases a) (auto simp: same_ownership_def Let_def dest: open_for_opens split: sum.splits if_splits)

lemma run_steps_frame:
  "\<forall>a \<in> set ss. \<not> acts_on s a \<Longrightarrow> same_ownership s h (fst (snd (run_steps env ss h)))"
proof (induction ss arbitrary: h)
  case Nil
  then show ?case by (simp add: same_ownership_def)
next
  case (Cons a ss)
  obtain h' r where step: "handover_step env a h = (h', r)" by force
  have frame: "same_ownership s h h'" using Cons.prems step handover_step_frame [of s a env h h' r] by simp
  have "same_ownership s h' (fst (snd (run_steps env ss h')))" using Cons by simp
  from frame same_ownership_trans [OF frame this] show ?case
    by (auto simp: step split: sum.split prod.split)
qed

lemma promotion_apply_frame:
  assumes "\<not> fence_is_open (ho_fence h) s" and "s \<notin> set lead"
  shows "same_ownership s h (fst (promotion_apply env lead t h))"
proof -
  have "\<not> acts_on s a" if "a \<in> set (apply_steps lead t (ho_fence h))" for a
    using assms that by (auto simp: apply_steps_def Let_def gaining_iff losing_iff split: if_splits)
  then show ?thesis unfolding promotion_apply_def by (intro run_steps_frame) blast
qed

text \<open>
  A shard whose gate was shut by a step-down is never given to the replication path: whatever
  sequence of placements this node applies afterwards, as long as they leave the shard to another
  node neither its mark nor the followed set changes, so a node that led it goes on holding the file
  as its owner while its copy stops advancing.
\<close>

theorem stepped_down_shard_is_never_handed_over:
  assumes "ho_fence h = fence_step_down t f" and "\<forall>(env, lead, t) \<in> set placements. s \<notin> set lead"
    and "modes_mode (ho_modes h) s = Led" and "s \<notin> ho_following h"
    and "h' = foldl (\<lambda>h (env, lead, t). fst (promotion_apply env lead t h)) h placements"
  shows "modes_mode (ho_modes h') s = Led \<and> s \<notin> ho_following h' \<and> \<not> fence_is_open (ho_fence h') s"
proof -
  have shut: "\<not> fence_is_open (ho_fence h) s"
    by (simp add: assms(1) fence_step_down_def fence_is_open_def bt_mem_def bt_get_def)
  have "same_ownership s g (foldl (\<lambda>h (env, lead, t). fst (promotion_apply env lead t h)) g placements)"
    if "\<not> fence_is_open (ho_fence g) s" for g
    using that assms(2)
  proof (induction placements arbitrary: g)
    case Nil
    then show ?case by (simp add: same_ownership_def)
  next
    case (Cons p placements)
    obtain env lead u where p: "p = (env, lead, u)" by (cases p) auto
    have frame: "same_ownership s g (fst (promotion_apply env lead u g))"
      using Cons.prems p by (intro promotion_apply_frame) auto
    have "same_ownership s (fst (promotion_apply env lead u g))
      (foldl (\<lambda>h (env, lead, t). fst (promotion_apply env lead t h)) (fst (promotion_apply env lead u g)) placements)"
      by (rule Cons.IH) (use Cons.prems frame in \<open>auto simp: same_ownership_def\<close>)
    then show ?case using same_ownership_trans [OF frame] by (simp add: p)
  qed
  from this [OF shut] assms(3-5) shut show ?thesis by (simp add: same_ownership_def)
qed

theorem stepped_down_shard_is_never_handed_over_witness:
  "modes_mode (ho_modes (fst (promotion_apply demo_handover_env [2] 5
     (demo_handover\<lparr>ho_fence := fence_step_down 5 (ho_fence demo_handover)\<rparr>)))) 1 = Led"
  using stepped_down_shard_is_never_handed_over
    [of "demo_handover\<lparr>ho_fence := fence_step_down 5 (ho_fence demo_handover)\<rparr>" 5 "ho_fence demo_handover"
      "[(demo_handover_env, [2], 5)]" 1 "fst (promotion_apply demo_handover_env [2] 5
     (demo_handover\<lparr>ho_fence := fence_step_down 5 (ho_fence demo_handover)\<rparr>))"]
  by (simp add: demo_handover_def modes_new_def modes_mode_def [of "\<lparr>sm_modes = [], sm_refused = 0, sm_closed_on_handover = 0\<rparr>"]
      bt_get_def)

end
