(* ===== verification/Replica_Loop.thy ===== *)
theory Replica_Loop
  imports Prelude
begin

text \<open>
  The pull loop of \<^verbatim>\<open>src/src/net/replica.rs\<close> beside the part of
  \<^verbatim>\<open>src/src/cluster/promotion.rs\<close> that brings it to rest. The two run in different threads and
  share four atomic flags and the followed set, so each load and each store is a step of its own.

  The sources load and store the flags with \<^verbatim>\<open>Ordering::Relaxed\<close>, so a load may return a value
  other than the last one stored. An interleaving of the steps below is one of the behaviours
  this allows, which is enough to show that a bad state can be reached. To show that one cannot be
  reached, the flags are taken to be arbitrary at every step of the loop. The followed set is behind
  a mutex, and every reading of it is the last value written.
\<close>

section \<open>The loop\<close>

datatype loop_at =
    LoopTop
  | CheckPaused
  | Resting
  | Entering
  | SyncStart
  | SyncNext "shard_id list"
  | SyncShard shard_id "shard_id list"
  | SyncDone
  | PollSleep
  | Exited

record replica_state =
  rs_stop :: bool
  rs_paused :: bool
  rs_idle :: bool
  rs_running :: bool
  rs_following :: "shard_id set"
  rs_led :: "shard_id set"
  rs_loop :: loop_at

text \<open>One step of \<^verbatim>\<open>run\<close> and the \<^verbatim>\<open>sync_once\<close> it calls. Syncing a shard applies any number of batches and may fail.\<close>

inductive loop_step :: "replica_state \<Rightarrow> replica_state \<Rightarrow> bool" where
  loop_stop: "rs_loop r = LoopTop \<Longrightarrow> rs_stop r \<Longrightarrow>
    loop_step r (r\<lparr>rs_running := False, rs_loop := Exited\<rparr>)"
| loop_again: "rs_loop r = LoopTop \<Longrightarrow> \<not> rs_stop r \<Longrightarrow> loop_step r (r\<lparr>rs_loop := CheckPaused\<rparr>)"
| loop_paused: "rs_loop r = CheckPaused \<Longrightarrow> rs_paused r \<Longrightarrow> loop_step r (r\<lparr>rs_loop := Resting\<rparr>)"
| loop_rest: "rs_loop r = Resting \<Longrightarrow> loop_step r (r\<lparr>rs_idle := True, rs_loop := LoopTop\<rparr>)"
| loop_enter: "rs_loop r = CheckPaused \<Longrightarrow> \<not> rs_paused r \<Longrightarrow> loop_step r (r\<lparr>rs_loop := Entering\<rparr>)"
| loop_busy: "rs_loop r = Entering \<Longrightarrow> loop_step r (r\<lparr>rs_idle := False, rs_loop := SyncStart\<rparr>)"
| loop_shards: "rs_loop r = SyncStart \<Longrightarrow>
    loop_step r (r\<lparr>rs_loop := SyncNext (sorted_list_of_set (rs_following r))\<rparr>)"
| loop_connect_fails: "rs_loop r = SyncNext ss \<Longrightarrow> loop_step r (r\<lparr>rs_loop := SyncDone\<rparr>)"
| loop_skip: "rs_loop r = SyncNext (s # ss) \<Longrightarrow> s \<notin> rs_following r \<Longrightarrow>
    loop_step r (r\<lparr>rs_loop := SyncNext ss\<rparr>)"
| loop_take: "rs_loop r = SyncNext (s # ss) \<Longrightarrow> s \<in> rs_following r \<Longrightarrow>
    loop_step r (r\<lparr>rs_loop := SyncShard s ss\<rparr>)"
| loop_batch: "rs_loop r = SyncShard s ss \<Longrightarrow> loop_step r r"
| loop_synced: "rs_loop r = SyncShard s ss \<Longrightarrow> loop_step r (r\<lparr>rs_loop := SyncNext ss\<rparr>)"
| loop_sync_fails: "rs_loop r = SyncShard s ss \<Longrightarrow> loop_step r (r\<lparr>rs_loop := SyncDone\<rparr>)"
| loop_idle: "rs_loop r = SyncDone \<Longrightarrow> loop_step r (r\<lparr>rs_idle := True, rs_loop := PollSleep\<rparr>)"
| loop_wake: "rs_loop r = PollSleep \<Longrightarrow> loop_step r (r\<lparr>rs_loop := LoopTop\<rparr>)"

section \<open>The promoter\<close>

datatype promoter_at =
    PromoterStart
  | PromoterWaiting
  | Taking "shard_id list"
  | Leading shard_id "shard_id list"
  | PromoterDone

text \<open>The steps of \<^verbatim>\<open>apply\<close> that take over the shards \<open>gain\<close>.\<close>

inductive promoter_step ::
    "shard_id list \<Rightarrow> promoter_at \<times> replica_state \<Rightarrow> promoter_at \<times> replica_state \<Rightarrow> bool" for gain where
  promoter_pause: "promoter_step gain (PromoterStart, r) (PromoterWaiting, r\<lparr>rs_paused := True\<rparr>)"
| promoter_settled: "rs_idle r \<or> \<not> rs_running r \<Longrightarrow> promoter_step gain (PromoterWaiting, r) (Taking gain, r)"
| promoter_times_out: "promoter_step gain (PromoterWaiting, r) (PromoterDone, r\<lparr>rs_paused := False\<rparr>)"
| promoter_unfollow: "promoter_step gain (Taking (s # ss), r)
    (Leading s ss, r\<lparr>rs_following := rs_following r - {s}\<rparr>)"
| promoter_lead: "promoter_step gain (Leading s ss, r) (Taking ss, r\<lparr>rs_led := insert s (rs_led r)\<rparr>)"
| promoter_resume: "promoter_step gain (Taking [], r) (PromoterDone, r\<lparr>rs_paused := False\<rparr>)"

inductive both_step ::
    "shard_id list \<Rightarrow> promoter_at \<times> replica_state \<Rightarrow> promoter_at \<times> replica_state \<Rightarrow> bool" for gain where
  both_loop: "loop_step r r' \<Longrightarrow> both_step gain (p, r) (p, r')"
| both_promoter: "promoter_step gain q q' \<Longrightarrow> both_step gain q q'"

text \<open>The file of a shard is written by the pull loop while this node has taken the shard over.\<close>

definition two_writers :: "promoter_at \<times> replica_state \<Rightarrow> bool" where
  "two_writers q \<longleftrightarrow> (case rs_loop (snd q) of SyncShard s ss \<Rightarrow> s \<in> rs_led (snd q) | _ \<Rightarrow> False)"

definition loop_start :: "shard_id set \<Rightarrow> replica_state" where
  "loop_start shards =
     \<lparr>rs_stop = False, rs_paused = False, rs_idle = True, rs_running = True, rs_following = shards,
      rs_led = {}, rs_loop = LoopTop\<rparr>"

text \<open>
  Waiting for the loop to be idle does not exclude it: the loop clears its idle flag only after
  it has read the pause flag, so a promoter that pauses and looks in between sees a loop at rest,
  takes the shard over, and the loop then writes pages into the file this node has just taken.
\<close>

theorem idle_check_can_be_overtaken:
  "\<exists>q. (both_step [1])\<^sup>*\<^sup>* (PromoterStart, loop_start {1}) q \<and> two_writers q"
proof -
  let ?S = "(both_step [1])\<^sup>*\<^sup>*"
  define at :: "bool \<Rightarrow> bool \<Rightarrow> shard_id set \<Rightarrow> shard_id set \<Rightarrow> loop_at \<Rightarrow> replica_state" where
    "at paused idle fol led lp = \<lparr>rs_stop = False, rs_paused = paused, rs_idle = idle, rs_running = True,
       rs_following = fol, rs_led = led, rs_loop = lp\<rparr>" for paused idle fol led lp
  have l: "both_step [1] (p, r) (p, r')" if "loop_step r r'" for p r r' using that by (rule both_loop)
  have "?S (PromoterStart, loop_start {1}) (PromoterStart, at False True {1} {} CheckPaused)"
    using l [OF loop_again [of "loop_start {1}"]] by (auto simp: loop_start_def at_def)
  also have "?S \<dots> (PromoterStart, at False True {1} {} Entering)"
    using l [OF loop_enter [of "at False True {1} {} CheckPaused"]] by (auto simp: at_def)
  also have "?S \<dots> (PromoterWaiting, at True True {1} {} Entering)"
    using both_promoter [OF promoter_pause [of "[1]" "at False True {1} {} Entering"]] by (auto simp: at_def)
  also have "?S \<dots> (Taking [1], at True True {1} {} Entering)"
    using both_promoter [OF promoter_settled [of "at True True {1} {} Entering" "[1]"]] by (auto simp: at_def)
  also have "?S \<dots> (Taking [1], at True False {1} {} SyncStart)"
    using l [OF loop_busy [of "at True True {1} {} Entering"]] by (auto simp: at_def)
  also have "?S \<dots> (Taking [1], at True False {1} {} (SyncNext [1]))"
    using l [OF loop_shards [of "at True False {1} {} SyncStart"]] by (auto simp: at_def)
  also have "?S \<dots> (Taking [1], at True False {1} {} (SyncShard 1 []))"
    using l [OF loop_take [of "at True False {1} {} (SyncNext [1])" 1 "[]"]] by (auto simp: at_def)
  also have "?S \<dots> (Leading 1 [], at True False {} {} (SyncShard 1 []))"
    using both_promoter [OF promoter_unfollow [of "[1]" 1 "[]" "at True False {1} {} (SyncShard 1 [])"]]
    by (auto simp: at_def)
  also have "?S \<dots> (Taking [], at True False {} {1} (SyncShard 1 []))"
    using both_promoter [OF promoter_lead [of "[1]" 1 "[]" "at True False {} {} (SyncShard 1 [])"]]
    by (auto simp: at_def)
  finally have "?S (PromoterStart, loop_start {1}) (Taking [], at True False {} {1} (SyncShard 1 []))" .
  then show ?thesis by (intro exI conjI, assumption) (simp add: two_writers_def at_def)
qed

section \<open>What the loop does to a shard taken over\<close>











end
