(* ===== verification/Cluster_Node.thy ===== *)
theory Cluster_Node
  imports Election Promotion Catalog_Store
begin

text \<open>
  The driver of \<^verbatim>\<open>src/src/cluster/node.rs\<close>, which performs what the election decides: it asks peers
  for votes, sends heartbeats, applies placements to the write gates and the shard files, and
  answers its peers. A call to a peer returns a reply or nothing; what each peer answers, the faults
  of the term file, the outcome of each file handover and the clock are the environment of a
  handler. The digest of the catalog is an argument. Timestamps kept for display are left out.
\<close>

section \<open>State\<close>

record cluster_counters =
  cs_elections_started :: u64
  cs_became_leader :: u64
  cs_stepped_down :: u64
  cs_heartbeats_sent :: u64
  cs_peer_unreachable :: u64
  cs_votes_granted :: u64
  cs_votes_refused :: u64
  cs_handover_failed :: u64
  cs_placement_changes :: u64

text \<open>The fence and the ownership marks are those of the handover, attached or not.\<close>

record cluster_node =
  cn_id :: node_id
  cn_election :: election
  cn_handover :: handover
  cn_ownership :: bool
  cn_marks :: bool
  cn_peers :: "(node_id, string) btree"
  cn_catalog :: "catalog_store option"
  cn_voting :: bool
  cn_durability :: durability
  cn_shards :: "shard_id list"
  cn_placement :: placement
  cn_live :: "node_id set"
  cn_stop :: bool
  cn_cordoned :: bool
  cn_cordoned_members :: "node_id set"
  cn_preferred :: "shard_id set"
  cn_preferences :: "(shard_id, node_id) btree"
  cn_takeovers :: "shard_id list"
  cn_counters :: cluster_counters

abbreviation cn_fence :: "cluster_node \<Rightarrow> fence" where
  "cn_fence n \<equiv> ho_fence (cn_handover n)"

record node_env =
  ne_now :: instant
  ne_faults :: "persist_fault \<times> persist_fault"
  ne_reply_fault :: "node_id \<Rightarrow> persist_fault"
  ne_vote :: "node_id \<Rightarrow> vote_reply option"
  ne_beat :: "node_id \<Rightarrow> heartbeat_reply option"
  ne_applying :: bool
  ne_handover :: "u64 \<Rightarrow> handover_env"

definition placement_default :: placement where
  "placement_default = \<lparr>pl_term = 0, pl_assignments = []\<rparr>"

definition counters_default :: cluster_counters where
  "counters_default =
     \<lparr>cs_elections_started = 0, cs_became_leader = 0, cs_stepped_down = 0, cs_heartbeats_sent = 0,
      cs_peer_unreachable = 0, cs_votes_granted = 0, cs_votes_refused = 0, cs_handover_failed = 0,
      cs_placement_changes = 0\<rparr>"

definition node_new ::
    "node_id \<Rightarrow> election \<Rightarrow> handover \<Rightarrow> (node_id, string) btree \<Rightarrow> durability \<Rightarrow> shard_id list \<Rightarrow>
     cluster_node" where
  "node_new node e h peers durability shards =
     \<lparr>cn_id = node, cn_election = e, cn_handover = h, cn_ownership = False, cn_marks = False,
      cn_peers = peers, cn_catalog = None, cn_voting = True, cn_durability = durability,
      cn_shards = shards, cn_placement = placement_default, cn_live = {}, cn_stop = False,
      cn_cordoned = False, cn_cordoned_members = {}, cn_preferred = {}, cn_preferences = [],
      cn_takeovers = [], cn_counters = counters_default\<rparr>"

definition set_preferred :: "shard_id list \<Rightarrow> bool \<Rightarrow> cluster_node \<Rightarrow> cluster_node" where
  "set_preferred shards prefer n =
     n\<lparr>cn_preferred := (if prefer then cn_preferred n \<union> set shards else cn_preferred n - set shards)\<rparr>"

definition preferred_shards :: "cluster_node \<Rightarrow> shard_id list" where
  "preferred_shards n = sorted_list_of_set (cn_preferred n)"

definition set_cordoned :: "bool \<Rightarrow> cluster_node \<Rightarrow> cluster_node" where
  "set_cordoned cordoned n = n\<lparr>cn_cordoned := cordoned\<rparr>"

definition node_stop :: "cluster_node \<Rightarrow> cluster_node" where
  "node_stop n = n\<lparr>cn_stop := True\<rparr>"

definition check_participating :: "cluster_node \<Rightarrow> unit result" where
  "check_participating n = (if cn_stop n then Inl Departed else Inr ())"

definition peer_addr :: "cluster_node \<Rightarrow> node_id \<Rightarrow> string option" where
  "peer_addr n node =
     (case (case cn_catalog n of
              None \<Rightarrow> None
            | Some st \<Rightarrow> map_option mb_address (bt_get (ca_members (st_catalog st)) node)) of
        Some a \<Rightarrow> Some a
      | None \<Rightarrow> bt_get (cn_peers n) node)"

definition catalog_position_of :: "(catalog \<Rightarrow> digest) \<Rightarrow> catalog_store \<Rightarrow> catalog_position" where
  "catalog_position_of dig st =
     (let c = (case st_prepared st of Some p \<Rightarrow> pr_catalog p | None \<Rightarrow> st_catalog st) in
      \<lparr>cp_version = ca_version c, cp_digest = dig c\<rparr>)"

definition current_durability :: "(catalog \<Rightarrow> digest) \<Rightarrow> cluster_node \<Rightarrow> durability" where
  "current_durability dig n =
     (case cn_catalog n of
        None \<Rightarrow> cn_durability n
      | Some st \<Rightarrow> (cn_durability n)\<lparr>du_catalog := catalog_position_of dig st\<rparr>)"

definition voter_peers :: "cluster_node \<Rightarrow> node_id list" where
  "voter_peers n =
     (case cn_catalog n of
        None \<Rightarrow> bt_keys (cn_peers n)
      | Some st \<Rightarrow>
          let c = st_catalog st;
              voters = fst (voter_sets c) \<union> (case snd (voter_sets c) of Some v \<Rightarrow> v | None \<Rightarrow> {})
          in filter (\<lambda>node. node \<noteq> cn_id n \<and> bt_mem (ca_members c) node) (sorted_list_of_set voters))"

definition authorize_catalog_leader :: "node_id \<Rightarrow> epoch_term \<Rightarrow> cluster_node \<Rightarrow> unit result" where
  "authorize_catalog_leader leader t n =
     and_then (check_participating n) (\<lambda>_.
       if el_term (cn_election n) \<noteq> t \<or> el_leader (cn_election n) \<noteq> Some leader
       then Inl (ClusterConfig ''catalog command claims a leader this node does not recognise'')
       else Inr ())"

section \<open>Placements\<close>

text \<open>The ownership marks of a node that has no handover attached.\<close>

definition mark_assignments :: "placement \<Rightarrow> shard_id list \<Rightarrow> shard_modes \<Rightarrow> shard_modes" where
  "mark_assignments p mine m =
     foldl (\<lambda>m s. modes_set s (if s \<in> set mine then Led else Followed) m) m (bt_keys (pl_assignments p))"

definition apply_placement :: "node_env \<Rightarrow> placement \<Rightarrow> cluster_node \<Rightarrow> cluster_node" where
  "apply_placement env p n =
     (if ne_applying env \<or> cn_placement n = p then n
      else
        let mine = shards_for p (cn_id n);
            newly_mine = filter (\<lambda>s. s \<notin> set (shards_for (cn_placement n) (cn_id n))) mine;
            hand = ne_handover env (cs_placement_changes (cn_counters n));
            n = n\<lparr>cn_placement := p,
                  cn_counters := cn_counters n\<lparr>cs_placement_changes := cs_placement_changes (cn_counters n) + 1\<rparr>\<rparr>;
            n = (if cn_ownership n then
                   (case promotion_apply hand mine (pl_term p) (cn_handover n) of
                      (h, Inr _) \<Rightarrow> n\<lparr>cn_handover := h\<rparr>
                    | (h, Inl _) \<Rightarrow>
                        n\<lparr>cn_handover := h, cn_placement := placement_default,
                          cn_counters := cn_counters n\<lparr>cs_handover_failed := cs_handover_failed (cn_counters n) + 1\<rparr>\<rparr>)
                 else
                   n\<lparr>cn_handover := (cn_handover n)
                       \<lparr>ho_modes := (if cn_marks n then mark_assignments p mine (ho_modes (cn_handover n))
                                     else ho_modes (cn_handover n)),
                        ho_fence := fence_open_for mine (pl_term p) (cn_fence n)\<rparr>\<rparr>)
        in n\<lparr>cn_takeovers := cn_takeovers n @ newly_mine\<rparr>)"

definition node_plan :: "epoch_term \<Rightarrow> cluster_node \<Rightarrow> placement" where
  "node_plan t n =
     (case cn_catalog n of
        Some st \<Rightarrow>
          \<lparr>pl_term = t,
           pl_assignments = map (\<lambda>(shard, replicas). (shard, rs_primary replicas)) (ca_placements (st_catalog st))\<rparr>
      | None \<Rightarrow>
          let members = sorted_list_of_set (cn_live n) @ [cn_id n];
              eligible = filter (\<lambda>m. m \<notin> cn_cordoned_members n \<and> \<not> (cn_cordoned n \<and> m = cn_id n)) members;
              members = (if eligible = [] then members else eligible)
          in with_preferences (word_of_nat (length (cn_shards n))) members (cn_preferences n) t)"

section \<open>Performing actions\<close>

text \<open>
  The loops over peers stop at the first action the election asks for and hand it to
  \<^verbatim>\<open>perform\<close>; with no action they end with \<^const>\<open>None\<close>.
\<close>

fun campaign_peers :: "node_env \<Rightarrow> node_id list \<Rightarrow> cluster_node \<Rightarrow> cluster_node \<times> action option result" where
  "campaign_peers env [] n = (n, Inr None)"
| "campaign_peers env (peer # peers) n =
     (case ne_vote env peer of
        None \<Rightarrow> campaign_peers env peers
          (n\<lparr>cn_counters := cn_counters n\<lparr>cs_peer_unreachable := cs_peer_unreachable (cn_counters n) + 1\<rparr>\<rparr>)
      | Some reply \<Rightarrow>
          (case on_vote_reply (ne_reply_fault env peer) peer reply (ne_now env) (cn_election n) of
             (e, Inl err) \<Rightarrow> (n\<lparr>cn_election := e\<rparr>, Inl err)
           | (e, Inr (Some a)) \<Rightarrow> (n\<lparr>cn_election := e\<rparr>, Inr (Some a))
           | (e, Inr None) \<Rightarrow> campaign_peers env peers (n\<lparr>cn_election := e\<rparr>)))"

record beat_round =
  br_answered :: "node_id set"
  br_cordoned :: "node_id set"
  br_preferences :: "(shard_id, node_id) btree"

definition claim :: "node_id \<Rightarrow> (shard_id, node_id) btree \<Rightarrow> shard_id \<Rightarrow> (shard_id, node_id) btree" where
  "claim node m s = (if bt_mem m s then m else bt_insert s node m)"

definition note_reply :: "node_id \<Rightarrow> heartbeat_reply \<Rightarrow> beat_round \<Rightarrow> beat_round" where
  "note_reply peer reply b =
     (let b = (if hr_ok reply then b\<lparr>br_answered := insert peer (br_answered b)\<rparr> else b) in
      if hr_cordoned reply then b\<lparr>br_cordoned := insert peer (br_cordoned b)\<rparr>
      else b\<lparr>br_preferences := foldl (claim peer) (br_preferences b) (hr_prefers reply)\<rparr>)"

definition renews_lease :: "cluster_node \<Rightarrow> node_id \<Rightarrow> bool" where
  "renews_lease n peer \<longleftrightarrow>
     (case cn_catalog n of
        None \<Rightarrow> bt_mem (cn_peers n) peer
      | Some st \<Rightarrow> is_voter (st_catalog st) peer)"

fun beat_peers ::
    "node_env \<Rightarrow> node_id list \<Rightarrow> beat_round \<Rightarrow> cluster_node \<Rightarrow> cluster_node \<times> (action + beat_round) result" where
  "beat_peers env [] b n = (n, Inr (Inr b))"
| "beat_peers env (peer # peers) b n =
     (let n = n\<lparr>cn_counters := cn_counters n\<lparr>cs_heartbeats_sent := cs_heartbeats_sent (cn_counters n) + 1\<rparr>\<rparr> in
      case ne_beat env peer of
        None \<Rightarrow> beat_peers env peers b
          (n\<lparr>cn_counters := cn_counters n\<lparr>cs_peer_unreachable := cs_peer_unreachable (cn_counters n) + 1\<rparr>\<rparr>)
      | Some reply \<Rightarrow>
          let b = note_reply peer reply b in
          if renews_lease n peer then
            (case on_heartbeat_reply (ne_reply_fault env peer) peer reply (ne_now env) (cn_election n) of
               (e, Inl err) \<Rightarrow> (n\<lparr>cn_election := e\<rparr>, Inl err)
             | (e, Inr (Some a)) \<Rightarrow> (n\<lparr>cn_election := e\<rparr>, Inr (Inl a))
             | (e, Inr None) \<Rightarrow> beat_peers env peers b (n\<lparr>cn_election := e\<rparr>))
          else beat_peers env peers b n)"

definition beat_targets :: "cluster_node \<Rightarrow> node_id list" where
  "beat_targets n =
     sorted_list_of_set
       (set (bt_keys (cn_peers n)) \<union>
        (case cn_catalog n of
           None \<Rightarrow> {}
         | Some st \<Rightarrow> mb_node ` set (bt_values (ca_members (st_catalog st))) - {cn_id n}))"

text \<open>One round of heartbeats; an action ends the round before its observations are kept.\<close>

definition beat :: "node_env \<Rightarrow> epoch_term \<Rightarrow> cluster_node \<Rightarrow> cluster_node \<times> action option result" where
  "beat env t n =
     (let n = apply_placement env (node_plan t n) n;
          own = (if cn_cordoned n then [] else foldl (claim (cn_id n)) [] (preferred_shards n))
      in case beat_peers env (beat_targets n)
                \<lparr>br_answered = {}, br_cordoned = {}, br_preferences = own\<rparr> n of
           (n, Inl err) \<Rightarrow> (n, Inl err)
         | (n, Inr (Inl a)) \<Rightarrow> (n, Inr (Some a))
         | (n, Inr (Inr b)) \<Rightarrow>
             (n\<lparr>cn_live := br_answered b, cn_cordoned_members := br_cordoned b,
                cn_preferences := br_preferences b\<rparr>, Inr None))"

text \<open>What a vote or heartbeat reply can ask for, which bounds how far \<^verbatim>\<open>perform\<close> calls itself.\<close>

fun action_rank :: "action \<Rightarrow> nat" where
  "action_rank (SteppedDown t why) = 0"
| "action_rank (Heartbeat t) = 1"
| "action_rank (BecameLeader t) = 2"
| "action_rank (RequestVotes t) = 3"

lemma on_heartbeat_reply_action:
  "on_heartbeat_reply f from reply now e = (e', Inr (Some a)) \<Longrightarrow> action_rank a = 0"
  by (auto simp: on_heartbeat_reply_def observe_term_def step_down_def Let_def split: prod.splits sum.splits if_splits)

lemma on_vote_reply_action:
  "on_vote_reply f from reply now e = (e', Inr (Some a)) \<Longrightarrow> action_rank a \<le> 2"
  by (auto simp: on_vote_reply_def observe_term_def step_down_def become_leader_def Let_def
      split: prod.splits sum.splits if_splits)

lemma beat_peers_action: "beat_peers env peers b n = (n', Inr (Inl a)) \<Longrightarrow> action_rank a = 0"
  by (induction peers arbitrary: b n)
    (auto simp: Let_def split: option.splits prod.splits sum.splits if_splits dest: on_heartbeat_reply_action)

lemma beat_action: "beat env t n = (n', Inr (Some a)) \<Longrightarrow> action_rank a = 0"
  by (auto simp: beat_def Let_def split: prod.splits sum.splits dest: beat_peers_action)

lemma campaign_action: "campaign_peers env peers n = (n', Inr (Some a)) \<Longrightarrow> action_rank a \<le> 2"
  by (induction peers arbitrary: n)
    (auto split: option.splits prod.splits sum.splits dest: on_vote_reply_action)

function perform :: "node_env \<Rightarrow> action \<Rightarrow> cluster_node \<Rightarrow> cluster_node \<times> unit result" where
  "perform env (RequestVotes t) n =
     (let n = n\<lparr>cn_counters := cn_counters n\<lparr>cs_elections_started := cs_elections_started (cn_counters n) + 1\<rparr>\<rparr> in
      case campaign_peers env (voter_peers n) n of
        (n, Inl err) \<Rightarrow> (n, Inl err)
      | (n, Inr None) \<Rightarrow> (n, Inr ())
      | (n, Inr (Some a)) \<Rightarrow> perform env a n)"
| "perform env (Heartbeat t) n =
     (case beat env t n of
        (n, Inl err) \<Rightarrow> (n, Inl err)
      | (n, Inr None) \<Rightarrow> (n, Inr ())
      | (n, Inr (Some a)) \<Rightarrow> perform env a n)"
| "perform env (BecameLeader t) n =
     (let n = n\<lparr>cn_counters := cn_counters n\<lparr>cs_became_leader := cs_became_leader (cn_counters n) + 1\<rparr>\<rparr>;
          n = apply_placement env (node_plan t n) n
      in case beat env t n of
           (n, Inl err) \<Rightarrow> (n, Inl err)
         | (n, Inr None) \<Rightarrow> (n, Inr ())
         | (n, Inr (Some a)) \<Rightarrow> perform env a n)"
| "perform env (SteppedDown t why) n =
     (n\<lparr>cn_counters := cn_counters n\<lparr>cs_stepped_down := cs_stepped_down (cn_counters n) + 1\<rparr>,
        cn_handover := (cn_handover n)\<lparr>ho_fence := fence_step_down t (cn_fence n)\<rparr>\<rparr>, Inr ())"
  by pat_completeness auto

termination perform
  by (relation "measure (\<lambda>(env, a, n). action_rank a)")
    (auto dest!: sym [of _ "campaign_peers _ _ _"] sym [of _ "beat _ _ _"] campaign_action beat_action)

section \<open>The entry points\<close>

definition node_request_step_down :: "node_env \<Rightarrow> cluster_node \<Rightarrow> cluster_node \<times> bool result" where
  "node_request_step_down env n =
     (case request_step_down (ne_now env) (cn_election n) of
        (e, None) \<Rightarrow> (n\<lparr>cn_election := e\<rparr>, Inr False)
      | (e, Some a) \<Rightarrow>
          (case perform env a (n\<lparr>cn_election := e\<rparr>) of
             (n, Inl err) \<Rightarrow> (n, Inl err) | (n, Inr _) \<Rightarrow> (n, Inr True)))"

definition refresh_catalog_voters :: "node_env \<Rightarrow> cluster_node \<Rightarrow> cluster_node \<times> bool result" where
  "refresh_catalog_voters env n =
     (case cn_catalog n of
        None \<Rightarrow> (n, Inr (cn_voting n))
      | Some st \<Rightarrow>
          let c = st_catalog st; participating = is_voter c (cn_id n) in
          case set_voter_configuration (fst (voter_sets c)) (snd (voter_sets c)) (cn_election n) of
            (e, Inl err) \<Rightarrow> (n\<lparr>cn_election := e\<rparr>, Inl err)
          | (e, Inr _) \<Rightarrow>
              if \<not> participating \<and> el_role e = Leader then
                (case request_step_down (ne_now env) e of
                   (e, None) \<Rightarrow> (n\<lparr>cn_election := e\<rparr>, Inr participating)
                 | (e, Some a) \<Rightarrow>
                     (case perform env a (n\<lparr>cn_election := e\<rparr>) of
                        (n, Inl err) \<Rightarrow> (n, Inl err) | (n, Inr _) \<Rightarrow> (n, Inr participating)))
              else (n\<lparr>cn_election := e\<rparr>, Inr participating))"

definition tick_once :: "node_env \<Rightarrow> cluster_node \<Rightarrow> cluster_node \<times> unit result" where
  "tick_once env n =
     (case refresh_catalog_voters env n of
        (n, Inl err) \<Rightarrow> (n, Inl err)
      | (n, Inr False) \<Rightarrow> (n, Inr ())
      | (n, Inr True) \<Rightarrow>
          (case tick (fst (ne_faults env)) (snd (ne_faults env)) (ne_now env) (cn_election n) of
             (e, Inl err) \<Rightarrow> (n\<lparr>cn_election := e\<rparr>, Inl err)
           | (e, Inr None) \<Rightarrow> (n\<lparr>cn_election := e\<rparr>, Inr ())
           | (e, Inr (Some a)) \<Rightarrow> perform env a (n\<lparr>cn_election := e\<rparr>)))"

definition count_vote :: "vote_reply \<Rightarrow> cluster_node \<Rightarrow> cluster_node" where
  "count_vote reply n =
     n\<lparr>cn_counters :=
        (if vr_granted reply
         then cn_counters n\<lparr>cs_votes_granted := cs_votes_granted (cn_counters n) + 1\<rparr>
         else cn_counters n\<lparr>cs_votes_refused := cs_votes_refused (cn_counters n) + 1\<rparr>)\<rparr>"

definition vote_as_voter ::
    "(catalog \<Rightarrow> digest) \<Rightarrow> node_env \<Rightarrow> vote_request \<Rightarrow> cluster_node \<Rightarrow> cluster_node \<times> vote_reply result" where
  "vote_as_voter dig env req n =
     (case on_vote_request (fst (ne_faults env)) (snd (ne_faults env)) req (ne_now env)
             (current_durability dig n) (cn_election n) of
        (e, Inl err) \<Rightarrow> (n\<lparr>cn_election := e\<rparr>, Inl err)
      | (e, Inr reply) \<Rightarrow>
          if el_role (cn_election n) = Leader \<and> el_role e \<noteq> Leader then
            (case perform env (SteppedDown (el_term e) ''candidate carried a higher term'') (n\<lparr>cn_election := e\<rparr>) of
               (n, Inl err) \<Rightarrow> (n, Inl err)
             | (n, Inr _) \<Rightarrow> (count_vote reply n, Inr reply))
          else (count_vote reply (n\<lparr>cn_election := e\<rparr>), Inr reply))"

definition handle_vote_request ::
    "(catalog \<Rightarrow> digest) \<Rightarrow> node_env \<Rightarrow> vote_request \<Rightarrow> cluster_node \<Rightarrow> cluster_node \<times> vote_reply result" where
  "handle_vote_request dig env req n =
     (case check_participating n of
        Inl err \<Rightarrow> (n, Inl err)
      | Inr _ \<Rightarrow>
          (case refresh_catalog_voters env n of
             (n, Inl err) \<Rightarrow> (n, Inl err)
           | (n, Inr False) \<Rightarrow>
               (n, Inr (vote_refusal (el_term (cn_election n)) ''this node is a storage member, not a catalog voter''))
           | (n, Inr True) \<Rightarrow> vote_as_voter dig env req n))"

definition handle_heartbeat ::
    "node_env \<Rightarrow> heartbeat \<Rightarrow> cluster_node \<Rightarrow> cluster_node \<times> heartbeat_reply result" where
  "handle_heartbeat env hb n =
     (case check_participating n of
        Inl err \<Rightarrow> (n, Inl err)
      | Inr _ \<Rightarrow>
          let n = (if hb_term hb \<ge> el_term (cn_election n) \<and> pl_term (hb_placement hb) \<ge> pl_term (cn_placement n)
                   then apply_placement env (hb_placement hb) n else n)
          in case on_heartbeat (fst (ne_faults env)) hb (ne_now env) (cn_election n) of
               (e, Inl err) \<Rightarrow> (n\<lparr>cn_election := e\<rparr>, Inl err)
             | (e, Inr reply) \<Rightarrow>
                 let reply = reply\<lparr>hr_cordoned := cn_cordoned n, hr_prefers := preferred_shards n\<rparr> in
                 if el_role (cn_election n) = Leader \<and> el_role e \<noteq> Leader then
                   (case perform env (SteppedDown (hb_term hb) ''node leads a higher term'') (n\<lparr>cn_election := e\<rparr>) of
                      (n, Inl err) \<Rightarrow> (n, Inl err) | (n, Inr _) \<Rightarrow> (n, Inr reply))
                 else (n\<lparr>cn_election := e\<rparr>, Inr reply))"

end
