(* ===== verification/Node_Safety.thy ===== *)
theory Node_Safety
  imports Cluster_Node
begin

text \<open>
  What the driver makes of the election's decisions: when a leader's gates shut, when a partitioned
  node's gates stay open, and when a campaign ends in leadership.
\<close>

section \<open>Frames\<close>

lemma apply_placement_election [simp]: "cn_election (apply_placement env p n) = cn_election n"
  by (simp add: apply_placement_def Let_def split: prod.split sum.split)

lemma apply_placement_id [simp]: "cn_id (apply_placement env p n) = cn_id n"
  by (simp add: apply_placement_def Let_def split: prod.split sum.split)

lemma apply_placement_config [simp]:
  "cn_stop (apply_placement env p n) = cn_stop n"
  "cn_catalog (apply_placement env p n) = cn_catalog n"
  "cn_peers (apply_placement env p n) = cn_peers n"
  by (simp_all add: apply_placement_def Let_def split: prod.split sum.split)

lemma apply_placement_same [simp]: "cn_placement n = p \<Longrightarrow> apply_placement env p n = n"
  by (simp add: apply_placement_def)

lemma node_plan_updates [simp]:
  "node_plan t (n\<lparr>cn_counters := c\<rparr>) = node_plan t n"
  "node_plan t (n\<lparr>cn_election := e\<rparr>) = node_plan t n"
  "node_plan t (n\<lparr>cn_placement := p\<rparr>) = node_plan t n"
  "node_plan t (n\<lparr>cn_handover := h\<rparr>) = node_plan t n"
  "node_plan t (n\<lparr>cn_takeovers := ss\<rparr>) = node_plan t n"
  by (auto simp: node_plan_def Let_def split: option.split)

section \<open>Roles and actions\<close>

definition steps_down :: "action option \<Rightarrow> bool" where
  "steps_down x \<longleftrightarrow> (\<exists>t why. x = Some (SteppedDown t why))"

lemma steps_down_simps [simp]:
  "steps_down (Some (SteppedDown t why))" "\<not> steps_down None" "\<not> steps_down (Some (BecameLeader t))"
  "\<not> steps_down (Some (Heartbeat t))" "\<not> steps_down (Some (RequestVotes t))"
  by (simp_all add: steps_down_def)

lemma observe_term_role:
  "observe_term f t now why e = (e', r) \<Longrightarrow>
    (\<exists>err. r = Inl err \<and> el_role e' = el_role e) \<or> (\<exists>t why. r = Inr (SteppedDown t why) \<and> el_role e' = Follower)"
  by (auto simp: observe_term_def step_down_def Let_def split: prod.splits sum.splits if_splits)

lemma on_vote_reply_keeps:
  "on_vote_reply f from reply now e = (e', r) \<Longrightarrow> el_role e = Leader \<Longrightarrow>
    el_role e' = Leader \<or> (\<exists>x. r = Inr x \<and> steps_down x)"
  by (auto simp: on_vote_reply_def split: prod.splits sum.splits if_splits dest!: observe_term_role)

lemma on_heartbeat_reply_keeps:
  "on_heartbeat_reply f from reply now e = (e', r) \<Longrightarrow> el_role e = Leader \<Longrightarrow>
    el_role e' = Leader \<or> (\<exists>x. r = Inr x \<and> steps_down x)"
  by (auto simp: on_heartbeat_reply_def Let_def split: prod.splits sum.splits if_splits dest!: observe_term_role)

lemma campaign_keeps:
  "campaign_peers env peers n = (n', r) \<Longrightarrow> el_role (cn_election n) = Leader \<Longrightarrow>
    el_role (cn_election n') = Leader \<or> (\<exists>x. r = Inr x \<and> steps_down x)"
proof (induction peers arbitrary: n)
  case Nil
  then show ?case by simp
next
  case (Cons p ps)
  show ?case
  proof (cases "ne_vote env p")
    case None
    then show ?thesis using Cons by (auto dest!: Cons.IH)
  next
    case (Some reply)
    obtain e x where v: "on_vote_reply (ne_reply_fault env p) p reply (ne_now env) (cn_election n) = (e, x)" by force
    note k = on_vote_reply_keeps [OF v Cons.prems(2)]
    show ?thesis using Cons.prems(1) Some v k Cons.IH [of "n\<lparr>cn_election := e\<rparr>"]
      by (auto split: sum.splits option.splits)
  qed
qed

lemma beat_peers_keeps:
  "beat_peers env peers b n = (n', r) \<Longrightarrow> el_role (cn_election n) = Leader \<Longrightarrow>
    el_role (cn_election n') = Leader \<or> (\<exists>x. r = Inr (Inl x) \<and> steps_down (Some x))"
proof (induction peers arbitrary: b n)
  case Nil
  then show ?case by simp
next
  case (Cons p ps)
  let ?n = "n\<lparr>cn_counters := cn_counters n\<lparr>cs_heartbeats_sent := cs_heartbeats_sent (cn_counters n) + 1\<rparr>\<rparr>"
  show ?case
  proof (cases "ne_beat env p")
    case None
    then show ?thesis using Cons.prems by (auto simp: Let_def dest!: Cons.IH)
  next
    case (Some reply)
    obtain e x where v: "on_heartbeat_reply (ne_reply_fault env p) p reply (ne_now env) (cn_election n) = (e, x)" by force
    note k = on_heartbeat_reply_keeps [OF v Cons.prems(2)]
    show ?thesis using Cons.prems Some v k Cons.IH [of "note_reply p reply b" "?n\<lparr>cn_election := e\<rparr>"]
        Cons.IH [of "note_reply p reply b" ?n]
      by (auto simp: Let_def split: sum.splits option.splits if_splits)
  qed
qed

lemma beat_keeps:
  "beat env t n = (n', r) \<Longrightarrow> el_role (cn_election n) = Leader \<Longrightarrow>
    el_role (cn_election n') = Leader \<or> (\<exists>x. r = Inr x \<and> steps_down x)"
  by (auto simp: beat_def Let_def split: prod.splits sum.splits dest!: beat_peers_keeps)

text \<open>Performing what a leader decided leaves it leading or with every gate shut.\<close>

definition leads_or_shut :: "cluster_node \<Rightarrow> bool" where
  "leads_or_shut n \<longleftrightarrow> el_role (cn_election n) = Leader \<or> fe_led (cn_fence n) = []"

lemma perform_step_down [simp]:
  "fe_led (cn_fence (fst (perform env (SteppedDown t why) n))) = []"
  by (simp add: fence_step_down_def)

lemma perform_keeps:
  "el_role (cn_election n) = Leader \<or> steps_down (Some a) \<Longrightarrow> leads_or_shut (fst (perform env a n))"
proof (induction "action_rank a" arbitrary: a n rule: less_induct)
  case less
  have beat: "leads_or_shut (fst (case beat env t m of
        (n, Inl err) \<Rightarrow> (n, Inl err) | (n, Inr None) \<Rightarrow> (n, Inr ()) | (n, Inr (Some a)) \<Rightarrow> perform env a n))"
    if "el_role (cn_election m) = Leader" and rank: "0 < action_rank a" for m t
  proof -
    obtain n' r where b: "beat env t m = (n', r)" by force
    have next_ok: "leads_or_shut (fst (perform env x n'))" if "r = Inr (Some x)" for x
      by (rule less.hyps) (use b that rank beat_action [of env t m n' x] in \<open>cases x; simp\<close>)+
    then show ?thesis
      using b beat_keeps [OF b that(1)] by (auto simp: leads_or_shut_def split: sum.split option.split)
  qed
  show ?case
  proof (cases a)
    case (RequestVotes t)
    let ?n = "n\<lparr>cn_counters := cn_counters n\<lparr>cs_elections_started := cs_elections_started (cn_counters n) + 1\<rparr>\<rparr>"
    obtain n' r where c: "campaign_peers env (voter_peers ?n) ?n = (n', r)" by force
    have k: "el_role (cn_election n') = Leader \<or> (\<exists>x. r = Inr x \<and> steps_down x)"
      using campaign_keeps [OF c] less.prems RequestVotes by simp
    have next_ok: "leads_or_shut (fst (perform env x n'))" if "r = Inr (Some x)" for x
      by (rule less.hyps) (use RequestVotes c k that campaign_action [of env "voter_peers ?n" ?n n' x] in auto)
    then show ?thesis
      using RequestVotes c k by (auto simp: leads_or_shut_def split: sum.split option.split)
  next
    case (Heartbeat t)
    then show ?thesis using less.prems beat [of n t] by simp
  next
    case (BecameLeader t)
    then show ?thesis using less.prems by (simp add: Let_def) (rule beat; simp)
  next
    case (SteppedDown t why)
    then show ?thesis by (simp add: leads_or_shut_def fence_step_down_def)
  qed
qed

section \<open>A leader that stops leading\<close>

datatype node_event = NodeTick | NodeVote vote_request | NodeHeartbeat heartbeat | NodeStepDown

fun node_handle ::
    "(catalog \<Rightarrow> digest) \<Rightarrow> node_env \<Rightarrow> node_event \<Rightarrow> cluster_node \<Rightarrow> cluster_node \<times> bool" where
  "node_handle dig env NodeTick n = (case tick_once env n of (n, r) \<Rightarrow> (n, is_ok r))"
| "node_handle dig env (NodeVote req) n = (case handle_vote_request dig env req n of (n, r) \<Rightarrow> (n, is_ok r))"
| "node_handle dig env (NodeHeartbeat hb) n = (case handle_heartbeat env hb n of (n, r) \<Rightarrow> (n, is_ok r))"
| "node_handle dig env NodeStepDown n = (case node_request_step_down env n of (n, r) \<Rightarrow> (n, is_ok r))"

lemma request_step_down_leader:
  "el_role e = Leader \<Longrightarrow> \<exists>e' t why. request_step_down now e = (e', Some (SteppedDown t why))"
  by (simp add: request_step_down_def step_down_def Let_def)

lemma set_voter_configuration_role:
  "set_voter_configuration current nxt e = (e', r) \<Longrightarrow> el_role e' = el_role e"
  by (auto simp: set_voter_configuration_def Let_def split: if_splits)

lemma refresh_keeps:
  assumes "refresh_catalog_voters env n = (m, r)" and "el_role (cn_election n) = Leader"
  shows "leads_or_shut m \<and> (r = Inr True \<longrightarrow> el_role (cn_election m) = Leader)"
proof (cases "cn_catalog n")
  case None
  with assms show ?thesis by (auto simp: refresh_catalog_voters_def leads_or_shut_def)
next
  case (Some st)
  let ?c = "st_catalog st"
  obtain e x where c: "set_voter_configuration (fst (voter_sets ?c)) (snd (voter_sets ?c)) (cn_election n) = (e, x)"
    by force
  have lead: "el_role e = Leader" using set_voter_configuration_role [OF c] assms(2) by simp
  obtain e' t why where d: "request_step_down (ne_now env) e = (e', Some (SteppedDown t why))"
    using request_step_down_leader [OF lead] by blast
  show ?thesis
    using assms(1) Some c lead d
    by (auto simp: refresh_catalog_voters_def Let_def leads_or_shut_def fence_step_down_def
        split: sum.splits if_splits)
qed

lemma tick_leader:
  "tick f1 f2 now e = (e', r) \<Longrightarrow> el_role e = Leader \<Longrightarrow>
    el_role e' = Leader \<or> (\<exists>x. r = Inr x \<and> steps_down x)"
  by (auto simp: tick_def step_down_def split: if_splits)

lemma tick_once_keeps:
  assumes "el_role (cn_election n) = Leader"
  shows "leads_or_shut (fst (tick_once env n))"
proof -
  obtain m r where m: "refresh_catalog_voters env n = (m, r)" by force
  note k = refresh_keeps [OF m assms]
  obtain e x where t: "tick (fst (ne_faults env)) (snd (ne_faults env)) (ne_now env) (cn_election m) = (e, x)"
    by force
  show ?thesis
  proof (cases "r = Inr True")
    case True
    then have lead: "el_role (cn_election m) = Leader" using k by blast
    note after = tick_leader [OF t lead]
    have "leads_or_shut (fst (perform env a (m\<lparr>cn_election := e\<rparr>)))" if "x = Inr (Some a)" for a
      by (rule perform_keeps) (use that after in auto)
    with True after show ?thesis
      by (auto simp: tick_once_def m t leads_or_shut_def split: sum.split option.split)
  next
    case False
    with k show ?thesis by (auto simp: tick_once_def m split: sum.split bool.split)
  qed
qed

lemma vote_as_voter_keeps:
  "vote_as_voter dig env req n = (n', Inr reply) \<Longrightarrow> el_role (cn_election n) = Leader \<Longrightarrow> leads_or_shut n'"
  by (auto simp: vote_as_voter_def count_vote_def leads_or_shut_def fence_step_down_def
      split: prod.splits sum.splits if_splits)

lemma handle_vote_request_keeps:
  assumes "handle_vote_request dig env req n = (n', Inr reply)" and "el_role (cn_election n) = Leader"
  shows "leads_or_shut n'"
proof -
  obtain m r where m: "refresh_catalog_voters env n = (m, r)" by force
  note k = refresh_keeps [OF m assms(2)]
  show ?thesis
    using assms(1) k
    by (auto simp: handle_vote_request_def m split: sum.splits bool.splits dest: vote_as_voter_keeps)
qed

lemma on_heartbeat_error_role:
  "on_heartbeat f hb now e = (e', Inl err) \<Longrightarrow> el_role e' = el_role e"
  by (auto simp: on_heartbeat_def follow_leader_def Let_def split: prod.splits sum.splits if_splits
      dest: observe_term_role)

lemma handle_heartbeat_keeps:
  "el_role (cn_election n) = Leader \<Longrightarrow> leads_or_shut (fst (handle_heartbeat env hb n))"
  by (auto simp: handle_heartbeat_def leads_or_shut_def fence_step_down_def Let_def
      split: prod.split sum.split dest: on_heartbeat_error_role)

lemma node_request_step_down_keeps:
  assumes "el_role (cn_election n) = Leader"
  shows "leads_or_shut (fst (node_request_step_down env n))"
  using request_step_down_leader [OF assms, of "ne_now env"]
  by (auto simp: node_request_step_down_def leads_or_shut_def fence_step_down_def)

text \<open>
  (C6) A coordinator that stops leading stops writing in the same handler: whichever entry point a
  leader runs (a tick with any replies from its peers, a vote request, a heartbeat, an operator's
  step-down), and whatever faults of the term file it meets on the way, if the handler returns and the node no
  longer leads then every one of its write gates is shut.
\<close>

theorem deposed_leader_shuts_every_gate:
  assumes "el_role (cn_election n) = Leader" and "node_handle dig env ev n = (n', True)"
    and "el_role (cn_election n') \<noteq> Leader"
  shows "fe_led (cn_fence n') = []"
proof -
  have "leads_or_shut n'"
  proof (cases ev)
    case NodeTick
    then show ?thesis using assms(2) tick_once_keeps [OF assms(1), of env] by (auto split: prod.splits)
  next
    case (NodeVote req)
    then show ?thesis using assms(1,2) handle_vote_request_keeps [of dig env req n]
      by (auto split: prod.splits simp: is_ok_iff)
  next
    case (NodeHeartbeat hb)
    then show ?thesis using assms(2) handle_heartbeat_keeps [OF assms(1), of env hb] by (auto split: prod.splits)
  next
    case NodeStepDown
    then show ?thesis using assms(2) node_request_step_down_keeps [OF assms(1), of env] by (auto split: prod.splits)
  qed
  with assms(3) show ?thesis by (simp add: leads_or_shut_def)
qed

text \<open>Three nodes; node 1 leads term 3 and has the gate of shard 0 open.\<close>

definition demo_election :: election where
  "demo_election =
     \<lparr>el_cfg = election_floor 1 [2, 3],
      el_terms = \<lparr>tst_mem = \<lparr>ts_term = 3, ts_voted_for = Some 1\<rparr>, tst_disk = \<lparr>td_file = None, td_tmp = None\<rparr>\<rparr>,
      el_role = Leader, el_leader = Some 1, el_last_contact = 0, el_last_heartbeat = 0, el_votes = {1, 2},
      el_acks = {}, el_lease_start = 0, el_stepdown_backoff = None, el_current_voters = {1, 2, 3},
      el_next_voters = None\<rparr>"

definition demo_owner :: handover where
  "demo_owner =
     \<lparr>ho_fence = fence_open_for [0] 3 (fence_new 1 3), ho_modes = modes_new, ho_following = {}, ho_shards = [0],
      ho_paused = False, ho_stop = False\<rparr>"

definition demo_node :: cluster_node where
  "demo_node = node_new 1 demo_election demo_owner [(2, ''b''), (3, ''c'')] (durability_new 0) [0]"

definition demo_node_env :: node_env where
  "demo_node_env =
     \<lparr>ne_now = 1, ne_faults = (NoFault, NoFault), ne_reply_fault = (\<lambda>_. NoFault), ne_vote = (\<lambda>_. None),
      ne_beat = (\<lambda>_. None), ne_applying = False, ne_handover = (\<lambda>_. demo_handover_env)\<rparr>"

lemmas demo_node_simps =
  demo_node_def demo_node_env_def node_new_def demo_election_def demo_owner_def election_floor_def

theorem deposed_leader_shuts_every_gate_witness:
  "fe_led (cn_fence demo_node) \<noteq> [] \<and>
   fe_led (cn_fence (fst (node_handle (\<lambda>_. 0) demo_node_env NodeStepDown demo_node))) = []"
proof -
  have "node_handle (\<lambda>_. 0) demo_node_env NodeStepDown demo_node =
      (fst (node_handle (\<lambda>_. 0) demo_node_env NodeStepDown demo_node), True)"
    by (simp add: node_request_step_down_def request_step_down_def step_down_def Let_def demo_node_simps)
  then have "fe_led (cn_fence (fst (node_handle (\<lambda>_. 0) demo_node_env NodeStepDown demo_node))) = []"
    by (rule deposed_leader_shuts_every_gate [rotated])
      (simp_all add: node_request_step_down_def request_step_down_def step_down_def Let_def demo_node_simps)
  then show ?thesis by (simp add: demo_node_simps fence_open_for_def fence_new_def)
qed

section \<open>Ways the gates and the role part\<close>

lemma advance_to_newer:
  "ts_term (tst_mem ts) < t \<Longrightarrow> advance_to NoFault t ts =
    (\<lparr>tst_mem = \<lparr>ts_term = t, ts_voted_for = None\<rparr>,
       tst_disk = \<lparr>td_file = Some (term_body \<lparr>ts_term = t, ts_voted_for = None\<rparr>), td_tmp = None\<rparr>\<rparr>, Inr True)"
  by (simp add: advance_to_def term_commit_def term_persist_def)

text \<open>
  (C30) One error path leaves a deposed leader writing: when a leader hears a candidate of a higher
  term, records the term and then fails to record its vote, the error returns before the
  step-down is performed, so the node is a follower of the new term with all its gates as open as
  they were.
\<close>

theorem failed_vote_write_leaves_the_gates_open:
  assumes "cn_catalog n = None" and "cn_voting n" and "\<not> cn_stop n"
    and "el_role (cn_election n) = Leader" and "vq_term req > el_term (cn_election n)"
    and "is_configured_voter (cn_election n) (vq_candidate req)"
    and "compare_to (vq_durability req) (cn_durability n) = AtLeast"
    and "ne_faults env = (NoFault, f)" and "f \<noteq> NoFault"
  shows "\<exists>err. snd (handle_vote_request dig env req n) = Inl err \<and>
    el_role (cn_election (fst (handle_vote_request dig env req n))) = Follower \<and>
    el_term (cn_election (fst (handle_vote_request dig env req n))) = vq_term req \<and>
    cn_fence (fst (handle_vote_request dig env req n)) = cn_fence n"
proof -
  let ?ts = "\<lparr>tst_mem = \<lparr>ts_term = vq_term req, ts_voted_for = None\<rparr>,
    tst_disk = \<lparr>td_file = Some (term_body \<lparr>ts_term = vq_term req, ts_voted_for = None\<rparr>), td_tmp = None\<rparr>\<rparr>"
  have adv: "advance_to NoFault (vq_term req) (el_terms (cn_election n)) = (?ts, Inr True)"
    using assms(5) by (rule advance_to_newer)
  obtain d err where fail: "term_persist f \<lparr>ts_term = vq_term req, ts_voted_for = Some (vq_candidate req)\<rparr> (tst_disk ?ts)
      = (d, Inl err)"
    using assms(9) by (cases f) (auto simp: term_persist_def)
  have grant: "grant_vote f (vq_term req) (vq_candidate req) ?ts = (?ts\<lparr>tst_disk := d\<rparr>, Inl err)"
    using fail by (simp add: grant_vote_def term_commit_def)
  show ?thesis
    using assms adv grant
    by (simp add: handle_vote_request_def check_participating_def refresh_catalog_voters_def vote_as_voter_def
        current_durability_def on_vote_request_def observe_term_def step_down_def decide_vote_def
        is_configured_voter_def Let_def)
qed

theorem failed_vote_write_leaves_the_gates_open_witness:
  "fence_is_open (cn_fence (fst (handle_vote_request (\<lambda>_. 0) (demo_node_env\<lparr>ne_faults := (NoFault, SyncFails)\<rparr>)
     \<lparr>vq_term = 4, vq_candidate = 2, vq_durability = durability_new 0\<rparr> demo_node))) 0"
proof -
  have "cn_fence (fst (handle_vote_request (\<lambda>_. 0) (demo_node_env\<lparr>ne_faults := (NoFault, SyncFails)\<rparr>)
     \<lparr>vq_term = 4, vq_candidate = 2, vq_durability = durability_new 0\<rparr> demo_node)) = cn_fence demo_node"
    using failed_vote_write_leaves_the_gates_open
      [of demo_node "\<lparr>vq_term = 4, vq_candidate = 2, vq_durability = durability_new 0\<rparr>"
        "demo_node_env\<lparr>ne_faults := (NoFault, SyncFails)\<rparr>" SyncFails "\<lambda>_. 0"]
    by (simp add: demo_node_simps is_configured_voter_def compare_to_def durability_new_def
        catalog_position_default_def durability_lsn_def)
  then show ?thesis
    by (simp add: demo_node_simps fence_open_for_def fence_new_def fence_is_open_def bt_mem_def bt_get_def)
qed

text \<open>
  (C22) A leader deposed by a heartbeat never serves the shards that heartbeat gave it: it first opens
  their gates, then steps down and shuts them, and every repetition of the same map is skipped as
  already applied, so for as long as the coordinator publishes that map those shards have no writer.
\<close>

theorem deposed_by_heartbeat_stays_shut:
  assumes "\<not> cn_stop n" and "el_role (cn_election n) = Leader" and "hb_term hb > el_term (cn_election n)"
    and "pl_term (cn_placement n) \<le> pl_term (hb_placement hb)" and "fst (ne_faults env) = NoFault"
    and "cn_placement (apply_placement env (hb_placement hb) n) = hb_placement hb"
  shows "fe_led (cn_fence (foldl (\<lambda>n env. fst (handle_heartbeat env hb n)) n (env # envs))) = []"
proof -
  define shut where "shut m \<longleftrightarrow> \<not> cn_stop m \<and> cn_placement m = hb_placement hb \<and> fe_led (cn_fence m) = [] \<and>
    el_term (cn_election m) = hb_term hb \<and> el_role (cn_election m) = Follower" for m
  let ?m = "apply_placement env (hb_placement hb) n"
  have le: "el_term (cn_election n) \<le> hb_term hb" using assms(3) by simp
  obtain e reply where hb: "on_heartbeat NoFault hb (ne_now env) (cn_election n) = (e, Inr reply)"
      "el_role e = Follower" "el_term e = hb_term hb"
    using assms(2,3) by (simp add: on_heartbeat_def observe_term_def step_down_def follow_leader_def
        advance_to_newer Let_def less_not_sym)
  have first: "shut (fst (handle_heartbeat env hb n))"
    using assms le hb by (simp add: shut_def handle_heartbeat_def check_participating_def fence_step_down_def Let_def)
  have again: "shut (fst (handle_heartbeat env' hb m))" if "shut m" for m env'
    using that by (auto simp: shut_def handle_heartbeat_def check_participating_def on_heartbeat_def
        follow_leader_def Let_def)
  have "shut (foldl (\<lambda>n env. fst (handle_heartbeat env hb n)) m envs)" if "shut m" for m
    using that by (induction envs arbitrary: m) (auto intro: again)
  from this [OF first] show ?thesis by (simp add: shut_def)
qed

definition demo_beat :: heartbeat where
  "demo_beat = \<lparr>hb_term = 4, hb_leader = 2, hb_placement = \<lparr>pl_term = 4, pl_assignments = [(0, 1)]\<rparr>\<rparr>"

theorem deposed_by_heartbeat_stays_shut_witness:
  "shards_for (hb_placement demo_beat) 1 = [0] \<and>
   fe_led (cn_fence (foldl (\<lambda>n env. fst (handle_heartbeat env demo_beat n)) demo_node [demo_node_env, demo_node_env])) = []"
proof -
  have "fe_led (cn_fence (foldl (\<lambda>n env. fst (handle_heartbeat env demo_beat n)) demo_node [demo_node_env, demo_node_env])) = []"
    by (rule deposed_by_heartbeat_stays_shut)
      (simp_all add: demo_node_simps demo_beat_def apply_placement_def placement_default_def Let_def)
  then show ?thesis by (simp add: demo_beat_def shards_for_def)
qed

section \<open>A node cut off from its peers\<close>

definition isolated :: "node_env \<Rightarrow> bool" where
  "isolated env \<longleftrightarrow> ne_vote env = (\<lambda>_. None) \<and> ne_beat env = (\<lambda>_. None)"

definition alone :: "fence \<Rightarrow> cluster_node \<Rightarrow> bool" where
  "alone f n \<longleftrightarrow> cn_catalog n = None \<and> el_role (cn_election n) \<noteq> Leader \<and> cn_fence n = f \<and>
     \<not> has_quorum (cn_election n) {el_node (cn_election n)}"

lemma campaign_isolated: "isolated env \<Longrightarrow> campaign_peers env peers n = (n', r) \<Longrightarrow>
    r = Inr None \<and> cn_election n' = cn_election n \<and> cn_handover n' = cn_handover n \<and> cn_catalog n' = cn_catalog n"
  by (induction peers arbitrary: n) (force simp: isolated_def)+

lemma stand_for_election_alone:
  "stand_for_election f1 f2 now e = (e', r) \<Longrightarrow> \<not> has_quorum e {el_node e} \<Longrightarrow> el_role e \<noteq> Leader \<Longrightarrow>
    el_role e' \<noteq> Leader \<and> \<not> has_quorum e' {el_node e'} \<and> ((\<exists>err. r = Inl err) \<or> (\<exists>t. r = Inr (Some (RequestVotes t))))"
  by (auto simp: stand_for_election_def Let_def split: prod.splits sum.splits if_splits)

lemma has_quorum_backoff [simp]: "has_quorum (e\<lparr>el_stepdown_backoff := b\<rparr>) A = has_quorum e A"
  by (simp add: has_quorum_def)

lemma tick_alone:
  "tick f1 f2 now e = (e', r) \<Longrightarrow> \<not> has_quorum e {el_node e} \<Longrightarrow> el_role e \<noteq> Leader \<Longrightarrow>
    el_role e' \<noteq> Leader \<and> \<not> has_quorum e' {el_node e'} \<and>
    ((\<exists>err. r = Inl err) \<or> r = Inr None \<or> (\<exists>t. r = Inr (Some (RequestVotes t))))"
  by (auto simp: tick_def Let_def split: option.splits if_splits dest!: stand_for_election_alone)

lemma tick_once_alone:
  assumes "isolated env" and "alone f n"
  shows "alone f (fst (tick_once env n))"
proof (cases "cn_voting n")
  case True
  obtain e r where t: "tick (fst (ne_faults env)) (snd (ne_faults env)) (ne_now env) (cn_election n) = (e, r)" by force
  note k = tick_alone [OF t]
  have stay: "alone f (n\<lparr>cn_election := e\<rparr>)" using k assms(2) by (simp add: alone_def)
  have "alone f (fst (perform env (RequestVotes u) (n\<lparr>cn_election := e\<rparr>)))" for u
  proof -
    let ?n = "n\<lparr>cn_election := e, cn_counters := cn_counters n\<lparr>cs_elections_started := cs_elections_started (cn_counters n) + 1\<rparr>\<rparr>"
    obtain m x where c: "campaign_peers env (voter_peers ?n) ?n = (m, x)" by force
    from campaign_isolated [OF assms(1) c] stay c show ?thesis by (auto simp: alone_def)
  qed
  with True stay k assms(2) show ?thesis
    by (auto simp: tick_once_def refresh_catalog_voters_def alone_def t split: sum.split option.split)
next
  case False
  with assms(2) show ?thesis by (simp add: tick_once_def refresh_catalog_voters_def alone_def)
qed

section \<open>A campaign that reaches a majority\<close>

definition granting :: "node_env \<Rightarrow> epoch_term \<Rightarrow> node_id set" where
  "granting env t = {p. \<exists>r. ne_vote env p = Some r \<and> vr_term r = t \<and> vr_granted r}"

definition replies_up_to :: "node_env \<Rightarrow> epoch_term \<Rightarrow> bool" where
  "replies_up_to env t \<longleftrightarrow> (\<forall>p r. ne_vote env p = Some r \<longrightarrow> vr_term r \<le> t) \<and>
     (\<forall>p r. ne_beat env p = Some r \<longrightarrow> hr_term r \<le> t)"

lemma campaign_wins:
  assumes "replies_up_to env t"
  shows "el_role (cn_election n) = Candidate \<Longrightarrow> el_term (cn_election n) = t \<Longrightarrow>
    \<forall>p \<in> set peers. is_configured_voter (cn_election n) p \<Longrightarrow>
    \<not> has_quorum (cn_election n) (el_votes (cn_election n)) \<Longrightarrow>
    has_quorum (cn_election n) (el_votes (cn_election n) \<union> (granting env t \<inter> set peers)) \<Longrightarrow>
    \<exists>e c. campaign_peers env peers n = (n\<lparr>cn_election := e, cn_counters := c\<rparr>, Inr (Some (BecameLeader t))) \<and>
      el_role e = Leader \<and> el_term e = t"
proof (induction peers arbitrary: n)
  case Nil
  then show ?case by simp
next
  case (Cons p ps)
  let ?e = "cn_election n"
  show ?case
  proof (cases "ne_vote env p")
    case None
    let ?n = "n\<lparr>cn_counters := cn_counters n\<lparr>cs_peer_unreachable := cs_peer_unreachable (cn_counters n) + 1\<rparr>\<rparr>"
    have "granting env t \<inter> set (p # ps) = granting env t \<inter> set ps" using None by (auto simp: granting_def)
    then show ?thesis using Cons.IH [of ?n] Cons.prems None by (fastforce simp: granting_def)
  next
    case (Some r)
    have le: "\<not> vr_term r > t" using Some assms by (simp add: replies_up_to_def not_less)
    show ?thesis
    proof (cases "vr_term r = t \<and> vr_granted r")
      case False
      then have "on_vote_reply (ne_reply_fault env p) p r (ne_now env) ?e = (?e, Inr None)"
        using le Cons.prems(1,2) by (auto simp: on_vote_reply_def)
      moreover have "granting env t \<inter> set (p # ps) = granting env t \<inter> set ps"
        using False Some by (auto simp: granting_def)
      ultimately show ?thesis using Cons.IH [of n] Cons.prems Some by simp
    next
      case True
      let ?v = "?e\<lparr>el_votes := insert p (el_votes ?e)\<rparr>"
      have conf: "is_configured_voter ?e p" using Cons.prems(3) by simp
      show ?thesis
      proof (cases "has_quorum ?e (insert p (el_votes ?e))")
        case q: True
        then show ?thesis
          using True Some conf Cons.prems(1,2)
          by (auto simp: on_vote_reply_def become_leader_def Let_def intro!: exI [of _ "cn_counters n"])
      next
        case q: False
        have "on_vote_reply (ne_reply_fault env p) p r (ne_now env) ?e = (?v, Inr None)"
          using True q conf Cons.prems(1,2) by (simp add: on_vote_reply_def Let_def)
        moreover have "el_votes ?v \<union> (granting env t \<inter> set ps) = el_votes ?e \<union> (granting env t \<inter> set (p # ps))"
          using True Some by (auto simp: granting_def)
        moreover have "is_configured_voter ?v x = is_configured_voter ?e x" for x by (simp add: is_configured_voter_def)
        ultimately show ?thesis
          using Cons.IH [of "n\<lparr>cn_election := ?v\<rparr>"] Cons.prems Some q by fastforce
      qed
    qed
  qed
qed

lemma on_heartbeat_reply_leads:
  assumes "hr_term r \<le> el_term e" and "el_role e = Leader"
  shows "\<exists>e'. on_heartbeat_reply f p r now e = (e', Inr None) \<and> el_role e' = Leader \<and> el_term e' = el_term e"
  using assms by (auto simp: on_heartbeat_reply_def Let_def not_less [symmetric])

lemma beat_peers_leads:
  assumes "replies_up_to env t"
  shows "el_role (cn_election n) = Leader \<Longrightarrow> el_term (cn_election n) = t \<Longrightarrow>
    \<exists>e c b'. beat_peers env peers b n = (n\<lparr>cn_election := e, cn_counters := c\<rparr>, Inr (Inr b')) \<and>
      el_role e = Leader \<and> el_term e = t"
proof (induction peers arbitrary: b n)
  case Nil
  then show ?case by (auto intro!: exI [of _ "cn_election n"] exI [of _ "cn_counters n"])
next
  case (Cons p ps)
  let ?n = "n\<lparr>cn_counters := cn_counters n\<lparr>cs_heartbeats_sent := cs_heartbeats_sent (cn_counters n) + 1\<rparr>\<rparr>"
  show ?case
  proof (cases "ne_beat env p")
    case None
    then show ?thesis
      using Cons.IH [of "?n\<lparr>cn_counters := cn_counters ?n\<lparr>cs_peer_unreachable := cs_peer_unreachable (cn_counters n) + 1\<rparr>\<rparr>" b]
        Cons.prems by (simp add: Let_def)
  next
    case (Some r)
    then have "hr_term r \<le> el_term (cn_election n)" using assms Cons.prems(2) by (simp add: replies_up_to_def)
    from on_heartbeat_reply_leads [OF this Cons.prems(1)]
    obtain e where e: "on_heartbeat_reply (ne_reply_fault env p) p r (ne_now env) (cn_election n) = (e, Inr None)"
      "el_role e = Leader" "el_term e = el_term (cn_election n)" by blast
    show ?thesis
      using Cons.IH [of "?n\<lparr>cn_election := e\<rparr>" "note_reply p r b"] Cons.IH [of ?n "note_reply p r b"]
        Cons.prems Some e
      by (auto simp: Let_def)
  qed
qed

lemma beat_leads:
  assumes "replies_up_to env t" and "el_role (cn_election m) = Leader" "el_term (cn_election m) = t"
    and "cn_placement m = node_plan t m"
  shows "\<exists>m'. beat env t m = (m', Inr None) \<and> el_role (cn_election m') = Leader \<and>
    el_term (cn_election m') = t \<and> cn_handover m' = cn_handover m"
proof -
  obtain e c b where "beat_peers env (beat_targets m) \<lparr>br_answered = {}, br_cordoned = {},
      br_preferences = (if cn_cordoned m then [] else foldl (claim (cn_id m)) [] (preferred_shards m))\<rparr> m
    = (m\<lparr>cn_election := e, cn_counters := c\<rparr>, Inr (Inr b))" "el_role e = Leader" "el_term e = t"
    using beat_peers_leads [OF assms(1-3)] by blast
  then show ?thesis using assms(4) by (simp add: beat_def Let_def)
qed

text \<open>A new leader whose replies are of its own term stays leader and opens exactly its shards.\<close>

lemma became_leader_opens:
  assumes reply: "replies_up_to env t" and lead: "el_role (cn_election n) = Leader" "el_term (cn_election n) = t"
    and place: "\<not> ne_applying env" "\<not> cn_ownership n" "cn_placement n \<noteq> node_plan t n" "fe_highest (cn_fence n) \<le> t"
  shows "\<exists>n'. perform env (BecameLeader t) n = (n', Inr ()) \<and> el_role (cn_election n') = Leader \<and>
    el_term (cn_election n') = t \<and>
    (\<forall>s. fence_is_open (cn_fence n') s \<longleftrightarrow> s \<in> set (shards_for (node_plan t n) (cn_id n)))"
proof -
  let ?n = "n\<lparr>cn_counters := cn_counters n\<lparr>cs_became_leader := cs_became_leader (cn_counters n) + 1\<rparr>\<rparr>"
  define m where "m = apply_placement env (node_plan t ?n) ?n"
  have plan: "node_plan t ?n = node_plan t n" by simp
  have same: "node_plan t m = node_plan t n" "cn_placement m = node_plan t n"
    using place by (simp_all add: m_def apply_placement_def Let_def)
  have "pl_term (node_plan t n) = t"
    by (simp add: node_plan_def with_preferences_def Let_def split: option.split)
  then have opened: "cn_fence m = fence_open_for (shards_for (node_plan t n) (cn_id n)) t (cn_fence n)"
    using place plan by (simp add: m_def apply_placement_def Let_def)
  have "el_role (cn_election m) = Leader" "el_term (cn_election m) = t" using lead by (simp_all add: m_def)
  from beat_leads [OF reply this] same
  obtain m' where "beat env t m = (m', Inr None)" "el_role (cn_election m') = Leader"
    "el_term (cn_election m') = t" "cn_handover m' = cn_handover m" by auto
  moreover have "apply_placement env (node_plan t n) ?n = m" by (simp add: m_def)
  ultimately show ?thesis using opened place(4) by (simp add: open_for_is_open)
qed

lemma derived_plan_owner:
  assumes "cn_catalog m = None" and "finite (cn_live m)" and "s < word_of_nat (length (cn_shards m))"
  obtains k where "owner (node_plan t m) s = Some k" "k \<in> insert (cn_id m) (cn_live m)"
    "k = cn_id m \<Longrightarrow> s \<in> set (shards_for (node_plan t m) (cn_id m))"
proof -
  define members where "members = (let members = sorted_list_of_set (cn_live m) @ [cn_id m];
      eligible = filter (\<lambda>k. k \<notin> cn_cordoned_members m \<and> \<not> (cn_cordoned m \<and> k = cn_id m)) members
    in if eligible = [] then members else eligible)"
  have members: "members \<noteq> []" "set members \<subseteq> insert (cn_id m) (cn_live m)"
    using assms(2) by (auto simp: members_def Let_def)
  have plan: "node_plan t m = with_preferences (word_of_nat (length (cn_shards m))) members (cn_preferences m) t"
    using assms(1) by (simp add: node_plan_def members_def Let_def)
  from with_preferences_owner [OF members(1), of s "word_of_nat (length (cn_shards m))" "cn_preferences m" t] assms(3)
  obtain k where "k \<in> set members" "owner (node_plan t m) s = Some k" by (auto simp: plan)
  then show thesis using members(2) by (intro that [of k]) (auto simp: plan shards_for_iff with_preferences_wf)
qed

text \<open>
  (C23) A primary that does not coordinate keeps its gates through a partition, and another node
  is given its shards. The map is derived, there being no committed catalog, and the new
  coordinator has no file handover attached. A node that is not the
  coordinator, holds the gate of a shard open and hears from nobody still has it open after any
  number of ticks. A node newly elected without it has that shard, if it is below the shard count,
  assigned to one of the members it knows to be alive, none of which is the cut-off node; and if
  that member is the new coordinator itself, it opens its own gate on being elected, so both nodes
  accept writes for the shard.
\<close>

theorem partitioned_primary_keeps_its_gates:
  assumes "\<forall>env \<in> set envs. isolated env" and "cn_catalog n = None" and "el_role (cn_election n) \<noteq> Leader"
    and "\<not> has_quorum (cn_election n) {el_node (cn_election n)}" and "fence_is_open (cn_fence n) s"
    and "el_role (cn_election m) = Leader" and "el_term (cn_election m) = t" and "replies_up_to env t"
    and "cn_catalog m = None" and "\<not> cn_ownership m" and "\<not> ne_applying env"
    and "cn_placement m \<noteq> node_plan t m" and "fe_highest (cn_fence m) \<le> t"
    and "finite (cn_live m)" and "cn_id n \<notin> cn_live m" and "cn_id m \<noteq> cn_id n"
    and "s < word_of_nat (length (cn_shards m))"
  shows "fence_is_open (cn_fence (foldl (\<lambda>n env. fst (tick_once env n)) n envs)) s \<and>
    (\<exists>k m'. owner (node_plan t m) s = Some k \<and> k \<noteq> cn_id n \<and> k \<in> insert (cn_id m) (cn_live m) \<and>
       perform env (BecameLeader t) m = (m', Inr ()) \<and>
       (k = cn_id m \<longrightarrow> fence_is_open (cn_fence m') s))"
proof
  have "alone (cn_fence n) n" using assms(2-4) by (simp add: alone_def)
  then have "alone (cn_fence n) (foldl (\<lambda>n env. fst (tick_once env n)) n envs)"
    using assms(1)
  proof (induction envs rule: rev_induct)
    case (snoc env envs)
    then show ?case by (simp add: tick_once_alone)
  qed simp
  then show "fence_is_open (cn_fence (foldl (\<lambda>n env. fst (tick_once env n)) n envs)) s"
    using assms(5) by (simp add: alone_def)
  obtain k where k: "owner (node_plan t m) s = Some k" "k \<in> insert (cn_id m) (cn_live m)"
    "k = cn_id m \<Longrightarrow> s \<in> set (shards_for (node_plan t m) (cn_id m))"
    using derived_plan_owner [OF assms(9,14,17), of t] by blast
  obtain m' where "perform env (BecameLeader t) m = (m', Inr ())"
    "\<forall>s. fence_is_open (cn_fence m') s \<longleftrightarrow> s \<in> set (shards_for (node_plan t m) (cn_id m))"
    using became_leader_opens [OF assms(8,6,7,11,10,12,13)] by blast
  with k assms(15,16) show "\<exists>k m'. owner (node_plan t m) s = Some k \<and> k \<noteq> cn_id n \<and> k \<in> insert (cn_id m) (cn_live m) \<and>
       perform env (BecameLeader t) m = (m', Inr ()) \<and> (k = cn_id m \<longrightarrow> fence_is_open (cn_fence m') s)"
    by (intro exI [of _ k] exI [of _ m']) auto
qed

definition demo_primary :: cluster_node where
  "demo_primary =
     demo_node\<lparr>cn_id := 1, cn_election := demo_election\<lparr>el_role := Follower, el_leader := Some 2\<rparr>\<rparr>"

text \<open>A coordinator of term 4 that has heard from nobody yet.\<close>

definition demo_coordinator :: cluster_node where
  "demo_coordinator =
     node_new 2
       (demo_election\<lparr>el_cfg := election_floor 2 [1, 3],
          el_terms := (el_terms demo_election)\<lparr>tst_mem := \<lparr>ts_term = 4, ts_voted_for = Some 2\<rparr>\<rparr>,
          el_leader := Some 2, el_votes := {2, 3}\<rparr>)
       (demo_owner\<lparr>ho_fence := fence_new 2 3\<rparr>) [(1, ''a''), (3, ''c'')] (durability_new 0) [0]"

lemma demo_coordinator_simps:
  "el_role (cn_election demo_coordinator) = Leader" "el_term (cn_election demo_coordinator) = 4"
  "cn_catalog demo_coordinator = None" "\<not> cn_ownership demo_coordinator" "cn_live demo_coordinator = {}"
  "cn_id demo_coordinator = 2" "cn_shards demo_coordinator = [0]" "fe_highest (cn_fence demo_coordinator) = 3"
  "pl_term (cn_placement demo_coordinator) = 0"
  by (simp_all add: demo_coordinator_def demo_node_simps fence_new_def placement_default_def)

theorem partitioned_primary_keeps_its_gates_witness:
  "fence_is_open (cn_fence (foldl (\<lambda>n env. fst (tick_once env n)) demo_primary [demo_node_env, demo_node_env])) 0 \<and>
   (\<exists>m'. perform demo_node_env (BecameLeader 4) demo_coordinator = (m', Inr ()) \<and> fence_is_open (cn_fence m') 0)"
proof -
  have primary: "cn_catalog demo_primary = None" "el_role (cn_election demo_primary) \<noteq> Leader" "cn_id demo_primary = 1"
    "\<not> has_quorum (cn_election demo_primary) {el_node (cn_election demo_primary)}" "fence_is_open (cn_fence demo_primary) 0"
    by (simp_all add: demo_primary_def demo_node_simps has_quorum_def majority_def fence_open_for_def fence_new_def
        fence_is_open_def bt_mem_def bt_get_def)
  have env: "\<forall>env \<in> set [demo_node_env, demo_node_env]. isolated env" "replies_up_to demo_node_env 4" "\<not> ne_applying demo_node_env"
    by (simp_all add: demo_node_env_def isolated_def replies_up_to_def)
  have "pl_term (node_plan 4 demo_coordinator) = 4"
    by (simp add: node_plan_def with_preferences_def Let_def split: option.split)
  then have "cn_placement demo_coordinator \<noteq> node_plan 4 demo_coordinator" using demo_coordinator_simps(9) by auto
  from partitioned_primary_keeps_its_gates [OF env(1) primary(1,2,4,5) demo_coordinator_simps(1,2) env(2)
      demo_coordinator_simps(3,4) env(3) this] show ?thesis
    by (auto simp: demo_coordinator_simps primary(3))
qed

text \<open>
  (C7) A due election with a willing majority ends in a serving leader. The node votes, has no
  committed catalog and no file handover attached, and no placement is being applied on it. It is
  not a leader and not holding back after a step-down; its timeout has passed; its term is not the
  last one; its term file can be written; its fence and its placement are of older terms; all its
  peers are configured voters. If the peers that answer are on no term newer than the next, and
  those that grant the next term make a majority with it, then one tick makes it leader of the next
  term and opens the gates of exactly the shards its own plan gives it.
\<close>

theorem willing_majority_elects_a_serving_leader:
  assumes mode: "cn_catalog n = None" "cn_voting n" "\<not> cn_ownership n" "\<not> ne_applying env"
    and due: "el_role (cn_election n) \<noteq> Leader" "el_stepdown_backoff (cn_election n) = None"
      "timeout (cn_election n) \<le> duration_since (ne_now env) (el_last_contact (cn_election n))"
    and t: "el_term (cn_election n) \<noteq> - 1" "t = el_term (cn_election n) + 1"
    and io: "ne_faults env = (NoFault, NoFault)" and reply: "replies_up_to env t"
    and peers: "\<forall>p \<in> set (bt_keys (cn_peers n)). is_configured_voter (cn_election n) p"
    and quorum: "has_quorum (cn_election n)
      (insert (el_node (cn_election n)) (granting env t \<inter> set (bt_keys (cn_peers n))))"
    and fence: "fe_highest (cn_fence n) \<le> t" "pl_term (cn_placement n) < t"
  shows "\<exists>n'. tick_once env n = (n', Inr ()) \<and> el_role (cn_election n') = Leader \<and>
    el_term (cn_election n') = t \<and>
    (\<forall>s. fence_is_open (cn_fence n') s \<longleftrightarrow> s \<in> set (shards_for (node_plan t n) (cn_id n)))"
proof -
  let ?e = "cn_election n"
  have newer: "el_term ?e < t" using t word_succ_greater [of "el_term ?e"] by simp
  have plan: "pl_term (node_plan t n) = t"
    by (simp add: node_plan_def with_preferences_def Let_def split: option.split)
  then have moved: "cn_placement n \<noteq> node_plan t n" using fence(2) by auto
  obtain ts where ts: "advance_to NoFault t (el_terms ?e) = (fst ts, Inr True)"
      "grant_vote NoFault t (el_node ?e) (fst ts) = (snd ts, Inr True)" "ts_term (tst_mem (snd ts)) = t"
    using advance_to_newer [OF newer] by (auto simp: grant_vote_def term_commit_def term_persist_def)
  let ?c = "?e\<lparr>el_terms := snd ts, el_role := Candidate, el_leader := None,
    el_last_contact := ne_now env, el_votes := {el_node ?e}\<rparr>"
  have tick: "tick NoFault NoFault (ne_now env) ?e =
      (if has_quorum ?e {el_node ?e} then case become_leader (ne_now env) ?c of (e, a) \<Rightarrow> (e, Inr (Some a))
       else (?c, Inr (Some (RequestVotes t))))"
    using due ts t(2) by (simp add: tick_def stand_for_election_def Let_def)
  show ?thesis
  proof (cases "has_quorum ?e {el_node ?e}")
    case True
    let ?l = "fst (become_leader (ne_now env) ?c)"
    show ?thesis
      using became_leader_opens [OF reply, of "n\<lparr>cn_election := ?l\<rparr>"] True tick ts(3) mode io moved fence(1)
      by (auto simp: tick_once_def refresh_catalog_voters_def become_leader_def)
  next
    case False
    let ?n = "n\<lparr>cn_election := ?c, cn_counters := cn_counters n\<lparr>cs_elections_started := cs_elections_started (cn_counters n) + 1\<rparr>\<rparr>"
    have "is_configured_voter ?c p = is_configured_voter ?e p" for p by (simp add: is_configured_voter_def)
    then obtain e c where win: "campaign_peers env (bt_keys (cn_peers n)) ?n =
        (?n\<lparr>cn_election := e, cn_counters := c\<rparr>, Inr (Some (BecameLeader t)))" "el_role e = Leader" "el_term e = t"
      using campaign_wins [OF reply, of ?n "bt_keys (cn_peers n)"] False ts(3) peers quorum by auto
    show ?thesis
      using became_leader_opens [OF reply, of "?n\<lparr>cn_election := e, cn_counters := c\<rparr>"] False tick win mode io moved fence(1)
      by (auto simp: tick_once_def refresh_catalog_voters_def voter_peers_def)
  qed
qed

definition demo_candidate :: cluster_node where
  "demo_candidate = demo_node\<lparr>cn_election := demo_election\<lparr>el_role := Follower, el_leader := None, el_votes := {}\<rparr>\<rparr>"

definition demo_votes_env :: node_env where
  "demo_votes_env = demo_node_env\<lparr>ne_now := 10000000000,
     ne_vote := (\<lambda>p. if p = 2 then Some \<lparr>vr_term = 4, vr_granted = True, vr_reason = []\<rparr> else None)\<rparr>"

lemma demo_timeout: "timeout (cn_election demo_candidate) < 3000000000"
proof -
  have "unat (h mod 1500000000 :: u64) < 1500000000" for h by (simp add: unat_mod)
  then show ?thesis
    by (simp add: timeout_def demo_candidate_def demo_node_simps Let_def add.commute)
qed

theorem willing_majority_elects_a_serving_leader_witness:
  "\<exists>n'. tick_once demo_votes_env demo_candidate = (n', Inr ()) \<and> el_role (cn_election n') = Leader \<and>
    el_term (cn_election n') = 4"
proof -
  have votes: "granting demo_votes_env 4 = {2}" and upto: "replies_up_to demo_votes_env 4"
    by (auto simp: granting_def replies_up_to_def demo_votes_env_def demo_node_env_def)
  have due: "timeout (cn_election demo_candidate) \<le>
      duration_since (ne_now demo_votes_env) (el_last_contact (cn_election demo_candidate))"
    using demo_timeout by (simp add: demo_votes_env_def demo_candidate_def demo_node_simps duration_since_def)
  note demo = demo_votes_env_def demo_candidate_def demo_node_simps
  have quorum: "has_quorum (cn_election demo_candidate) (insert (el_node (cn_election demo_candidate))
      (granting demo_votes_env 4 \<inter> set (bt_keys (cn_peers demo_candidate))))"
    unfolding votes by (simp add: demo bt_keys_def has_quorum_def majority_def)
  have "\<exists>n'. tick_once demo_votes_env demo_candidate = (n', Inr ()) \<and> el_role (cn_election n') = Leader \<and>
    el_term (cn_election n') = 4 \<and>
    (\<forall>s. fence_is_open (cn_fence n') s \<longleftrightarrow> s \<in> set (shards_for (node_plan 4 demo_candidate) (cn_id demo_candidate)))"
    by (rule willing_majority_elects_a_serving_leader [OF _ _ _ _ _ _ due _ _ _ upto _ quorum])
      (simp_all add: demo bt_keys_def is_configured_voter_def fence_open_for_def fence_new_def placement_default_def)
  then show ?thesis by blast
qed

end
