(* ===== verification/Wal_Capture.thy ===== *)
theory Wal_Capture
  imports BTree Disk_File
begin

text \<open>
  The capture of committed transactions from the bytes SQLite writes to its write-ahead log, and
  their application to a database file: \<^verbatim>\<open>src/src/vfs/wal.rs\<close>. Offsets and lengths within a file are
  natural numbers; page numbers and sizes keep their width. The diagnostic trace is left out.
\<close>

section \<open>The log format\<close>

definition WAL_MAGIC_BE :: u32 where "WAL_MAGIC_BE = 0x377f0682"

definition WAL_MAGIC_LE :: u32 where "WAL_MAGIC_LE = 0x377f0683"

definition WAL_HEADER_SIZE :: nat where "WAL_HEADER_SIZE = 32"

definition FRAME_HEADER_SIZE :: nat where "FRAME_HEADER_SIZE = 24"

definition be32 :: "bytes \<Rightarrow> nat \<Rightarrow> u32" where
  "be32 b at = word_of_nat
     (unat (b ! at) * 2 ^ 24 + unat (b ! (at + 1)) * 2 ^ 16 + unat (b ! (at + 2)) * 2 ^ 8 + unat (b ! (at + 3)))"

record wal_header =
  wh_page_size :: u32
  wh_checkpoint_seq :: u32
  wh_salt :: bytes

definition is_power_of_two :: "u32 \<Rightarrow> bool" where
  "is_power_of_two w \<longleftrightarrow> w \<in> (\<lambda>n. 2 ^ n) ` set [0..<32]"

definition wal_header_parse :: "bytes \<Rightarrow> wal_header option" where
  "wal_header_parse b =
     (if length b < WAL_HEADER_SIZE then None
      else if be32 b 0 \<noteq> WAL_MAGIC_BE \<and> be32 b 0 \<noteq> WAL_MAGIC_LE then None
      else
        let raw = be32 b 8; page_size = (if raw = 1 then 65536 else raw) in
        if \<not> is_power_of_two page_size \<or> \<not> (512 \<le> page_size \<and> page_size \<le> 65536) then None
        else Some \<lparr>wh_page_size = page_size, wh_checkpoint_seq = be32 b 12, wh_salt = take 8 (drop 16 b)\<rparr>)"

record frame_header =
  fh_page_no :: u32
  fh_db_size :: u32

definition frame_header_parse :: "bytes \<Rightarrow> frame_header" where
  "frame_header_parse b = \<lparr>fh_page_no = be32 b 0, fh_db_size = be32 b 4\<rparr>"

subsection \<open>Offline inspection\<close>

record wal_frame_info =
  wf_index :: nat
  wf_offset :: nat
  wf_page_no :: u32
  wf_db_size :: u32
  wf_salt :: bytes
  wf_current :: bool

definition wal_is_commit :: "wal_frame_info \<Rightarrow> bool" where
  "wal_is_commit f \<longleftrightarrow> wf_db_size f \<noteq> 0"

record wal_report =
  wr_header :: "wal_header option"
  wr_frames :: "wal_frame_info list"
  wr_file_bytes :: nat
  wr_trailing_bytes :: nat

definition current_frames :: "wal_report \<Rightarrow> wal_frame_info list" where
  "current_frames r = takeWhile wf_current (wr_frames r)"

definition report_transactions :: "wal_report \<Rightarrow> nat" where
  "report_transactions r = length (filter wal_is_commit (current_frames r))"

definition uncommitted_frames :: "wal_report \<Rightarrow> nat" where
  "uncommitted_frames r = length (takeWhile (\<lambda>f. \<not> wal_is_commit f) (rev (current_frames r)))"

function inspect_frames :: "wal_header \<Rightarrow> bytes \<Rightarrow> nat \<Rightarrow> nat \<Rightarrow> wal_frame_info list \<times> nat" where
  "inspect_frames h b off idx =
     (let frame_size = FRAME_HEADER_SIZE + unat (wh_page_size h) in
      if off + frame_size \<le> length b then
        let fh = take FRAME_HEADER_SIZE (drop off b); salt = take 8 (drop 8 fh) in
        case inspect_frames h b (off + frame_size) (Suc idx) of
          (rest, off') \<Rightarrow>
            (\<lparr>wf_index = idx, wf_offset = off, wf_page_no = be32 fh 0, wf_db_size = be32 fh 4,
               wf_salt = salt, wf_current = (salt = wh_salt h)\<rparr> # rest, off')
      else ([], off))"
  by pat_completeness auto

termination inspect_frames
  by (relation "measure (\<lambda>(h, b, off, idx). length b - off)") (auto simp: FRAME_HEADER_SIZE_def)

declare inspect_frames.simps [simp del]

definition inspect_wal :: "bytes \<Rightarrow> wal_report" where
  "inspect_wal b =
     (case wal_header_parse b of
        None \<Rightarrow> \<lparr>wr_header = None, wr_frames = [], wr_file_bytes = length b, wr_trailing_bytes = length b\<rparr>
      | Some h \<Rightarrow>
          (case inspect_frames h b WAL_HEADER_SIZE 0 of
             (frames, off) \<Rightarrow>
               \<lparr>wr_header = Some h, wr_frames = frames, wr_file_bytes = length b,
                wr_trailing_bytes = length b - off\<rparr>))"

section \<open>Live capture\<close>

record frame =
  fr_page_no :: u32
  fr_data :: bytes

record committed_txn =
  ct_db_size_pages :: u32
  ct_page_size :: u32
  ct_frames :: "frame list"
  ct_generation :: u64

record slot =
  sl_page_no :: u32
  sl_db_size :: u32
  sl_data :: "bytes option"

record wal_capture =
  wc_header :: "wal_header option"
  wc_generation :: u64
  wc_slots :: "(nat, slot) btree"
  wc_committed :: "committed_txn list"
  wc_resets :: u64
  wc_truncations :: u64
  wc_header_rewrites :: u64
  wc_retained_bytes :: nat
  wc_overflowed :: bool
  wc_max_retained_bytes :: nat

definition DEFAULT_MAX_RETAINED_BYTES :: nat where
  "DEFAULT_MAX_RETAINED_BYTES = 64 * 1024 * 1024"

definition capture_with_limit :: "nat \<Rightarrow> wal_capture" where
  "capture_with_limit n =
     \<lparr>wc_header = None, wc_generation = 0, wc_slots = [], wc_committed = [], wc_resets = 0,
      wc_truncations = 0, wc_header_rewrites = 0, wc_retained_bytes = 0, wc_overflowed = False,
      wc_max_retained_bytes = n\<rparr>"

definition frames_bytes :: "frame list \<Rightarrow> nat" where
  "frames_bytes fs = sum_list (map (length \<circ> fr_data) fs)"

definition pending_bytes :: "wal_capture \<Rightarrow> nat" where
  "pending_bytes st =
     sum_list (map (\<lambda>s. case sl_data s of Some d \<Rightarrow> length d | None \<Rightarrow> 0) (bt_values (wc_slots st)))"

definition slot_frame :: "slot \<Rightarrow> frame option" where
  "slot_frame s = map_option (\<lambda>d. \<lparr>fr_page_no = sl_page_no s, fr_data = d\<rparr>) (sl_data s)"

text \<open>Every slot up to the commit marker leaves; those with page data are the transaction.\<close>

definition emit_commit :: "nat \<Rightarrow> wal_capture \<Rightarrow> wal_capture" where
  "emit_commit at st =
     (let page_size = (case wc_header st of Some h \<Rightarrow> wh_page_size h | None \<Rightarrow> 0);
          txn_slots = filter (\<lambda>e. fst e \<le> at) (wc_slots st);
          st = st\<lparr>wc_slots := filter (\<lambda>e. \<not> fst e \<le> at) (wc_slots st)\<rparr>;
          db_size = (case bt_get txn_slots at of Some s \<Rightarrow> sl_db_size s | None \<Rightarrow> 0);
          frames = List.map_filter slot_frame (bt_values txn_slots)
      in if frames = [] then st
         else
           let retained = wc_retained_bytes st + frames_bytes frames in
           st\<lparr>wc_retained_bytes := retained,
              wc_overflowed := (wc_overflowed st \<or> (0 < wc_max_retained_bytes st \<and> wc_max_retained_bytes st < retained)),
              wc_committed := wc_committed st @
                [\<lparr>ct_db_size_pages = db_size, ct_page_size = page_size, ct_frames = frames,
                   ct_generation = wc_generation st\<rparr>]\<rparr>)"

text \<open>The header of the frame at \<open>at\<close> arrives, with its page or without.\<close>

definition frame_arrives :: "nat \<Rightarrow> frame_header \<Rightarrow> bytes option \<Rightarrow> wal_capture \<Rightarrow> wal_capture" where
  "frame_arrives at fh data st =
     (let old = (case bt_get (wc_slots st) at of
                   Some s \<Rightarrow> s | None \<Rightarrow> \<lparr>sl_page_no = 0, sl_db_size = 0, sl_data = None\<rparr>);
          header_only = (sl_data old \<noteq> None \<and> data = None);
          rewrite = (header_only \<and> sl_page_no old = fh_page_no fh);
          kept = (if header_only \<and> \<not> rewrite then None else sl_data old);
          new = \<lparr>sl_page_no = fh_page_no fh, sl_db_size = fh_db_size fh,
                 sl_data = (case data of Some d \<Rightarrow> Some d | None \<Rightarrow> kept)\<rparr>;
          st = st\<lparr>wc_slots := bt_insert at new (wc_slots st),
                  wc_header_rewrites := (if rewrite then wc_header_rewrites st + 1 else wc_header_rewrites st)\<rparr>
      in if fh_db_size fh \<noteq> 0 \<and> sl_data new \<noteq> None then emit_commit at st else st)"

text \<open>A buffer on a frame boundary: a header alone, a whole frame, or several frames.\<close>

function consume_frames :: "nat \<Rightarrow> nat \<Rightarrow> bytes \<Rightarrow> wal_capture \<Rightarrow> wal_capture" where
  "consume_frames page_size at buf st =
     (if length buf < FRAME_HEADER_SIZE then st
      else
        let fh = frame_header_parse buf; rest = drop FRAME_HEADER_SIZE buf in
        if length rest < page_size then frame_arrives at fh None st
        else consume_frames page_size (at + FRAME_HEADER_SIZE + page_size) (drop page_size rest)
               (frame_arrives at fh (Some (take page_size rest)) st))"
  by pat_completeness auto

termination consume_frames
  by (relation "measure (\<lambda>(p, at, buf, st). length buf)") (auto simp: FRAME_HEADER_SIZE_def)

declare consume_frames.simps [simp del]

text \<open>Page data whose header arrived in an earlier write.\<close>

definition page_arrives :: "nat \<Rightarrow> bytes \<Rightarrow> wal_capture \<Rightarrow> wal_capture" where
  "page_arrives at data st =
     (case bt_get (wc_slots st) at of
        None \<Rightarrow> st
      | Some s \<Rightarrow>
          let st = st\<lparr>wc_slots := bt_insert at (s\<lparr>sl_data := Some data\<rparr>) (wc_slots st)\<rparr> in
          if sl_db_size s \<noteq> 0 then emit_commit at st else st)"

function consume :: "nat \<Rightarrow> bytes \<Rightarrow> wal_capture \<Rightarrow> wal_capture" where
  "consume offset buf st =
     (case wc_header st of
        None \<Rightarrow> st
      | Some h \<Rightarrow>
          let page_size = unat (wh_page_size h); frame_size = FRAME_HEADER_SIZE + page_size in
          if offset < WAL_HEADER_SIZE then st
          else
            let rel = offset - WAL_HEADER_SIZE in
            if rel mod frame_size = FRAME_HEADER_SIZE \<and> page_size \<le> length buf then
              let st = page_arrives (offset - FRAME_HEADER_SIZE) (take page_size buf) st; rest = drop page_size buf in
              if rest = [] then st else consume (offset + page_size) rest st
            else if rel mod frame_size \<noteq> 0 then st
            else consume_frames page_size offset buf st)"
  by pat_completeness auto

termination consume
proof (relation "measure (\<lambda>(offset, buf, st). length buf)", goal_cases)
  case (2 offset buf st h p f rel st' rest)
  have "p \<noteq> 0"
  proof
    assume "p = 0"
    with 2 have "rel mod FRAME_HEADER_SIZE = FRAME_HEADER_SIZE" by simp
    then show False by (simp add: FRAME_HEADER_SIZE_def)
  qed
  with 2 show ?case by auto
qed simp

declare consume.simps [simp del]

definition on_write :: "nat \<Rightarrow> bytes \<Rightarrow> wal_capture \<Rightarrow> wal_capture" where
  "on_write offset buf st =
     (case (if offset = 0 \<and> WAL_HEADER_SIZE \<le> length buf then wal_header_parse buf else None) of
        Some h \<Rightarrow>
          let changed = (case wc_header st of Some old \<Rightarrow> wh_salt old \<noteq> wh_salt h | None \<Rightarrow> False);
              st = st\<lparr>wc_generation := (if changed \<or> wc_header st = None then wc_generation st + 1 else wc_generation st),
                      wc_resets := (if changed then wc_resets st + 1 else wc_resets st),
                      wc_header := Some h, wc_slots := []\<rparr>;
              rest = drop WAL_HEADER_SIZE buf
          in if rest = [] then st else consume WAL_HEADER_SIZE rest st
      | None \<Rightarrow>
          let st = consume offset buf st in
          if 0 < wc_max_retained_bytes st \<and> \<not> wc_overflowed st \<and>
             wc_max_retained_bytes st < wc_retained_bytes st + pending_bytes st
          then st\<lparr>wc_overflowed := True\<rparr> else st)"

definition on_truncate :: "nat \<Rightarrow> wal_capture \<Rightarrow> wal_capture" where
  "on_truncate len st =
     (if len < WAL_HEADER_SIZE
      then st\<lparr>wc_slots := [], wc_header := None, wc_truncations := wc_truncations st + 1\<rparr> else st)"

definition txns_bytes :: "committed_txn list \<Rightarrow> nat" where
  "txns_bytes ts = sum_list (map (frames_bytes \<circ> ct_frames) ts)"

definition drain_committed :: "wal_capture \<Rightarrow> wal_capture \<times> committed_txn list" where
  "drain_committed st =
     (let taken = wc_committed st;
          st = st\<lparr>wc_committed := [], wc_retained_bytes := wc_retained_bytes st - txns_bytes taken\<rparr>
      in (if wc_overflowed st \<and> wc_retained_bytes st + pending_bytes st \<le> wc_max_retained_bytes st
          then st\<lparr>wc_overflowed := False\<rparr> else st, taken))"

definition requeue :: "committed_txn list \<Rightarrow> wal_capture \<Rightarrow> wal_capture" where
  "requeue txns st =
     (if txns = [] then st
      else
        let retained = wc_retained_bytes st + txns_bytes txns in
        st\<lparr>wc_retained_bytes := retained,
           wc_overflowed := (wc_overflowed st \<or> (0 < wc_max_retained_bytes st \<and> wc_max_retained_bytes st < retained)),
           wc_committed := txns @ wc_committed st\<rparr>)"

section \<open>Applying transactions to a database file\<close>

text \<open>Writing past the end of a file fills the hole with zeros, and so does growing it.\<close>

definition pad_to :: "nat \<Rightarrow> bytes \<Rightarrow> bytes" where
  "pad_to n f = f @ replicate (n - length f) 0"

definition write_at :: "nat \<Rightarrow> bytes \<Rightarrow> bytes \<Rightarrow> bytes" where
  "write_at offset data f =
     (if data = [] then f
      else take offset (pad_to offset f) @ data @ drop (offset + length data) f)"

definition set_len :: "nat \<Rightarrow> bytes \<Rightarrow> bytes" where
  "set_len n f = take n (pad_to n f)"

text \<open>
  The operations on the file, in order. A page number of zero underflows the offset, which no file
  can be positioned at.
\<close>

datatype file_op = WriteAt nat bytes | BadSeek | SetLen nat

definition frame_op :: "u32 \<Rightarrow> frame \<Rightarrow> file_op" where
  "frame_op page_size fr =
     (if fr_page_no fr = 0 then BadSeek
      else WriteAt ((unat (fr_page_no fr) - 1) * unat page_size) (fr_data fr))"

definition txn_ops :: "committed_txn \<Rightarrow> file_op list" where
  "txn_ops t =
     map (frame_op (ct_page_size t)) (ct_frames t) @ [SetLen (unat (ct_db_size_pages t) * unat (ct_page_size t))]"

fun file_step :: "file_op \<Rightarrow> bytes \<Rightarrow> bytes result" where
  "file_step (WriteAt offset data) f = Inr (write_at offset data f)"
| "file_step BadSeek f = Inl (IoFailure ''seek'')"
| "file_step (SetLen n) f = Inr (set_len n f)"

text \<open>
  A fault says how many operations succeed and how many bytes of a write that then fails reach the
  file; with none, only the final sync can fail.
\<close>

datatype apply_fault = ApplyOk | ApplyFails nat nat | ApplySyncFails

fun run_ops :: "apply_fault \<Rightarrow> file_op list \<Rightarrow> bytes \<Rightarrow> bytes \<times> unit result" where
  "run_ops fault [] f = (f, if fault = ApplySyncFails then Inl (IoFailure ''sync'') else Inr ())"
| "run_ops (ApplyFails 0 m) (op # ops) f =
     (case op of WriteAt offset data \<Rightarrow> write_at offset (take m data) f | _ \<Rightarrow> f, Inl (IoFailure ''write''))"
| "run_ops fault (op # ops) f =
     (case file_step op f of
        Inl e \<Rightarrow> (f, Inl e)
      | Inr f' \<Rightarrow> run_ops (case fault of ApplyFails (Suc k) m \<Rightarrow> ApplyFails k m | _ \<Rightarrow> fault) ops f')"

definition apply_to_db_file :: "apply_fault \<Rightarrow> committed_txn list \<Rightarrow> bytes \<Rightarrow> bytes \<times> unit result" where
  "apply_to_db_file fault ts f = run_ops fault (concat (map txn_ops ts)) f"

end
