(* ===== verification/Wal_Refinement.thy ===== *)
theory Wal_Refinement
  imports Wal_Capture
begin

text \<open>
  Two properties of the capture. Whatever shape SQLite gives its writes (a frame in one write or
  in two, several frames together, headers and pages rewritten in place, frames of a rolled-back
  transaction written over), the capture holds exactly the transactions of the log they spell out,
  but for one shape, in which it takes a rolled-back page for a committed one. And applying transactions to a file a second time,
  after a first attempt that stopped anywhere, gives the same file.
\<close>

section \<open>The log as a sequence of frames\<close>

record log_frame =
  lf_page_no :: u32
  lf_db_size :: u32
  lf_data :: bytes

text \<open>
  How many frames precede the pending ones in this generation, the pending frames, the frames a
  rollback left behind them in the file, and what was committed.
\<close>

record log_state =
  ls_base :: nat
  ls_pending :: "log_frame list"
  ls_stale :: "log_frame list"
  ls_committed :: "committed_txn list"

definition log_txn :: "u32 \<Rightarrow> u64 \<Rightarrow> log_frame list \<Rightarrow> committed_txn" where
  "log_txn page_size generation fs =
     \<lparr>ct_db_size_pages = lf_db_size (last fs), ct_page_size = page_size,
      ct_frames = map (\<lambda>f. \<lparr>fr_page_no = lf_page_no f, fr_data = lf_data f\<rparr>) fs, ct_generation = generation\<rparr>"

definition log_commit :: "u32 \<Rightarrow> u64 \<Rightarrow> nat \<Rightarrow> log_state \<Rightarrow> log_state" where
  "log_commit page_size generation i s =
     \<lparr>ls_base = ls_base s + Suc i, ls_pending = drop (Suc i) (ls_pending s), ls_stale = ls_stale s,
      ls_committed = ls_committed s @ [log_txn page_size generation (take (Suc i) (ls_pending s))]\<rparr>"

definition log_append :: "u32 \<Rightarrow> u64 \<Rightarrow> log_frame \<Rightarrow> log_state \<Rightarrow> log_state" where
  "log_append page_size generation f s =
     (let s' = s\<lparr>ls_pending := ls_pending s @ [f], ls_stale := tl (ls_stale s)\<rparr> in
      if lf_db_size f \<noteq> 0 then log_commit page_size generation (length (ls_pending s)) s' else s')"

text \<open>Rewriting a pending frame: its header, or its page.\<close>

definition log_restamp :: "u32 \<Rightarrow> u64 \<Rightarrow> nat \<Rightarrow> u32 \<Rightarrow> log_state \<Rightarrow> log_state" where
  "log_restamp page_size generation i db s =
     (let s' = s\<lparr>ls_pending := (ls_pending s)[i := (ls_pending s ! i)\<lparr>lf_db_size := db\<rparr>]\<rparr> in
      if db \<noteq> 0 then log_commit page_size generation i s' else s')"

definition log_overwrite :: "nat \<Rightarrow> bytes \<Rightarrow> log_state \<Rightarrow> log_state" where
  "log_overwrite i data s = s\<lparr>ls_pending := (ls_pending s)[i := (ls_pending s ! i)\<lparr>lf_data := data\<rparr>]\<rparr>"

text \<open>Rolling back: the next frame will be written where the first pending one is.\<close>

definition log_rollback :: "log_state \<Rightarrow> log_state" where
  "log_rollback s = s\<lparr>ls_pending := [], ls_stale := ls_pending s @ ls_stale s\<rparr>"

section \<open>Encoding\<close>

definition be_bytes :: "u32 \<Rightarrow> bytes" where
  "be_bytes w = map (\<lambda>k. word_of_nat (unat w div 2 ^ k)) [24, 16, 8, 0]"

text \<open>A frame header: page number, database size, and sixteen bytes of salt and checksums.\<close>

definition header_bytes :: "u32 \<Rightarrow> u32 \<Rightarrow> bytes \<Rightarrow> bytes" where
  "header_bytes page_no db tail = be_bytes page_no @ be_bytes db @ tail"

lemma base_256_digits:
  "n div 2 ^ 24 * 2 ^ 24 + n div 2 ^ 16 mod 256 * 2 ^ 16 + n div 2 ^ 8 mod 256 * 2 ^ 8 + n mod 256 = (n :: nat)"
proof -
  define a where "a = n div 256"
  define b where "b = a div 256"
  have d: "n div 2 ^ 8 = a" "n div 2 ^ 16 = b" "n div 2 ^ 24 = b div 256"
    by (simp_all add: a_def b_def div_mult2_eq [symmetric])
  have e: "n = a * 256 + n mod 256" "a = b * 256 + a mod 256" "b = b div 256 * 256 + b mod 256"
    by (simp_all add: a_def b_def)
  have "b div 256 * 16777216 + b mod 256 * 65536 + a mod 256 * 256 + n mod 256 = n" using e by linarith
  then show ?thesis by (simp only: d) simp
qed

lemma be32_be_bytes: "be32 (be_bytes w @ b) 0 = w"
proof -
  have "be32 (map (\<lambda>k. word_of_nat (n div 2 ^ k)) [24, 16, 8, 0] @ b) 0 = word_of_nat n" if n: "n < 2 ^ 32" for n
  proof -
    have "n div 2 ^ 24 < 256" using n by (simp add: less_mult_imp_div_less)
    then show ?thesis using base_256_digits [of n]
      by (simp add: be32_def unsigned_of_nat take_bit_eq_mod)
  qed
  from this [of "unat w"] show ?thesis using unat_bound [of w] by (simp add: be_bytes_def)
qed

lemma length_be_bytes [simp]: "length (be_bytes w) = 4"
  by (simp add: be_bytes_def)

lemma be32_drop: "k \<le> length b \<Longrightarrow> be32 b k = be32 (drop k b) 0"
  by (simp add: be32_def add.commute)

lemma header_parse [simp]:
  "frame_header_parse (header_bytes page_no db tail @ b) = \<lparr>fh_page_no = page_no, fh_db_size = db\<rparr>"
  by (simp add: frame_header_parse_def header_bytes_def be32_be_bytes be32_drop [of 4])

lemma length_header_bytes [simp]: "length tail = 16 \<Longrightarrow> length (header_bytes page_no db tail) = FRAME_HEADER_SIZE"
  by (simp add: header_bytes_def FRAME_HEADER_SIZE_def)

section \<open>Slots\<close>

definition frame_offset :: "nat \<Rightarrow> nat \<Rightarrow> nat" where
  "frame_offset ps i = WAL_HEADER_SIZE + i * (FRAME_HEADER_SIZE + ps)"

lemma frame_offset_less [simp]: "frame_offset ps i < frame_offset ps j \<longleftrightarrow> i < j"
  by (simp add: frame_offset_def FRAME_HEADER_SIZE_def)

lemma frame_offset_le [simp]: "frame_offset ps i \<le> frame_offset ps j \<longleftrightarrow> i \<le> j"
  by (simp add: frame_offset_def FRAME_HEADER_SIZE_def)

lemma frame_offset_eq [simp]: "frame_offset ps i = frame_offset ps j \<longleftrightarrow> i = j"
  by (simp add: frame_offset_def FRAME_HEADER_SIZE_def)

lemma frame_offset_Suc: "frame_offset ps i + FRAME_HEADER_SIZE + ps = frame_offset ps (Suc i)"
  by (simp add: frame_offset_def)

definition slot_of :: "log_frame \<Rightarrow> slot" where
  "slot_of f = \<lparr>sl_page_no = lf_page_no f, sl_db_size = lf_db_size f, sl_data = Some (lf_data f)\<rparr>"

lemma slot_of_sel [simp]:
  "sl_page_no (slot_of f) = lf_page_no f" "sl_db_size (slot_of f) = lf_db_size f" "sl_data (slot_of f) = Some (lf_data f)"
  by (simp_all add: slot_of_def)

fun slots_of :: "nat \<Rightarrow> nat \<Rightarrow> log_frame list \<Rightarrow> (nat, slot) btree" where
  "slots_of ps b [] = []"
| "slots_of ps b (f # fs) = (frame_offset ps b, slot_of f) # slots_of ps (Suc b) fs"

lemma slots_of_append: "slots_of ps b (xs @ ys) = slots_of ps b xs @ slots_of ps (b + length xs) ys"
  by (induction xs arbitrary: b) auto

lemma slots_of_insert_new:
  "b + length fs = i \<Longrightarrow> bt_insert (frame_offset ps i) s (slots_of ps b fs) = slots_of ps b fs @ [(frame_offset ps i, s)]"
  by (induction fs arbitrary: b) auto

lemma slots_of_get_new: "b + length fs \<le> i \<Longrightarrow> bt_get (slots_of ps b fs) (frame_offset ps i) = None"
  by (induction fs arbitrary: b) (auto simp: bt_get_Cons)

lemma slots_of_get: "i < length fs \<Longrightarrow> bt_get (slots_of ps b fs) (frame_offset ps (b + i)) = Some (slot_of (fs ! i))"
proof (induction fs arbitrary: b i)
  case (Cons f fs)
  then show ?case using Cons.IH [of "i - 1" "Suc b"] by (cases i) (auto simp: bt_get_Cons)
qed simp

lemma slots_of_update:
  "i < length fs \<Longrightarrow> bt_insert (frame_offset ps (b + i)) (slot_of f) (slots_of ps b fs) = slots_of ps b (fs[i := f])"
proof (induction fs arbitrary: b i)
  case (Cons g fs)
  then show ?case using Cons.IH [of "i - 1" "Suc b"] by (cases i) auto
qed simp

lemma slots_of_keys:
  "e \<in> set (slots_of ps b fs) \<Longrightarrow> \<exists>j. b \<le> j \<and> j < b + length fs \<and> fst e = frame_offset ps j"
proof (induction fs arbitrary: b)
  case (Cons f fs)
  then show ?case
    by (cases "e \<in> set (slots_of ps (Suc b) fs)") (fastforce dest: Cons.IH)+
qed simp

lemma slots_of_split:
  "filter (\<lambda>e. fst e \<le> frame_offset ps (b + i)) (slots_of ps b fs) = slots_of ps b (take (Suc i) fs)"
  "filter (\<lambda>e. \<not> fst e \<le> frame_offset ps (b + i)) (slots_of ps b fs) = slots_of ps (b + Suc i) (drop (Suc i) fs)"
proof -
  let ?x = "take (Suc i) fs" and ?y = "drop (Suc i) fs"
  have all: "slots_of ps b fs = slots_of ps b ?x @ slots_of ps (b + Suc i) ?y"
    using slots_of_append [of ps b ?x ?y] by (cases "Suc i \<le> length fs") (auto simp: min_def)
  have low: "fst e \<le> frame_offset ps (b + i)" if "e \<in> set (slots_of ps b ?x)" for e
    using slots_of_keys [OF that] by auto
  have high: "\<not> fst e \<le> frame_offset ps (b + i)" if "e \<in> set (slots_of ps (b + Suc i) ?y)" for e
    using slots_of_keys [OF that] by auto
  show "filter (\<lambda>e. fst e \<le> frame_offset ps (b + i)) (slots_of ps b fs) = slots_of ps b ?x"
    unfolding all using low high by (simp add: filter_True filter_False)
  show "filter (\<lambda>e. \<not> fst e \<le> frame_offset ps (b + i)) (slots_of ps b fs) = slots_of ps (b + Suc i) ?y"
    unfolding all using low high by (simp add: filter_True filter_False)
qed

lemma slots_of_frames:
  "List.map_filter slot_frame (bt_values (slots_of ps b fs)) =
    map (\<lambda>f. \<lparr>fr_page_no = lf_page_no f, fr_data = lf_data f\<rparr>) fs"
  by (induction fs arbitrary: b)
    (auto simp: bt_values_def slot_frame_def slot_of_def List.map_filter_def)

section \<open>The capture follows the log\<close>

text \<open>
  The capture holds the log's pending frames in its slots, after them those a rollback left, and its
  transactions as committed.
\<close>

definition captures :: "wal_header \<Rightarrow> u64 \<Rightarrow> wal_capture \<Rightarrow> log_state \<Rightarrow> bool" where
  "captures h g st s \<longleftrightarrow>
     wc_header st = Some h \<and> wc_generation st = g \<and> wc_committed st = ls_committed s \<and>
     wc_slots st = slots_of (unat (wh_page_size h)) (ls_base s) (ls_pending s @ ls_stale s) \<and>
     (\<forall>f \<in> set (ls_pending s @ ls_stale s). lf_db_size f = 0)"

text \<open>The same, but for the commit marker of the frame that is about to close a transaction.\<close>

definition captures_upto :: "nat \<Rightarrow> wal_header \<Rightarrow> u64 \<Rightarrow> wal_capture \<Rightarrow> log_state \<Rightarrow> bool" where
  "captures_upto i h g st s \<longleftrightarrow>
     wc_header st = Some h \<and> wc_generation st = g \<and> wc_committed st = ls_committed s \<and>
     wc_slots st = slots_of (unat (wh_page_size h)) (ls_base s) (ls_pending s @ ls_stale s) \<and>
     (\<forall>j < length (ls_pending s). j \<noteq> i \<longrightarrow> lf_db_size (ls_pending s ! j) = 0) \<and>
     (\<forall>f \<in> set (ls_stale s). lf_db_size f = 0)"

lemma emit_commit_captures:
  assumes "captures_upto i h g st s" and "i < length (ls_pending s)"
  shows "captures h g (emit_commit (frame_offset (unat (wh_page_size h)) (ls_base s + i)) st)
    (log_commit (wh_page_size h) g i s)"
proof -
  let ?t = "take (Suc i) (ls_pending s)"
  have all: "take (Suc i) (ls_pending s @ ls_stale s) = ?t"
    "drop (Suc i) (ls_pending s @ ls_stale s) = drop (Suc i) (ls_pending s) @ ls_stale s" using assms(2) by simp_all
  have "?t \<noteq> []" "last ?t = ls_pending s ! i" "length ?t = Suc i"
    using assms(2) by (auto simp: take_Suc_conv_app_nth)
  moreover have "bt_get (slots_of (unat (wh_page_size h)) (ls_base s) ?t)
      (frame_offset (unat (wh_page_size h)) (ls_base s + i)) = Some (slot_of (ls_pending s ! i))"
    using slots_of_get [of i ?t] assms(2) by simp
  moreover have "\<forall>f \<in> set (drop (Suc i) (ls_pending s)). lf_db_size f = 0"
    using assms(1) by (auto simp: captures_upto_def in_set_conv_nth)
  ultimately show ?thesis
    using assms(1)
    by (auto simp: captures_def captures_upto_def emit_commit_def log_commit_def log_txn_def slots_of_split
        slots_of_frames Let_def all)
qed

text \<open>Writing the frame that follows the pending ones, in a new slot or over one a rollback left.\<close>

lemma slots_of_next:
  "bt_insert (frame_offset ps (b + length xs)) (slot_of f) (slots_of ps b (xs @ ys)) = slots_of ps b (xs @ f # tl ys)"
proof (cases ys)
  case Nil
  then show ?thesis by (simp add: slots_of_insert_new slots_of_append)
next
  case (Cons y ys')
  then show ?thesis using slots_of_update [of "length xs" "xs @ ys" ps b f] by (simp add: list_update_append)
qed

lemma slots_of_next_get:
  "bt_get (slots_of ps b (xs @ ys)) (frame_offset ps (b + length xs)) =
    (case ys of [] \<Rightarrow> None | y # _ \<Rightarrow> Some (slot_of y))"
  using slots_of_get [of "length xs" "xs @ ys" ps b] slots_of_get_new [of b xs "b + length xs" ps]
  by (cases ys) (simp_all add: nth_append)

lemma next_frame_captures:
  assumes "captures h g st s"
  shows "captures h g
    (let st = st\<lparr>wc_slots := bt_insert (frame_offset (unat (wh_page_size h)) (ls_base s + length (ls_pending s)))
                  (slot_of f) (wc_slots st), wc_header_rewrites := k\<rparr>
     in if lf_db_size f \<noteq> 0 then emit_commit (frame_offset (unat (wh_page_size h)) (ls_base s + length (ls_pending s))) st
        else st)
    (log_append (wh_page_size h) g f s)"
proof -
  let ?ps = "unat (wh_page_size h)" and ?n = "length (ls_pending s)"
  let ?s = "s\<lparr>ls_pending := ls_pending s @ [f], ls_stale := tl (ls_stale s)\<rparr>"
  let ?st = "st\<lparr>wc_slots := slots_of ?ps (ls_base s) (ls_pending s @ f # tl (ls_stale s)), wc_header_rewrites := k\<rparr>"
  have slots: "bt_insert (frame_offset ?ps (ls_base s + ?n)) (slot_of f) (wc_slots st) =
      slots_of ?ps (ls_base s) (ls_pending s @ f # tl (ls_stale s))"
    using assms by (simp add: captures_def slots_of_next)
  have tl: "\<forall>x \<in> set (tl (ls_stale s)). lf_db_size x = 0"
    using assms list.set_sel(2) [of "ls_stale s"] by (cases "ls_stale s") (auto simp: captures_def)
  have "captures_upto ?n h g ?st ?s" using assms tl by (auto simp: captures_def captures_upto_def nth_append)
  from emit_commit_captures [OF this] have "captures h g (emit_commit (frame_offset ?ps (ls_base s + ?n)) ?st)
      (log_commit (wh_page_size h) g ?n ?s)" by simp
  moreover have "lf_db_size f = 0 \<Longrightarrow> captures h g ?st ?s" using assms tl by (auto simp: captures_def)
  ultimately show ?thesis using slots by (simp add: log_append_def Let_def)
qed

lemma frame_arrives_captures:
  assumes "captures h g st s"
  shows "captures h g (frame_arrives (frame_offset (unat (wh_page_size h)) (ls_base s + length (ls_pending s)))
      \<lparr>fh_page_no = lf_page_no f, fh_db_size = lf_db_size f\<rparr> (Some (lf_data f)) st)
    (log_append (wh_page_size h) g f s)"
  using next_frame_captures [OF assms, where f = f and k = "wc_header_rewrites st"]
  by (cases "lf_db_size f = 0") (simp_all add: frame_arrives_def Let_def slot_of_def)

text \<open>
  A header on its own. Over the slot of another page the capture forgets that page, and over the same
  page it keeps it, so a commit marker written over the same page commits what the slot held.
\<close>

definition header_safe :: "log_frame \<Rightarrow> log_state \<Rightarrow> bool" where
  "header_safe f s \<longleftrightarrow>
     (case ls_stale s of [] \<Rightarrow> True | y # _ \<Rightarrow> lf_page_no y = lf_page_no f \<longrightarrow> lf_db_size f = 0)"

lemma split_frame_captures:
  assumes "captures h g st s" and "header_safe f s"
  shows "captures h g
    (page_arrives (frame_offset (unat (wh_page_size h)) (ls_base s + length (ls_pending s))) (lf_data f)
      (frame_arrives (frame_offset (unat (wh_page_size h)) (ls_base s + length (ls_pending s)))
        \<lparr>fh_page_no = lf_page_no f, fh_db_size = lf_db_size f\<rparr> None st))
    (log_append (wh_page_size h) g f s)"
proof -
  let ?o = "frame_offset (unat (wh_page_size h)) (ls_base s + length (ls_pending s))"
  have get: "bt_get (wc_slots st) ?o = (case ls_stale s of [] \<Rightarrow> None | y # _ \<Rightarrow> Some (slot_of y))"
    using assms(1) by (simp add: captures_def slots_of_next_get)
  let ?k = "case ls_stale s of y # _ \<Rightarrow> if lf_page_no y = lf_page_no f then wc_header_rewrites st + 1 else wc_header_rewrites st
    | [] \<Rightarrow> wc_header_rewrites st"
  have "page_arrives ?o (lf_data f) (frame_arrives ?o \<lparr>fh_page_no = lf_page_no f, fh_db_size = lf_db_size f\<rparr> None st) =
      (let st = st\<lparr>wc_slots := bt_insert ?o (slot_of f) (wc_slots st), wc_header_rewrites := ?k\<rparr>
       in if lf_db_size f \<noteq> 0 then emit_commit ?o st else st)"
    using get assms(2)
    by (cases "ls_stale s")
      (auto simp: frame_arrives_def page_arrives_def Let_def bt_insert_insert slot_of_def header_safe_def)
  then show ?thesis using next_frame_captures [OF assms(1), where f = f and k = ?k] by simp
qed

lemma restamp_captures:
  assumes "captures h g st s" and "i < length (ls_pending s)"
  shows "captures h g (frame_arrives (frame_offset (unat (wh_page_size h)) (ls_base s + i))
      \<lparr>fh_page_no = lf_page_no (ls_pending s ! i), fh_db_size = db\<rparr> None st)
    (log_restamp (wh_page_size h) g i db s)"
proof -
  let ?ps = "unat (wh_page_size h)" and ?f = "(ls_pending s ! i)\<lparr>lf_db_size := db\<rparr>"
  let ?s = "s\<lparr>ls_pending := (ls_pending s)[i := ?f]\<rparr>"
  let ?st = "st\<lparr>wc_slots := slots_of ?ps (ls_base s) ((ls_pending s)[i := ?f] @ ls_stale s),
    wc_header_rewrites := wc_header_rewrites st + 1\<rparr>"
  have get: "bt_get (wc_slots st) (frame_offset ?ps (ls_base s + i)) = Some (slot_of (ls_pending s ! i))"
    using assms slots_of_get [of i "ls_pending s @ ls_stale s"] by (simp add: captures_def nth_append)
  have slots: "bt_insert (frame_offset ?ps (ls_base s + i)) (slot_of ?f) (wc_slots st) =
      slots_of ?ps (ls_base s) ((ls_pending s)[i := ?f] @ ls_stale s)"
    using assms by (simp add: captures_def slots_of_update list_update_append)
  have "captures_upto i h g ?st ?s" using assms by (auto simp: captures_def captures_upto_def)
  from emit_commit_captures [OF this] have "captures h g (emit_commit (frame_offset ?ps (ls_base s + i)) ?st)
      (log_commit (wh_page_size h) g i ?s)" using assms(2) by simp
  moreover have "db = 0 \<Longrightarrow> captures h g ?st ?s"
    using assms by (auto simp: captures_def dest!: set_update_subset_insert [THEN subsetD])
  ultimately show ?thesis
    using slots get by (cases "db = 0") (simp_all add: frame_arrives_def log_restamp_def Let_def slot_of_def)
qed

lemma overwrite_captures:
  assumes "captures h g st s" and "i < length (ls_pending s)"
  shows "captures h g (page_arrives (frame_offset (unat (wh_page_size h)) (ls_base s + i)) data st)
    (log_overwrite i data s)"
proof -
  let ?ps = "unat (wh_page_size h)" and ?f = "(ls_pending s ! i)\<lparr>lf_data := data\<rparr>"
  have get: "bt_get (wc_slots st) (frame_offset ?ps (ls_base s + i)) = Some (slot_of (ls_pending s ! i))"
    using assms slots_of_get [of i "ls_pending s @ ls_stale s"] by (simp add: captures_def nth_append)
  have slots: "bt_insert (frame_offset ?ps (ls_base s + i)) (slot_of ?f) (wc_slots st) =
      slots_of ?ps (ls_base s) ((ls_pending s)[i := ?f] @ ls_stale s)"
    using assms by (simp add: captures_def slots_of_update list_update_append)
  have "lf_db_size (ls_pending s ! i) = 0" using assms by (simp add: captures_def)
  then show ?thesis
    using assms get slots
    by (auto simp: captures_def page_arrives_def log_overwrite_def slot_of_def Let_def
        dest!: set_update_subset_insert [THEN subsetD])
qed

section \<open>The shapes of SQLite's writes\<close>

text \<open>
  What SQLite does to the log, each with the salt and checksum bytes it writes: append frames in one
  write; append a frame in two writes, the second possibly carrying further frames; rewrite the
  header of a pending frame; rewrite the page of a pending frame; roll the pending frames back,
  which writes nothing but makes the appends that follow reuse their slots.
\<close>

datatype log_action =
    AppendFrames "(log_frame \<times> bytes) list"
  | AppendSplit log_frame bytes "(log_frame \<times> bytes) list"
  | Restamp nat u32 bytes
  | Overwrite nat bytes
  | Rollback

definition frame_bytes :: "log_frame \<times> bytes \<Rightarrow> bytes" where
  "frame_bytes ft = header_bytes (lf_page_no (fst ft)) (lf_db_size (fst ft)) (snd ft) @ lf_data (fst ft)"

fun action_ok :: "nat \<Rightarrow> log_action \<Rightarrow> log_state \<Rightarrow> bool" where
  "action_ok ps (AppendFrames fs) s \<longleftrightarrow> (\<forall>(f, t) \<in> set fs. length (lf_data f) = ps \<and> length t = 16)"
| "action_ok ps (AppendSplit f t fs) s \<longleftrightarrow>
     length (lf_data f) = ps \<and> length t = 16 \<and> header_safe f s \<and> (\<forall>(f, t) \<in> set fs. length (lf_data f) = ps \<and> length t = 16)"
| "action_ok ps (Restamp i db t) s \<longleftrightarrow> i < length (ls_pending s) \<and> length t = 16"
| "action_ok ps (Overwrite i data) s \<longleftrightarrow> i < length (ls_pending s) \<and> length data = ps"
| "action_ok ps Rollback s \<longleftrightarrow> True"

fun log_act :: "u32 \<Rightarrow> u64 \<Rightarrow> log_action \<Rightarrow> log_state \<Rightarrow> log_state" where
  "log_act ps g (AppendFrames fs) s = fold (log_append ps g) (map fst fs) s"
| "log_act ps g (AppendSplit f t fs) s = fold (log_append ps g) (map fst fs) (log_append ps g f s)"
| "log_act ps g (Restamp i db t) s = log_restamp ps g i db s"
| "log_act ps g (Overwrite i data) s = log_overwrite i data s"
| "log_act ps g Rollback s = log_rollback s"

definition next_offset :: "nat \<Rightarrow> log_state \<Rightarrow> nat" where
  "next_offset ps s = frame_offset ps (ls_base s + length (ls_pending s))"

fun writes_of :: "nat \<Rightarrow> log_action \<Rightarrow> log_state \<Rightarrow> (nat \<times> bytes) list" where
  "writes_of ps (AppendFrames fs) s = [(next_offset ps s, concat (map frame_bytes fs))]"
| "writes_of ps (AppendSplit f t fs) s =
     [(next_offset ps s, header_bytes (lf_page_no f) (lf_db_size f) t),
      (next_offset ps s + FRAME_HEADER_SIZE, lf_data f @ concat (map frame_bytes fs))]"
| "writes_of ps (Restamp i db t) s =
     [(frame_offset ps (ls_base s + i), header_bytes (lf_page_no (ls_pending s ! i)) db t)]"
| "writes_of ps (Overwrite i data) s = [(frame_offset ps (ls_base s + i) + FRAME_HEADER_SIZE, data)]"
| "writes_of ps Rollback s = []"

definition feed :: "(nat \<times> bytes) list \<Rightarrow> wal_capture \<Rightarrow> wal_capture" where
  "feed ws st = fold (\<lambda>(offset, buf). on_write offset buf) ws st"

lemma captures_overflowed [simp]: "captures h g (st\<lparr>wc_overflowed := b\<rparr>) s \<longleftrightarrow> captures h g st s"
  by (simp add: captures_def)

lemma on_write_captures:
  assumes "WAL_HEADER_SIZE \<le> offset"
  shows "captures h g (on_write offset buf st) s \<longleftrightarrow> captures h g (consume offset buf st) s"
proof -
  have "offset \<noteq> 0" using assms by (simp add: WAL_HEADER_SIZE_def)
  then show ?thesis by (simp add: on_write_def Let_def)
qed

lemma next_offset_append [simp]:
  "next_offset ps (log_append pg g f s) = next_offset ps s + FRAME_HEADER_SIZE + ps"
  by (simp add: next_offset_def log_append_def log_commit_def Let_def frame_offset_Suc)

lemma consume_frames_captures:
  "captures h g st s \<Longrightarrow> (\<forall>(f, t) \<in> set fs. length (lf_data f) = unat (wh_page_size h) \<and> length t = 16) \<Longrightarrow>
    captures h g (consume_frames (unat (wh_page_size h)) (next_offset (unat (wh_page_size h)) s)
      (concat (map frame_bytes fs)) st) (fold (log_append (wh_page_size h) g) (map fst fs) s)"
proof (induction fs arbitrary: st s)
  case Nil
  then show ?case by (simp add: consume_frames.simps FRAME_HEADER_SIZE_def)
next
  case (Cons x fs)
  obtain f t where x: "x = (f, t)" by force
  let ?ps = "unat (wh_page_size h)"
  let ?st = "frame_arrives (next_offset ?ps s) \<lparr>fh_page_no = lf_page_no f, fh_db_size = lf_db_size f\<rparr> (Some (lf_data f)) st"
  have len: "length (lf_data f) = ?ps" "length (header_bytes (lf_page_no f) (lf_db_size f) t) = FRAME_HEADER_SIZE"
    using Cons.prems(2) x by auto
  have st: "captures h g ?st (log_append (wh_page_size h) g f s)"
    using frame_arrives_captures [OF Cons.prems(1)] by (simp add: next_offset_def)
  have "consume_frames ?ps (next_offset ?ps s) (concat (map frame_bytes (x # fs))) st =
      consume_frames ?ps (next_offset ?ps (log_append (wh_page_size h) g f s)) (concat (map frame_bytes fs)) ?st"
    using len by (subst consume_frames.simps) (simp add: x frame_bytes_def Let_def)
  moreover have "captures h g (consume_frames ?ps (next_offset ?ps (log_append (wh_page_size h) g f s))
      (concat (map frame_bytes fs)) ?st) (fold (log_append (wh_page_size h) g) (map fst fs) (log_append (wh_page_size h) g f s))"
    using Cons.IH [OF st] Cons.prems(2) by auto
  ultimately show ?case by (simp add: x)
qed

lemma consume_boundary:
  assumes "wc_header st = Some h"
  shows "consume (frame_offset (unat (wh_page_size h)) i) buf st =
    consume_frames (unat (wh_page_size h)) (frame_offset (unat (wh_page_size h)) i) buf st"
  using assms by (subst consume.simps) (simp add: frame_offset_def FRAME_HEADER_SIZE_def Let_def)

lemma consume_page:
  assumes "wc_header st = Some h" and "0 < wh_page_size h" and "length data = unat (wh_page_size h)"
  shows "consume (frame_offset (unat (wh_page_size h)) i + FRAME_HEADER_SIZE) (data @ rest) st =
    (let st = page_arrives (frame_offset (unat (wh_page_size h)) i) data st in
     if rest = [] then st else consume (frame_offset (unat (wh_page_size h)) (Suc i)) rest st)"
proof -
  have "0 < unat (wh_page_size h)" using assms(2) by (simp add: unat_gt_0)
  then have "(frame_offset (unat (wh_page_size h)) i + FRAME_HEADER_SIZE - WAL_HEADER_SIZE) mod
      (FRAME_HEADER_SIZE + unat (wh_page_size h)) = FRAME_HEADER_SIZE"
    by (simp add: frame_offset_def FRAME_HEADER_SIZE_def)
  then show ?thesis
    using assms
    by (subst consume.simps) (simp add: Let_def frame_offset_Suc, simp add: frame_offset_def)
qed

lemma header_only_arrives:
  assumes "wc_header st = Some h" and "0 < wh_page_size h" and "length t = 16"
  shows "consume (frame_offset (unat (wh_page_size h)) i) (header_bytes page_no db t) st =
    frame_arrives (frame_offset (unat (wh_page_size h)) i) \<lparr>fh_page_no = page_no, fh_db_size = db\<rparr> None st"
  using assms header_parse [of page_no db t "[]"]
  by (simp add: consume_boundary consume_frames.simps [of _ _ "header_bytes page_no db t"] unat_gt_0 Let_def)

lemma page_arrives_header [simp]: "wc_header (page_arrives at data st) = wc_header st"
  by (simp add: page_arrives_def emit_commit_def Let_def split: option.split)

lemma frame_arrives_header [simp]: "wc_header (frame_arrives at fh data st) = wc_header st"
  by (simp add: frame_arrives_def emit_commit_def Let_def)

lemma frame_offset_ge: "WAL_HEADER_SIZE \<le> frame_offset ps i"
  by (simp add: frame_offset_def)

text \<open>The accounting of retained bytes does not reach the captured content.\<close>

definition core :: "wal_capture \<Rightarrow> wal_header option \<times> u64 \<times> committed_txn list \<times> (nat, slot) btree" where
  "core st = (wc_header st, wc_generation st, wc_committed st, wc_slots st)"

lemma captures_core: "core st = core st' \<Longrightarrow> captures h g st s = captures h g st' s"
  by (simp add: core_def captures_def)

lemma page_arrives_core: "core st = core st' \<Longrightarrow> core (page_arrives at data st) = core (page_arrives at data st')"
  by (auto simp: core_def page_arrives_def emit_commit_def Let_def split: option.split)

lemma on_write_core: "WAL_HEADER_SIZE \<le> offset \<Longrightarrow> core (on_write offset buf st) = core (consume offset buf st)"
  by (auto simp: on_write_def core_def WAL_HEADER_SIZE_def Let_def)

lemma action_captures:
  assumes cap: "captures h g st s" and ps: "0 < wh_page_size h" and ok: "action_ok (unat (wh_page_size h)) a s"
  shows "captures h g (feed (writes_of (unat (wh_page_size h)) a s) st) (log_act (wh_page_size h) g a s)"
proof -
  let ?ps = "unat (wh_page_size h)"
  have head: "wc_header st = Some h" using cap by (simp add: captures_def)
  have ge: "WAL_HEADER_SIZE \<le> frame_offset ?ps i + k" for i k using frame_offset_ge [of ?ps i] by simp
  show ?thesis
  proof (cases a)
    case (AppendFrames fs)
    then show ?thesis
      using consume_frames_captures [OF cap] ok ge [of _ 0]
      by (simp add: feed_def on_write_captures next_offset_def consume_boundary [OF head])
  next
    case (AppendSplit f t fs)
    let ?n = "ls_base s + length (ls_pending s)"
    define st1 where "st1 = on_write (frame_offset ?ps ?n) (header_bytes (lf_page_no f) (lf_db_size f) t) st"
    have st1: "core st1 = core (frame_arrives (frame_offset ?ps ?n) \<lparr>fh_page_no = lf_page_no f, fh_db_size = lf_db_size f\<rparr> None st)"
      using on_write_core [OF frame_offset_ge] header_only_arrives [OF head ps] ok AppendSplit by (simp add: st1_def)
    then have head1: "wc_header st1 = Some h" using head by (simp add: core_def)
    have page: "captures h g (page_arrives (frame_offset ?ps ?n) (lf_data f) st1) (log_append (wh_page_size h) g f s)"
      using split_frame_captures [OF cap, of f] ok AppendSplit captures_core [OF page_arrives_core [OF st1]] by simp
    have rest: "captures h g (consume (frame_offset ?ps (Suc ?n)) (concat (map frame_bytes fs))
        (page_arrives (frame_offset ?ps ?n) (lf_data f) st1)) (log_act (wh_page_size h) g a s)"
      using consume_frames_captures [OF page, of fs] ok AppendSplit head1
      by (simp add: consume_boundary [where h = h] frame_offset_Suc next_offset_def [of ?ps s])
    have "captures h g (consume (frame_offset ?ps ?n + FRAME_HEADER_SIZE) (lf_data f @ concat (map frame_bytes fs)) st1)
        (log_act (wh_page_size h) g a s)"
      using consume_page [OF head1 ps, of "lf_data f" ?n "concat (map frame_bytes fs)"] ok AppendSplit page rest
      by (cases fs) (auto simp: Let_def frame_bytes_def header_bytes_def be_bytes_def)
    then show ?thesis
      using AppendSplit ge by (simp add: feed_def on_write_captures next_offset_def st1_def)
  next
    case (Restamp i db t)
    then show ?thesis
      using restamp_captures [OF cap, of i db] header_only_arrives [OF head ps] ok ge [of _ 0]
      by (simp add: feed_def on_write_captures)
  next
    case (Overwrite i data)
    then show ?thesis
      using overwrite_captures [OF cap, of i data] consume_page [OF head ps, of data _ "[]"] ok ge
      by (simp add: feed_def on_write_captures Let_def)
  next
    case Rollback
    then show ?thesis using cap by (simp add: feed_def captures_def log_rollback_def)
  qed
qed

section \<open>Whole runs\<close>

fun actions_ok :: "u32 \<Rightarrow> u64 \<Rightarrow> log_action list \<Rightarrow> log_state \<Rightarrow> bool" where
  "actions_ok ps g [] s \<longleftrightarrow> True"
| "actions_ok ps g (a # as) s \<longleftrightarrow> action_ok (unat ps) a s \<and> actions_ok ps g as (log_act ps g a s)"

fun all_writes :: "u32 \<Rightarrow> u64 \<Rightarrow> log_action list \<Rightarrow> log_state \<Rightarrow> (nat \<times> bytes) list" where
  "all_writes ps g [] s = []"
| "all_writes ps g (a # as) s = writes_of (unat ps) a s @ all_writes ps g as (log_act ps g a s)"

definition empty_log :: log_state where
  "empty_log = \<lparr>ls_base = 0, ls_pending = [], ls_stale = [], ls_committed = []\<rparr>"

lemma feed_append [simp]: "feed (ws @ vs) st = feed vs (feed ws st)"
  by (simp add: feed_def)

lemma actions_capture:
  "captures h g st s \<Longrightarrow> 0 < wh_page_size h \<Longrightarrow> actions_ok (wh_page_size h) g as s \<Longrightarrow>
    captures h g (feed (all_writes (wh_page_size h) g as s) st) (fold (log_act (wh_page_size h) g) as s)"
  by (induction as arbitrary: st s) (auto simp: action_captures, simp add: feed_def)

lemma wal_header_page_size: "wal_header_parse hb = Some h \<Longrightarrow> 0 < wh_page_size h"
proof -
  assume "wal_header_parse hb = Some h"
  then have "512 \<le> wh_page_size h" by (auto simp: wal_header_parse_def Let_def split: if_splits)
  then show ?thesis by (auto simp: word_less_nat_alt word_le_nat_alt)
qed

lemma fresh_log_captures:
  assumes "wal_header_parse hb = Some h" and "length hb = WAL_HEADER_SIZE"
    and "actions_ok (wh_page_size h) 1 as empty_log"
  shows "captures h 1 (feed ((0, hb) # all_writes (wh_page_size h) 1 as empty_log) (capture_with_limit n))
    (fold (log_act (wh_page_size h) 1) as empty_log)"
proof -
  have "captures h 1 (on_write 0 hb (capture_with_limit n)) empty_log"
    using assms(1,2) by (simp add: on_write_def captures_def capture_with_limit_def empty_log_def)
  from actions_capture [OF this wal_header_page_size [OF assms(1)] assms(3)] show ?thesis by (simp add: feed_def)
qed

text \<open>
  (C12) The capture is the log: after the header of a fresh log and any sequence of appends, in one
  write or in two or many frames together, of in-place rewrites of pending headers and pages, and
  of rollbacks after which the slots of the abandoned frames are written again, the transactions
  captured are exactly those of the frame sequence, in order, each with its final pages and database
  size, and the slots hold exactly the frames not yet committed and those abandoned and not yet
  overwritten. One shape is left out: a commit frame in two writes over an abandoned frame of the
  same page. A restart of the log under a new header is not covered either.
\<close>

theorem capture_refines_the_log:
  assumes "wal_header_parse hb = Some h" and "length hb = WAL_HEADER_SIZE"
    and "actions_ok (wh_page_size h) 1 as empty_log"
  shows "captures h 1 (feed ((0, hb) # all_writes (wh_page_size h) 1 as empty_log) (capture_with_limit n))
    (fold (log_act (wh_page_size h) 1) as empty_log)"
  by (rule fresh_log_captures [OF assms])

definition demo_wal_header :: bytes where
  "demo_wal_header = be_bytes WAL_MAGIC_BE @ be_bytes 3007000 @ be_bytes 512 @ be_bytes 0 @ replicate 16 7"

lemma demo_header_parse:
  "wal_header_parse demo_wal_header = Some \<lparr>wh_page_size = 512, wh_checkpoint_seq = 0, wh_salt = replicate 8 7\<rparr>"
proof -
  have "(512 :: u32) \<in> (\<lambda>n. 2 ^ n) ` set [0..<32]" by (rule image_eqI [of _ _ 9]) simp_all
  then show ?thesis
    by (simp add: wal_header_parse_def demo_wal_header_def is_power_of_two_def be32_be_bytes be32_drop
        WAL_HEADER_SIZE_def Let_def)
qed

lemma demo_header_length: "length demo_wal_header = WAL_HEADER_SIZE"
  by (simp add: demo_wal_header_def WAL_HEADER_SIZE_def)

definition demo_log_actions :: "log_action list" where
  "demo_log_actions =
     [AppendSplit \<lparr>lf_page_no = 1, lf_db_size = 0, lf_data = replicate 512 1\<rparr> (replicate 16 0) [],
      AppendFrames [(\<lparr>lf_page_no = 2, lf_db_size = 0, lf_data = replicate 512 2\<rparr>, replicate 16 0)],
      Overwrite 0 (replicate 512 3), Rollback,
      AppendSplit \<lparr>lf_page_no = 3, lf_db_size = 0, lf_data = replicate 512 4\<rparr> (replicate 16 0) [],
      Restamp 0 3 (replicate 16 0),
      AppendSplit \<lparr>lf_page_no = 1, lf_db_size = 3, lf_data = replicate 512 5\<rparr> (replicate 16 0) []]"

theorem capture_refines_the_log_witness:
  "\<exists>h. wal_header_parse demo_wal_header = Some h \<and>
     map (map fr_page_no \<circ> ct_frames) (wc_committed (feed ((0, demo_wal_header) # all_writes 512 1 demo_log_actions empty_log)
       (capture_with_limit 0))) = [[3], [1]]"
proof -
  let ?h = "\<lparr>wh_page_size = 512, wh_checkpoint_seq = 0, wh_salt = replicate 8 7\<rparr>"
  note h = demo_header_parse and len = demo_header_length
  note logs = demo_log_actions_def empty_log_def log_rollback_def header_safe_def log_append_def log_restamp_def log_overwrite_def log_commit_def
    log_txn_def
  have "actions_ok (wh_page_size ?h) 1 demo_log_actions empty_log" by (simp add: logs)
  from capture_refines_the_log [OF h len this, of 0] have "captures ?h 1
      (feed ((0, demo_wal_header) # all_writes 512 1 demo_log_actions empty_log) (capture_with_limit 0))
      (fold (log_act 512 1) demo_log_actions empty_log)" by simp
  then have "wc_committed (feed ((0, demo_wal_header) # all_writes 512 1 demo_log_actions empty_log)
      (capture_with_limit 0)) = ls_committed (fold (log_act 512 1) demo_log_actions empty_log)"
    by (simp only: captures_def)
  then show ?thesis using h by (simp add: logs)
qed

section \<open>A slot reused for the same page\<close>

lemma slots_of_get_below: "i < b \<Longrightarrow> bt_get (slots_of ps b fs) (frame_offset ps i) = None"
  by (induction fs arbitrary: b) (auto simp: bt_get_Cons)

lemma page_after_commit_ignored:
  assumes "captures h g st s" and "i < ls_base s"
  shows "page_arrives (frame_offset (unat (wh_page_size h)) i) data st = st"
  using assms by (simp add: captures_def page_arrives_def slots_of_get_below)

lemma same_page_header_captures:
  assumes "captures h g st s" and "ls_stale s = y # ys" and "lf_page_no f = lf_page_no y"
  shows "captures h g (frame_arrives (frame_offset (unat (wh_page_size h)) (ls_base s + length (ls_pending s)))
      \<lparr>fh_page_no = lf_page_no f, fh_db_size = lf_db_size f\<rparr> None st)
    (log_append (wh_page_size h) g (f\<lparr>lf_data := lf_data y\<rparr>) s)"
proof -
  let ?o = "frame_offset (unat (wh_page_size h)) (ls_base s + length (ls_pending s))" and ?f = "f\<lparr>lf_data := lf_data y\<rparr>"
  have "bt_get (wc_slots st) ?o = Some (slot_of y)"
    using assms(1,2) by (simp add: captures_def slots_of_next_get)
  moreover have "slot_of ?f = \<lparr>sl_page_no = lf_page_no f, sl_db_size = lf_db_size f, sl_data = Some (lf_data y)\<rparr>"
    by (simp add: slot_of_def)
  ultimately show ?thesis
    using next_frame_captures [OF assms(1), where f = ?f and k = "wc_header_rewrites st + 1"] assms(3)
    by (cases "lf_db_size f = 0") (simp_all add: frame_arrives_def slot_of_def Let_def)
qed

text \<open>
  In the shape left out the capture ships a page that was rolled back. Frames of a transaction
  were written to the log and rolled back; the next transaction commits with a frame, written header
  first and page second, in the slot where the abandoned frame of the same page was. The header with
  its commit marker is taken for a rewrite of the abandoned frame's header, so the transaction is
  emitted at once with the abandoned page, and the real page, arriving next, is ignored.
\<close>

theorem reused_slot_ships_a_rolled_back_page:
  assumes "wal_header_parse hb = Some h" and "length hb = WAL_HEADER_SIZE"
    and "actions_ok (wh_page_size h) 1 as empty_log" and "s = fold (log_act (wh_page_size h) 1) as empty_log"
    and "ls_stale s = y # ys" and "lf_page_no f = lf_page_no y" and "lf_db_size f \<noteq> 0"
    and "length (lf_data f) = unat (wh_page_size h)" and "length t = 16"
  shows "wc_committed (feed ((0, hb) # all_writes (wh_page_size h) 1 as empty_log @
        writes_of (unat (wh_page_size h)) (AppendSplit f t []) s) (capture_with_limit n)) =
      ls_committed s @ [log_txn (wh_page_size h) 1 (ls_pending s @ [f\<lparr>lf_data := lf_data y\<rparr>])]"
proof -
  let ?ps = "unat (wh_page_size h)" and ?i = "ls_base s + length (ls_pending s)"
  let ?s = "log_append (wh_page_size h) 1 (f\<lparr>lf_data := lf_data y\<rparr>) s"
  define st where "st = feed ((0, hb) # all_writes (wh_page_size h) 1 as empty_log) (capture_with_limit n)"
  have ps: "0 < wh_page_size h" by (rule wal_header_page_size [OF assms(1)])
  have cap: "captures h 1 st s" unfolding st_def assms(4) by (rule fresh_log_captures [OF assms(1-3)])
  then have head: "wc_header st = Some h" by (simp add: captures_def)
  define st1 where "st1 = on_write (frame_offset ?ps ?i) (header_bytes (lf_page_no f) (lf_db_size f) t) st"
  have "core st1 = core (frame_arrives (frame_offset ?ps ?i) \<lparr>fh_page_no = lf_page_no f, fh_db_size = lf_db_size f\<rparr> None st)"
    using on_write_core [OF frame_offset_ge] header_only_arrives [OF head ps assms(9)] by (simp add: st1_def)
  with same_page_header_captures [OF cap assms(5,6)] have cap1: "captures h 1 st1 ?s" using captures_core by blast
  then have head1: "wc_header st1 = Some h" by (simp add: captures_def)
  have s: "?i < ls_base ?s" "ls_committed ?s = ls_committed s @ [log_txn (wh_page_size h) 1 (ls_pending s @ [f\<lparr>lf_data := lf_data y\<rparr>])]"
    using assms(7) by (simp_all add: log_append_def log_commit_def)
  have "captures h 1 (on_write (frame_offset ?ps ?i + FRAME_HEADER_SIZE) (lf_data f) st1) ?s"
    using consume_page [OF head1 ps assms(8), of ?i "[]"] page_after_commit_ignored [OF cap1 s(1)] cap1
      frame_offset_ge [of ?ps ?i] by (simp add: on_write_captures Let_def)
  then have "wc_committed (on_write (frame_offset ?ps ?i + FRAME_HEADER_SIZE) (lf_data f) st1) = ls_committed ?s"
    by (simp add: captures_def)
  moreover have "feed ((0, hb) # all_writes (wh_page_size h) 1 as empty_log @ writes_of ?ps (AppendSplit f t []) s) (capture_with_limit n) =
      on_write (frame_offset ?ps ?i + FRAME_HEADER_SIZE) (lf_data f) st1"
    by (simp add: feed_def st_def st1_def next_offset_def)
  ultimately show ?thesis using s(2) by simp
qed

text \<open>Page 2 is spilled to the log and rolled back; a transaction then changes page 2 only.\<close>

definition demo_reuse :: "log_action list" where
  "demo_reuse =
     [AppendFrames [(\<lparr>lf_page_no = 2, lf_db_size = 0, lf_data = replicate 512 5\<rparr>, replicate 16 0)], Rollback]"

definition demo_new_page :: log_frame where
  "demo_new_page = \<lparr>lf_page_no = 2, lf_db_size = 2, lf_data = replicate 512 9\<rparr>"

theorem reused_slot_ships_a_rolled_back_page_witness:
  "map ct_frames (wc_committed (feed ((0, demo_wal_header) # all_writes 512 1 demo_reuse empty_log @
      writes_of 512 (AppendSplit demo_new_page (replicate 16 0) []) (fold (log_act 512 1) demo_reuse empty_log))
      (capture_with_limit 0))) = [[\<lparr>fr_page_no = 2, fr_data = replicate 512 5\<rparr>]]"
proof -
  let ?y = "\<lparr>lf_page_no = 2, lf_db_size = 0, lf_data = replicate 512 5\<rparr>"
  define s where "s = fold (log_act 512 1) demo_reuse empty_log"
  have s: "s = \<lparr>ls_base = 0, ls_pending = [], ls_stale = [?y], ls_committed = []\<rparr>"
    by (simp add: s_def demo_reuse_def empty_log_def log_append_def log_rollback_def)
  have "actions_ok 512 1 demo_reuse empty_log" by (simp add: demo_reuse_def)
  from reused_slot_ships_a_rolled_back_page [OF demo_header_parse demo_header_length, of demo_reuse s ?y "[]" demo_new_page "replicate 16 0" 0] this
  show ?thesis by (simp add: s_def [symmetric] demo_new_page_def log_txn_def del: fold.simps all_writes.simps writes_of.simps) (simp add: s)
qed

section \<open>Applying twice\<close>

definition byte_at :: "bytes \<Rightarrow> nat \<Rightarrow> u8" where
  "byte_at f p = (if p < length f then f ! p else 0)"

fun touches :: "file_op \<Rightarrow> nat \<Rightarrow> bool" where
  "touches (WriteAt offset data) p \<longleftrightarrow> offset \<le> p \<and> p < offset + length data"
| "touches BadSeek p \<longleftrightarrow> False"
| "touches (SetLen n) p \<longleftrightarrow> n \<le> p"

lemma file_eqI: "length f = length g \<Longrightarrow> (\<And>p. byte_at f p = byte_at g p) \<Longrightarrow> f = g"
proof (rule nth_equalityI)
  fix i
  assume "length f = length g" "i < length f" and same: "\<And>p. byte_at f p = byte_at g p"
  then show "f ! i = g ! i" using same [of i] by (simp add: byte_at_def)
qed

lemma byte_at_pad [simp]: "byte_at (pad_to n f) p = byte_at f p"
  by (auto simp: byte_at_def pad_to_def nth_append)

lemma byte_at_write:
  "byte_at (write_at offset data f) p = (if touches (WriteAt offset data) p then data ! (p - offset) else byte_at f p)"
proof (cases "data = []")
  case False
  have "length (take offset (pad_to offset f)) = offset" by (simp add: pad_to_def)
  then show ?thesis
    using False byte_at_pad [of offset f p]
    by (auto simp: write_at_def byte_at_def nth_append min_def pad_to_def split: if_splits)
qed (auto simp: write_at_def)

lemma byte_at_set_len: "byte_at (set_len n f) p = (if n \<le> p then 0 else byte_at f p)"
proof -
  have "byte_at (take n xs) p = (if n \<le> p then 0 else byte_at xs p)" for xs by (simp add: byte_at_def)
  then show ?thesis by (simp add: set_len_def)
qed

lemma length_set_len [simp]: "length (set_len n f) = n"
  by (simp add: set_len_def pad_to_def)

text \<open>Two files that agree on every byte the operations leave alone end up agreeing on every byte.\<close>

definition same_outside :: "file_op list \<Rightarrow> bytes \<Rightarrow> bytes \<Rightarrow> bool" where
  "same_outside ops f g \<longleftrightarrow> (\<forall>p. (\<forall>op \<in> set ops. \<not> touches op p) \<longrightarrow> byte_at f p = byte_at g p)"

lemma file_step_ok: "op \<noteq> BadSeek \<Longrightarrow> \<exists>f'. file_step op f = Inr f'"
  by (cases op) auto

lemma file_step_byte:
  "file_step op f = Inr f' \<Longrightarrow> \<not> touches op p \<Longrightarrow> byte_at f' p = byte_at f p"
  by (cases op) (auto simp: byte_at_write byte_at_set_len)

lemma file_step_same:
  assumes "file_step op f = Inr f'" "file_step op g = Inr g'" and "same_outside (op # ops) f g"
  shows "same_outside ops f' g'"
  unfolding same_outside_def
proof (intro allI impI)
  fix p
  assume free: "\<forall>op \<in> set ops. \<not> touches op p"
  show "byte_at f' p = byte_at g' p"
  proof (cases "touches op p")
    case True
    then show ?thesis using assms(1,2) by (cases op) (auto simp: byte_at_write byte_at_set_len)
  next
    case False
    then show ?thesis
      using file_step_byte [OF assms(1)] file_step_byte [OF assms(2)] assms(3) free by (auto simp: same_outside_def)
  qed
qed

lemma run_ops_same:
  assumes "BadSeek \<notin> set ops" and "same_outside ops f g"
  shows "same_outside [] (fst (run_ops ApplyOk ops f)) (fst (run_ops ApplyOk ops g)) \<and>
    snd (run_ops ApplyOk ops f) = Inr () \<and>
    (\<forall>n. ops \<noteq> [] \<and> last ops = SetLen n \<longrightarrow> length (fst (run_ops ApplyOk ops f)) = n)"
  using assms
proof (induction ops arbitrary: f g)
  case (Cons op ops)
  obtain f' g' where steps: "file_step op f = Inr f'" "file_step op g = Inr g'"
    using file_step_ok Cons.prems(1) by (metis list.set_intros(1))
  have "same_outside ops f' g'" using file_step_same [OF steps Cons.prems(2)] .
  from Cons.IH [OF _ this] Cons.prems(1) steps show ?case
    by (cases ops) auto
qed simp

lemma run_ops_partial:
  "BadSeek \<notin> set ops \<Longrightarrow> same_outside ops (fst (run_ops fault ops f)) f"
proof (induction ops arbitrary: fault f)
  case Nil
  show ?case by (simp add: same_outside_def)
next
  case (Cons op ops)
  obtain f' where step: "file_step op f = Inr f'" using file_step_ok Cons.prems by (metis list.set_intros(1))
  have later: "same_outside (op # ops) (fst (run_ops fault' ops f')) f" for fault'
    using Cons.IH [of fault' f'] Cons.prems file_step_byte [OF step] by (auto simp: same_outside_def)
  show ?case
  proof (cases "\<exists>m. fault = ApplyFails 0 m")
    case True
    then show ?thesis by (cases op) (auto simp: same_outside_def byte_at_write)
  next
    case False
    then have "\<exists>fault'. run_ops fault (op # ops) f = run_ops fault' ops f'"
      using step by (cases fault; cases "case fault of ApplyFails k m \<Rightarrow> k") auto
    with later show ?thesis by auto
  qed
qed

lemma txn_ops_no_BadSeek:
  "\<forall>t \<in> set ts. \<forall>fr \<in> set (ct_frames t). fr_page_no fr \<noteq> 0 \<Longrightarrow> BadSeek \<notin> set (concat (map txn_ops ts))"
  by (auto simp: txn_ops_def frame_op_def split: if_splits)

lemma last_txn_ops: "ts \<noteq> [] \<Longrightarrow> \<exists>n. last (concat (map txn_ops ts)) = SetLen n \<and> concat (map txn_ops ts) \<noteq> []"
  by (cases ts rule: rev_cases) (auto simp: txn_ops_def)

lemma reapply_after_fault:
  assumes "ts \<noteq> []" and "\<forall>t \<in> set (ts @ us). \<forall>fr \<in> set (ct_frames t). fr_page_no fr \<noteq> 0"
  shows "apply_to_db_file ApplyOk (ts @ us) (fst (apply_to_db_file fault ts f)) =
    apply_to_db_file ApplyOk (ts @ us) f"
proof -
  let ?ops = "concat (map txn_ops (ts @ us))" and ?torn = "fst (apply_to_db_file fault ts f)"
  have good: "BadSeek \<notin> set ?ops" using assms(2) by (rule txn_ops_no_BadSeek)
  have "same_outside (concat (map txn_ops ts)) ?torn f"
    using run_ops_partial [of "concat (map txn_ops ts)" fault f] good by (simp add: apply_to_db_file_def)
  then have torn: "same_outside ?ops ?torn f"
    by (auto simp: same_outside_def)
  then have conv: "same_outside ?ops f ?torn" by (auto simp: same_outside_def)
  obtain n where n: "last ?ops = SetLen n" "?ops \<noteq> []" using last_txn_ops [of "ts @ us"] assms(1) by auto
  note a = run_ops_same [OF good torn] and b = run_ops_same [OF good conv]
  have "fst (run_ops ApplyOk ?ops ?torn) = fst (run_ops ApplyOk ?ops f)"
    by (rule file_eqI) (use a b n in \<open>auto simp: same_outside_def\<close>)
  then have "run_ops ApplyOk ?ops ?torn = run_ops ApplyOk ?ops f"
    using a b by (simp add: prod_eq_iff)
  then show ?thesis by (simp add: apply_to_db_file_def)
qed

text \<open>
  (C26) Applying a batch again repairs an attempt that stopped anywhere: after a first attempt cut off
  by a fault at any operation, mid-write or at the final sync, applying the same transactions, or
  those and more, gives byte for byte the file an undisturbed application would have given.
\<close>

theorem reapplying_repairs_a_torn_file:
  assumes "ts \<noteq> []" and "\<forall>t \<in> set (ts @ us). \<forall>fr \<in> set (ct_frames t). fr_page_no fr \<noteq> 0"
  shows "apply_to_db_file ApplyOk (ts @ us) (fst (apply_to_db_file fault ts f)) =
    apply_to_db_file ApplyOk (ts @ us) f"
  using assms by (rule reapply_after_fault)

definition demo_txn :: "u32 \<Rightarrow> u8 \<Rightarrow> committed_txn" where
  "demo_txn page x =
     \<lparr>ct_db_size_pages = 2, ct_page_size = 512,
      ct_frames = [\<lparr>fr_page_no = page, fr_data = replicate 512 x\<rparr>], ct_generation = 1\<rparr>"

theorem reapplying_repairs_a_torn_file_witness:
  "apply_to_db_file ApplyOk [demo_txn 1 5, demo_txn 2 6]
     (fst (apply_to_db_file (ApplyFails 2 100) [demo_txn 1 5, demo_txn 2 6] [])) =
   apply_to_db_file ApplyOk [demo_txn 1 5, demo_txn 2 6] []"
  using reapplying_repairs_a_torn_file [of "[demo_txn 1 5, demo_txn 2 6]" "[]" "ApplyFails 2 100" "[]"]
  by (simp add: demo_txn_def)

end
