(* ===== verification/Stream_Log.thy ===== *)
theory Stream_Log
  imports Wal_Capture Text_Format "HOL-Library.Product_Lexorder"
begin

text \<open>
  The primary's side of replication: positions of committed transactions and the file they are kept
  in (\<^verbatim>\<open>src/src/replication/stream.rs\<close>), the bounded log followers read from
  (\<^verbatim>\<open>src/src/replication/log.rs\<close>), and the acknowledgements writers wait for
  (\<^verbatim>\<open>src/src/replication/ack.rs\<close>).
\<close>

section \<open>Stream positions\<close>

record stream_txn =
  sx_lsn :: lsn
  sx_txn :: committed_txn

definition stream_HEADER :: string where
  "stream_HEADER = ''shardlite-stream 1''"

record positions =
  po_epoch :: u64
  po_next :: "(shard_id, lsn) btree"
  po_clean :: bool

definition positions_default :: positions where
  "positions_default = \<lparr>po_epoch = 0, po_next = [], po_clean = False\<rparr>"

definition show_bool :: "bool \<Rightarrow> string" where
  "show_bool b = (if b then ''true'' else ''false'')"

definition next_line :: "shard_id \<times> lsn \<Rightarrow> string" where
  "next_line e = ''next.'' @ show_word (fst e) @ ''='' @ show_word (snd e)"

definition positions_body :: "positions \<Rightarrow> string" where
  "positions_body p =
     concat (map (\<lambda>l. l @ [newline])
       (stream_HEADER # (''epoch='' @ show_word (po_epoch p)) # (''clean='' @ show_bool (po_clean p)) #
        map next_line (po_next p)))"

definition strip_prefix :: "string \<Rightarrow> string \<Rightarrow> string option" where
  "strip_prefix pre s = (if take (length pre) s = pre then Some (drop (length pre) s) else None)"

definition positions_read_line :: "string \<Rightarrow> positions \<Rightarrow> positions" where
  "positions_read_line line p =
     (case split_once CHR ''='' line of
        None \<Rightarrow> p
      | Some (k, v) \<Rightarrow>
          if trim k = ''epoch''
          then p\<lparr>po_epoch := (case parse_word (trim v) of Some e \<Rightarrow> e | None \<Rightarrow> 0)\<rparr>
          else if trim k = ''clean'' then p\<lparr>po_clean := (trim v = ''true'')\<rparr>
          else
            case strip_prefix ''next.'' (trim k) of
              None \<Rightarrow> p
            | Some s \<Rightarrow>
                (case (parse_word s, parse_word (trim v)) of
                   (Some shard, Some nxt) \<Rightarrow> p\<lparr>po_next := bt_insert shard nxt (po_next p)\<rparr>
                 | _ \<Rightarrow> p))"

definition positions_read :: "string \<Rightarrow> positions result" where
  "positions_read text =
     (let ls = text_lines text; header = (case ls of [] \<Rightarrow> [] | h # _ \<Rightarrow> h) in
      if header \<noteq> stream_HEADER then Inl (Manifest ''has header'')
      else Inr (fold positions_read_line (tl ls) positions_default))"

text \<open>
  The file is rewritten in place, with no temporary file and no sync: opening it can fail and leave
  it as it was, and a write that is cut off, by an error or by a crash, leaves a prefix of the new text.
\<close>

datatype overwrite_fault = OvOk | OvRefused | OvTorn nat

definition overwrite_file ::
    "overwrite_fault \<Rightarrow> 'b list option \<Rightarrow> 'b list \<Rightarrow> 'b list option \<times> unit result" where
  "overwrite_file fault old body =
     (case fault of
        OvOk \<Rightarrow> (Some body, Inr ())
      | OvRefused \<Rightarrow> (old, Inl (Manifest ''writing''))
      | OvTorn n \<Rightarrow> (Some (take n body), Inl (Manifest ''writing'')))"

record stream_positions =
  st_positions :: positions
  st_file :: "string option"

definition stream_persist :: "overwrite_fault \<Rightarrow> stream_positions \<Rightarrow> stream_positions \<times> unit result" where
  "stream_persist fault st =
     (case overwrite_file fault (st_file st) (positions_body (st_positions st)) of (f, r) \<Rightarrow> (st\<lparr>st_file := f\<rparr>, r))"

text \<open>A position that was not left by a clean shutdown starts a new epoch.\<close>

definition next_run :: "positions \<Rightarrow> positions" where
  "next_run p =
     (let p = (if po_clean p then p else p\<lparr>po_epoch := po_epoch p + 1, po_next := []\<rparr>) in p\<lparr>po_clean := False\<rparr>)"

definition stream_load_or_init ::
    "overwrite_fault \<Rightarrow> string option \<Rightarrow> string option \<times> stream_positions result" where
  "stream_load_or_init fault file =
     (case (case file of Some text \<Rightarrow> positions_read text | None \<Rightarrow> Inr positions_default) of
        Inl e \<Rightarrow> (file, Inl e)
      | Inr p \<Rightarrow>
          (case stream_persist fault \<lparr>st_positions = next_run p, st_file = file\<rparr> of
             (st, Inl e) \<Rightarrow> (st_file st, Inl e)
           | (st, Inr _) \<Rightarrow> (st_file st, Inr st)))"

definition allocate :: "shard_id \<Rightarrow> nat \<Rightarrow> stream_positions \<Rightarrow> stream_positions \<times> lsn" where
  "allocate shard count st =
     (let p = st_positions st;
          start = (case bt_get (po_next p) shard of Some n \<Rightarrow> n | None \<Rightarrow> 1)
      in (st\<lparr>st_positions := p\<lparr>po_next := bt_insert shard (start + word_of_nat count) (po_next p)\<rparr>\<rparr>, start))"

definition stream_rollback :: "shard_id \<Rightarrow> nat \<Rightarrow> stream_positions \<Rightarrow> stream_positions" where
  "stream_rollback shard count st =
     (let p = st_positions st in
      st\<lparr>st_positions := p\<lparr>po_next := bt_adjust shard (\<lambda>n. max (saturating_sub n (word_of_nat count)) 1) (po_next p)\<rparr>\<rparr>)"

definition last_allocated :: "stream_positions \<Rightarrow> shard_id \<Rightarrow> lsn" where
  "last_allocated st shard =
     (case bt_get (po_next (st_positions st)) shard of Some n \<Rightarrow> saturating_sub n 1 | None \<Rightarrow> 0)"

definition mark_clean :: "overwrite_fault \<Rightarrow> stream_positions \<Rightarrow> stream_positions \<times> unit result" where
  "mark_clean fault st = stream_persist fault (st\<lparr>st_positions := (st_positions st)\<lparr>po_clean := True\<rparr>\<rparr>)"

section \<open>The frame log\<close>

record frame_log_config =
  fc_total_bytes :: nat
  fc_shard_count :: u32

definition frame_log_floor :: "u32 \<Rightarrow> frame_log_config" where
  "frame_log_floor shard_count = \<lparr>fc_total_bytes = 16 * 1024 * 1024, fc_shard_count = max shard_count 1\<rparr>"

definition per_shard :: "frame_log_config \<Rightarrow> nat" where
  "per_shard cfg = max (fc_total_bytes cfg div unat (max (fc_shard_count cfg) 1)) (64 * 1024)"

record shard_log =
  sg_txns :: "stream_txn list"
  sg_bytes :: nat

datatype served = ServedFrames "stream_txn list" | ServedUpToDate | ServedTooOld lsn

record frame_log =
  fl_per_shard_bytes :: nat
  fl_shards :: "(shard_id, shard_log) btree"
  fl_retained :: u64
  fl_evicted :: u64
  fl_served :: u64
  fl_missed :: u64

definition frame_log_new :: "frame_log_config \<Rightarrow> frame_log" where
  "frame_log_new cfg =
     \<lparr>fl_per_shard_bytes = per_shard cfg, fl_shards = [], fl_retained = 0, fl_evicted = 0, fl_served = 0, fl_missed = 0\<rparr>"

definition lowest_retained :: "frame_log \<Rightarrow> shard_id \<Rightarrow> lsn option" where
  "lowest_retained l shard =
     (case bt_get (fl_shards l) shard of
        None \<Rightarrow> None
      | Some g \<Rightarrow> (case sg_txns g of [] \<Rightarrow> None | t # _ \<Rightarrow> Some (sx_lsn t)))"

definition highest_retained :: "frame_log \<Rightarrow> shard_id \<Rightarrow> lsn option" where
  "highest_retained l shard =
     (case bt_get (fl_shards l) shard of
        None \<Rightarrow> None
      | Some g \<Rightarrow> (if sg_txns g = [] then None else Some (sx_lsn (last (sg_txns g)))))"

definition serve :: "shard_id \<Rightarrow> lsn \<Rightarrow> nat \<Rightarrow> frame_log \<Rightarrow> frame_log \<times> served" where
  "serve shard from_lsn max_txns l =
     (case bt_get (fl_shards l) shard of
        None \<Rightarrow>
          if from_lsn \<le> 1 then (l, ServedUpToDate) else (l\<lparr>fl_missed := fl_missed l + 1\<rparr>, ServedTooOld 0)
      | Some g \<Rightarrow>
          (case sg_txns g of
             [] \<Rightarrow> (l, ServedUpToDate)
           | first # _ \<Rightarrow>
               if sx_lsn (last (sg_txns g)) < from_lsn then (l, ServedUpToDate)
               else if from_lsn < sx_lsn first
               then (l\<lparr>fl_missed := fl_missed l + 1\<rparr>, ServedTooOld (sx_lsn first))
               else
                 let batch = take max_txns (filter (\<lambda>t. from_lsn \<le> sx_lsn t) (sg_txns g)) in
                 (l\<lparr>fl_served := fl_served l + word_of_nat (length batch)\<rparr>, ServedFrames batch)))"

definition txn_size :: "stream_txn \<Rightarrow> nat" where
  "txn_size t = frames_bytes (ct_frames (sx_txn t))"

text \<open>Oldest first, and the newest transaction always stays.\<close>

fun evict :: "nat \<Rightarrow> nat \<Rightarrow> stream_txn list \<Rightarrow> stream_txn list \<times> nat" where
  "evict limit held (t # u # ts) =
     (if limit < held then evict limit (held - txn_size t) (u # ts) else (t # u # ts, held))"
| "evict limit held ts = (ts, held)"

definition accept :: "shard_id \<Rightarrow> stream_txn list \<Rightarrow> frame_log \<Rightarrow> frame_log" where
  "accept shard txns l =
     (let g = (case bt_get (fl_shards l) shard of Some g \<Rightarrow> g | None \<Rightarrow> \<lparr>sg_txns = [], sg_bytes = 0\<rparr>);
          all = sg_txns g @ txns;
          held = sg_bytes g + sum_list (map txn_size txns)
      in case evict (fl_per_shard_bytes l) held all of
           (kept, bytes) \<Rightarrow>
             l\<lparr>fl_shards := bt_insert shard \<lparr>sg_txns = kept, sg_bytes = bytes\<rparr> (fl_shards l),
               fl_retained := fl_retained l + word_of_nat (length txns),
               fl_evicted := fl_evicted l + word_of_nat (length all - length kept)\<rparr>)"

section \<open>Acknowledgements\<close>

record ack_tracker =
  ak_voters :: nat
  ak_positions :: "(shard_id \<times> node_id, lsn) btree"
  ak_confirmed :: u64
  ak_timed_out :: u64

definition ack_new :: "nat \<Rightarrow> ack_tracker" where
  "ack_new voters = \<lparr>ak_voters = max voters 1, ak_positions = [], ak_confirmed = 0, ak_timed_out = 0\<rparr>"

definition ack_quorum :: "ack_tracker \<Rightarrow> nat" where
  "ack_quorum a = ak_voters a div 2 + 1"

definition ack_record :: "node_id \<Rightarrow> shard_id \<Rightarrow> lsn \<Rightarrow> ack_tracker \<Rightarrow> ack_tracker" where
  "ack_record node shard l a =
     (let held = (case bt_get (ak_positions a) (shard, node) of Some h \<Rightarrow> h | None \<Rightarrow> 0) in
      a\<lparr>ak_positions := bt_insert (shard, node) (max held l) (ak_positions a)\<rparr>)"

definition holders :: "ack_tracker \<Rightarrow> shard_id \<Rightarrow> lsn \<Rightarrow> nat" where
  "holders a shard l =
     length (filter (\<lambda>((s, _), held). s = shard \<and> l \<le> held) (ak_positions a)) + 1"

text \<open>
  The wait of a writer: between two looks at the positions other threads record what followers
  hold; when no more arrives in time the wait fails.
\<close>

fun wait_for_quorum ::
    "shard_id \<Rightarrow> lsn \<Rightarrow> (node_id \<times> shard_id \<times> lsn) list \<Rightarrow> ack_tracker \<Rightarrow> ack_tracker \<times> unit result" where
  "wait_for_quorum shard l arrivals a =
     (if ack_quorum a \<le> holders a shard l then (a\<lparr>ak_confirmed := ak_confirmed a + 1\<rparr>, Inr ())
      else
        case arrivals of
          [] \<Rightarrow> (a\<lparr>ak_timed_out := ak_timed_out a + 1\<rparr>,
                  Inl (NotReplicated shard l (holders a shard l) (ack_quorum a)))
        | (node, s, held) # rest \<Rightarrow> wait_for_quorum shard l rest (ack_record node s held a))"

declare wait_for_quorum.simps [simp del]

definition quorum_lsn :: "ack_tracker \<Rightarrow> shard_id \<Rightarrow> lsn" where
  "quorum_lsn a shard =
     (let held = rev (sort (map snd (filter (\<lambda>((s, _), _). s = shard) (ak_positions a))));
          needed = ack_quorum a - 1
      in if needed = 0 then - 1
         else if needed - 1 < length held then held ! (needed - 1) else 0)"

end
