(* ===== verification/Follower.thy ===== *)
theory Follower
  imports Stream_Log Disk_File
begin

text \<open>
  The follower's side of replication: the copies a node holds and the position of each
  (\<^verbatim>\<open>src/src/replication/follower.rs\<close>), and the resumable transfer of a snapshot
  (\<^verbatim>\<open>src/src/replication/bootstrap.rs\<close>). Disk faults are arguments; SQLite's integrity check
  is a parameter.
\<close>

section \<open>Positions\<close>

record position =
  ps_epoch :: u64
  ps_applied_lsn :: lsn

definition position_default :: position where
  "position_default = \<lparr>ps_epoch = 0, ps_applied_lsn = 0\<rparr>"

datatype need = NeedNext lsn | NeedBootstrap string

text \<open>
  The shard files, the private copies being installed, the write-ahead logs beside them and the
  position files, all by shard.
\<close>

record follower =
  fo_positions :: "(shard_id, position) btree"
  fo_db :: "shard_id \<Rightarrow> bytes option"
  fo_installing :: "shard_id \<Rightarrow> bytes option"
  fo_wal :: "shard_id \<Rightarrow> bytes option"
  fo_position_file :: "shard_id \<Rightarrow> char file_slot"

definition position_of :: "follower \<Rightarrow> shard_id \<Rightarrow> position" where
  "position_of f shard =
     (case bt_get (fo_positions f) shard of Some p \<Rightarrow> p | None \<Rightarrow> position_default)"

definition follower_need :: "follower \<Rightarrow> shard_id \<Rightarrow> u64 \<Rightarrow> need" where
  "follower_need f shard epoch =
     (let pos = position_of f shard in
      if ps_epoch pos = 0 \<and> ps_applied_lsn pos = 0
      then NeedBootstrap ''this follower has no copy of the shard''
      else if ps_epoch pos \<noteq> epoch then NeedBootstrap ''follower is on another epoch''
      else NeedNext (ps_applied_lsn pos + 1))"

definition position_body :: "position \<Rightarrow> string" where
  "position_body p =
     ''epoch='' @ show_word (ps_epoch p) @ [newline] @ ''lsn='' @ show_word (ps_applied_lsn p) @ [newline]"

definition set_position :: "write_fault \<Rightarrow> shard_id \<Rightarrow> position \<Rightarrow> follower \<Rightarrow> follower \<times> unit result" where
  "set_position fault shard pos f =
     (case replace_file fault (position_body pos) (fo_position_file f shard) of
        (slot, Inl e) \<Rightarrow> (f\<lparr>fo_position_file := (fo_position_file f)(shard := slot)\<rparr>, Inl e)
      | (slot, Inr _) \<Rightarrow>
          (f\<lparr>fo_position_file := (fo_position_file f)(shard := slot),
             fo_positions := bt_insert shard pos (fo_positions f)\<rparr>, Inr ()))"

definition position_read_line :: "string \<Rightarrow> position \<Rightarrow> position" where
  "position_read_line line p =
     (case split_once CHR ''='' line of
        None \<Rightarrow> p
      | Some (k, v) \<Rightarrow>
          let n = (case parse_word (trim v) of Some n \<Rightarrow> n | None \<Rightarrow> 0) in
          if k = ''epoch'' then p\<lparr>ps_epoch := n\<rparr>
          else if k = ''lsn'' then p\<lparr>ps_applied_lsn := n\<rparr> else p)"

definition position_read :: "string \<Rightarrow> position" where
  "position_read text = fold position_read_line (text_lines text) position_default"

definition strip_suffix :: "string \<Rightarrow> string \<Rightarrow> string option" where
  "strip_suffix suf s = map_option rev (strip_prefix (rev suf) (rev s))"

definition position_file_shard :: "string \<Rightarrow> shard_id option" where
  "position_file_shard name =
     Option.bind (strip_prefix ''shard_'' name)
       (\<lambda>r. Option.bind (strip_suffix ''.position'' r) parse_word)"

text \<open>The directory as the names and readable contents of its entries, in the order it lists them.\<close>

definition load_positions :: "(string \<times> string option) list \<Rightarrow> (shard_id, position) btree" where
  "load_positions entries =
     fold (\<lambda>(name, content) m.
       case (position_file_shard name, content) of
         (Some shard, Some text) \<Rightarrow> bt_insert shard (position_read text) m
       | _ \<Rightarrow> m) entries []"

section \<open>Applying a stream\<close>

fun check_contiguous :: "shard_id \<Rightarrow> lsn \<Rightarrow> stream_txn list \<Rightarrow> unit result" where
  "check_contiguous shard expect [] = Inr ()"
| "check_contiguous shard expect (t # ts) =
     (if sx_lsn t \<noteq> expect
      then Inl (ReplicationGap shard expect (sx_lsn t) ''the stream is not contiguous'')
      else check_contiguous shard (expect + 1) ts)"

definition check_batch :: "position \<Rightarrow> shard_id \<Rightarrow> u64 \<Rightarrow> stream_txn list \<Rightarrow> unit result" where
  "check_batch pos shard epoch txns =
     (let fresh = (ps_epoch pos = 0 \<and> ps_applied_lsn pos = 0); first = sx_lsn (hd txns) in
      if \<not> fresh \<and> ps_epoch pos \<noteq> epoch
      then Inl (ReplicationGap shard (ps_applied_lsn pos + 1) first ''epoch does not match the primary's'')
      else if fresh \<and> first \<noteq> 1
      then Inl (ReplicationGap shard 1 first ''an uninitialised follower can only join a stream at LSN 1'')
      else check_contiguous shard (ps_applied_lsn pos + 1) txns)"

definition db_bytes :: "follower \<Rightarrow> shard_id \<Rightarrow> bytes" where
  "db_bytes f shard = (case fo_db f shard of Some b \<Rightarrow> b | None \<Rightarrow> [])"

text \<open>\<open>None\<close> as a fault: the shard file could not be opened.\<close>

definition write_pages ::
    "apply_fault option \<Rightarrow> shard_id \<Rightarrow> stream_txn list \<Rightarrow> follower \<Rightarrow> follower \<times> unit result" where
  "write_pages fault shard txns f =
     (case fault of
        None \<Rightarrow> (f, Inl (IoFailure ''open''))
      | Some af \<Rightarrow>
          (case apply_to_db_file af (map sx_txn txns) (db_bytes f shard) of
             (b, r) \<Rightarrow> (f\<lparr>fo_db := (fo_db f)(shard := Some b)\<rparr>, r)))"

definition follower_apply ::
    "apply_fault option \<Rightarrow> write_fault \<Rightarrow> shard_id \<Rightarrow> u64 \<Rightarrow> stream_txn list \<Rightarrow> follower \<Rightarrow>
     follower \<times> unit result" where
  "follower_apply pages persist shard epoch txns f =
     (if txns = [] then (f, Inr ())
      else
        case check_batch (position_of f shard) shard epoch txns of
          Inl e \<Rightarrow> (f, Inl e)
        | Inr _ \<Rightarrow>
            (case write_pages pages shard txns f of
               (f, Inl e) \<Rightarrow> (f, Inl e)
             | (f, Inr _) \<Rightarrow>
                 set_position persist shard
                   \<lparr>ps_epoch = epoch, ps_applied_lsn = sx_lsn (last txns)\<rparr> f))"

section \<open>Installing a snapshot\<close>

datatype install_fault = InOk | InCopy nat | InSync | InRename | InDirSync

record install_env =
  ie_fault :: install_fault
  ie_integrity :: "bytes \<Rightarrow> string result"
  ie_wal_removed :: bool
  ie_persist :: write_fault

definition install_file :: "install_env \<Rightarrow> shard_id \<Rightarrow> bytes \<Rightarrow> follower \<Rightarrow> follower \<times> unit result" where
  "install_file env shard img f =
     (let tmp = (\<lambda>b f. f\<lparr>fo_installing := (fo_installing f)(shard := b)\<rparr>) in
      case ie_fault env of
        InCopy n \<Rightarrow> (tmp (Some (take n img)) f, Inl (Manifest ''copying snapshot''))
      | InSync \<Rightarrow> (tmp (Some img) f, Inl (Manifest ''fsyncing snapshot''))
      | fault \<Rightarrow>
          (case ie_integrity env img of
             Inl e \<Rightarrow> (tmp (Some img) f, Inl (Manifest ''checking snapshot''))
           | Inr verdict \<Rightarrow>
               if verdict \<noteq> ''ok'' then (tmp None f, Inl (Manifest ''failed integrity_check''))
               else if fault = InRename then (tmp (Some img) f, Inl (Manifest ''installing''))
               else
                 let f = (tmp None f)\<lparr>fo_db := (fo_db f)(shard := Some img),
                           fo_wal := (if ie_wal_removed env then (fo_wal f)(shard := None) else fo_wal f)\<rparr> in
                 if fault = InDirSync then (f, Inl (Manifest ''fsyncing'')) else (f, Inr ())))"

definition install_snapshot ::
    "install_env \<Rightarrow> shard_id \<Rightarrow> u64 \<Rightarrow> lsn \<Rightarrow> bytes \<Rightarrow> follower \<Rightarrow> follower \<times> unit result" where
  "install_snapshot env shard epoch l img f =
     (case install_file env shard img f of
        (f, Inl e) \<Rightarrow> (f, Inl e)
      | (f, Inr _) \<Rightarrow> set_position (ie_persist env) shard \<lparr>ps_epoch = epoch, ps_applied_lsn = l\<rparr> f)"

end
