(* ===== verification/Snapshot_Transfer.thy ===== *)
theory Snapshot_Transfer
  imports Follower
begin

text \<open>
  The resumable transfer of a snapshot (\<^verbatim>\<open>src/src/replication/bootstrap.rs\<close>): its identity,
  the partial file and the progress file that survive an interruption, and the copy loop. Whatever
  sequence of interrupted transfers, of one snapshot or of several, came before, an undisturbed one
  leaves exactly the bytes of its own snapshot.
\<close>

section \<open>Identity\<close>

record snapshot_id =
  si_shard :: shard_id
  si_epoch :: u64
  si_lsn :: lsn
  si_total_bytes :: u64

definition snapshot_lines :: "snapshot_id \<Rightarrow> string list" where
  "snapshot_lines i =
     [''shard='' @ show_word (si_shard i), ''epoch='' @ show_word (si_epoch i),
      ''lsn='' @ show_word (si_lsn i), ''total='' @ show_word (si_total_bytes i)]"

definition unlines :: "string list \<Rightarrow> string" where
  "unlines ls = concat (map (\<lambda>l. l @ [newline]) ls)"

definition snapshot_encode :: "snapshot_id \<Rightarrow> string" where
  "snapshot_encode i = unlines (snapshot_lines i)"

record snapshot_fields =
  sf_shard :: "shard_id option"
  sf_epoch :: "u64 option"
  sf_lsn :: "lsn option"
  sf_total :: "u64 option"
  sf_written :: "u64 option"

definition no_fields :: snapshot_fields where
  "no_fields = \<lparr>sf_shard = None, sf_epoch = None, sf_lsn = None, sf_total = None, sf_written = None\<rparr>"

definition set_field :: "string \<Rightarrow> string \<Rightarrow> snapshot_fields \<Rightarrow> snapshot_fields" where
  "set_field k v s =
     (if k = ''shard'' then s\<lparr>sf_shard := parse_word v\<rparr>
      else if k = ''epoch'' then s\<lparr>sf_epoch := parse_word v\<rparr>
      else if k = ''lsn'' then s\<lparr>sf_lsn := parse_word v\<rparr>
      else if k = ''total'' then s\<lparr>sf_total := parse_word v\<rparr>
      else if k = ''written'' then s\<lparr>sf_written := parse_word v\<rparr>
      else s)"

fun read_fields :: "string list \<Rightarrow> snapshot_fields \<Rightarrow> snapshot_fields option" where
  "read_fields [] s = Some s"
| "read_fields (l # ls) s =
     (case split_once CHR ''='' l of None \<Rightarrow> None | Some (k, v) \<Rightarrow> read_fields ls (set_field k v s))"

definition snapshot_decode :: "string \<Rightarrow> (snapshot_id \<times> u64) option" where
  "snapshot_decode text =
     (case read_fields (text_lines text) no_fields of
        None \<Rightarrow> None
      | Some s \<Rightarrow>
          (case (sf_shard s, sf_epoch s, sf_lsn s, sf_total s) of
             (Some sh, Some e, Some l, Some t) \<Rightarrow>
               Some (\<lparr>si_shard = sh, si_epoch = e, si_lsn = l, si_total_bytes = t\<rparr>,
                     case sf_written s of Some w \<Rightarrow> w | None \<Rightarrow> 0)
           | _ \<Rightarrow> None))"

section \<open>The transfer\<close>

record transfer_disk =
  td_partial :: "bytes option"
  td_meta :: "string option"

text \<open>The file is open with its own cursor, which a write moves whether or not it succeeds.\<close>

record snapshot_transfer =
  sn_disk :: transfer_disk
  sn_id :: snapshot_id
  sn_written :: u64
  sn_cursor :: nat

definition sn_file :: "snapshot_transfer \<Rightarrow> bytes" where
  "sn_file t = (case td_partial (sn_disk t) of Some b \<Rightarrow> b | None \<Rightarrow> [])"

definition meta_body :: "snapshot_id \<Rightarrow> u64 \<Rightarrow> string" where
  "meta_body i w = snapshot_encode i @ ''written='' @ show_word w @ [newline]"

definition persist_meta :: "overwrite_fault \<Rightarrow> snapshot_transfer \<Rightarrow> snapshot_transfer \<times> unit result" where
  "persist_meta fault t =
     (case overwrite_file fault (td_meta (sn_disk t)) (meta_body (sn_id t) (sn_written t)) of
        (m, r) \<Rightarrow> (t\<lparr>sn_disk := (sn_disk t)\<lparr>td_meta := m\<rparr>\<rparr>, r))"

definition resume_at :: "snapshot_id \<Rightarrow> transfer_disk \<Rightarrow> u64 option" where
  "resume_at i d =
     (case td_meta d of
        None \<Rightarrow> None
      | Some text \<Rightarrow>
          (case snapshot_decode text of
             None \<Rightarrow> None
           | Some (found, w) \<Rightarrow>
               if found = i
               then Some (min w (word_of_nat (case td_partial d of Some b \<Rightarrow> length b | None \<Rightarrow> 0)))
               else None))"

datatype begin_fault = BgOk | BgOpen | BgSetLen | BgMeta overwrite_fault

definition transfer_begin ::
    "begin_fault \<Rightarrow> snapshot_id \<Rightarrow> transfer_disk \<Rightarrow> transfer_disk \<times> snapshot_transfer result" where
  "transfer_begin fault i d =
     (let reuse = resume_at i d;
          written = (case reuse of Some w \<Rightarrow> w | None \<Rightarrow> 0);
          opened = (case (reuse, td_partial d) of (Some _, Some b) \<Rightarrow> b | _ \<Rightarrow> []);
          d1 = d\<lparr>td_partial := Some opened\<rparr>;
          t = \<lparr>sn_disk = d1\<lparr>td_partial := Some (set_len (unat written) opened)\<rparr>, sn_id = i,
               sn_written = written, sn_cursor = unat written\<rparr>
      in case fault of
           BgOpen \<Rightarrow> (d, Inl (Manifest ''opening''))
         | BgSetLen \<Rightarrow> (d1, Inl (Manifest ''truncating''))
         | _ \<Rightarrow>
             (case persist_meta (case fault of BgMeta ov \<Rightarrow> ov | _ \<Rightarrow> OvOk) t of
                (t, Inl e) \<Rightarrow> (sn_disk t, Inl e)
              | (t, Inr _) \<Rightarrow> (sn_disk t, Inr t)))"

definition is_complete :: "snapshot_transfer \<Rightarrow> bool" where
  "is_complete t \<longleftrightarrow> si_total_bytes (sn_id t) \<le> sn_written t"

datatype chunk_fault = ChOk | ChShort nat | ChSync | ChMeta overwrite_fault

definition put_bytes :: "bytes \<Rightarrow> snapshot_transfer \<Rightarrow> snapshot_transfer" where
  "put_bytes b t =
     t\<lparr>sn_disk := (sn_disk t)\<lparr>td_partial := Some (write_at (sn_cursor t) b (sn_file t))\<rparr>,
       sn_cursor := sn_cursor t + length b\<rparr>"

definition write_chunk :: "chunk_fault \<Rightarrow> bytes \<Rightarrow> snapshot_transfer \<Rightarrow> snapshot_transfer \<times> unit result" where
  "write_chunk fault data t =
     (if data = [] then (t, Inr ())
      else
        case fault of
          ChShort n \<Rightarrow> (put_bytes (take n data) t, Inl (Manifest ''writing''))
        | ChSync \<Rightarrow> (put_bytes data t, Inl (Manifest ''syncing''))
        | _ \<Rightarrow>
            let t = put_bytes data t;
                t = t\<lparr>sn_written := sn_written t + word_of_nat (length data)\<rparr>
            in persist_meta (case fault of ChMeta ov \<Rightarrow> ov | _ \<Rightarrow> OvOk) t)"

definition transfer_finish ::
    "install_env \<Rightarrow> snapshot_transfer \<Rightarrow> follower \<Rightarrow> transfer_disk \<times> follower \<times> unit result" where
  "transfer_finish env t f =
     (if \<not> is_complete t then (sn_disk t, f, Inl (Manifest ''incomplete''))
      else
        case install_snapshot env (si_shard (sn_id t)) (si_epoch (sn_id t)) (si_lsn (sn_id t)) (sn_file t) f of
          (f, r) \<Rightarrow> (\<lparr>td_partial = None, td_meta = None\<rparr>, f, r))"

section \<open>The source and the copy loop\<close>

record snapshot_source =
  ss_bytes :: bytes
  ss_id :: snapshot_id
  ss_offset :: nat

definition source_open :: "shard_id \<Rightarrow> u64 \<Rightarrow> lsn \<Rightarrow> bytes \<Rightarrow> snapshot_source" where
  "source_open shard epoch l b =
     \<lparr>ss_bytes = b,
      ss_id = \<lparr>si_shard = shard, si_epoch = epoch, si_lsn = l, si_total_bytes = word_of_nat (length b)\<rparr>,
      ss_offset = 0\<rparr>"

definition seek_to :: "u64 \<Rightarrow> snapshot_source \<Rightarrow> snapshot_source result" where
  "seek_to offset s =
     (if si_total_bytes (ss_id s) < offset then Inl (Manifest ''cannot resume'')
      else Inr (s\<lparr>ss_offset := unat offset\<rparr>))"

definition read_chunk :: "nat \<Rightarrow> snapshot_source \<Rightarrow> snapshot_source \<times> bytes" where
  "read_chunk n s =
     (let b = take n (drop (ss_offset s) (ss_bytes s)) in (s\<lparr>ss_offset := ss_offset s + length b\<rparr>, b))"

text \<open>One fault per chunk; past the end of the list every write succeeds.\<close>

function pump_loop ::
    "nat \<Rightarrow> chunk_fault list \<Rightarrow> snapshot_source \<Rightarrow> snapshot_transfer \<Rightarrow> snapshot_transfer \<times> unit result" where
  "pump_loop chunk faults s t =
     (case read_chunk (max chunk 1) s of
        (s', b) \<Rightarrow>
          if b = [] then (t, Inr ())
          else
            case write_chunk (case faults of [] \<Rightarrow> ChOk | c # _ \<Rightarrow> c) b t of
              (t, Inl e) \<Rightarrow> (t, Inl e)
            | (t, Inr _) \<Rightarrow> pump_loop chunk (tl faults) s' t)"
  by pat_completeness auto

termination pump_loop
  by (relation "measure (\<lambda>(chunk, faults, s, t). length (ss_bytes s) - ss_offset s)")
    (auto simp: read_chunk_def Let_def)

declare pump_loop.simps [simp del]

definition pump ::
    "nat \<Rightarrow> chunk_fault list \<Rightarrow> snapshot_source \<Rightarrow> snapshot_transfer \<Rightarrow> snapshot_transfer \<times> unit result" where
  "pump chunk faults s t =
     (if ss_id s \<noteq> sn_id t then (t, Inl (Manifest ''snapshot identity mismatch''))
      else
        case seek_to (sn_written t) s of
          Inl e \<Rightarrow> (t, Inl e)
        | Inr s \<Rightarrow> pump_loop chunk faults s t)"

section \<open>Reading a progress file that was cut off\<close>

lemma text_lines_cut:
  assumes "\<forall>l \<in> set ls. newline \<notin> set l \<and> CHR 0x0D \<notin> set l"
  shows "\<exists>k p. text_lines (take n (unlines ls)) = take k ls @ p \<and>
    (p = [] \<or> (\<exists>m. k < length ls \<and> p = [take m (ls ! k)]))"
  using assms
proof (induction ls arbitrary: n)
  case Nil
  show ?case by (simp add: unlines_def)
next
  case (Cons l ls)
  have clean: "newline \<notin> set l" "CHR 0x0D \<notin> set l" using Cons.prems by auto
  show ?case
  proof (cases "n \<le> length l")
    case True
    then have cut: "take n (unlines (l # ls)) = take n l" by (simp add: unlines_def)
    have "text_lines (take n l) = (if take n l = [] then [] else [take n l])"
    proof -
      have "newline \<notin> set (take n l)" "CHR 0x0D \<notin> set (take n l)"
        using clean by (auto dest: in_set_takeD)
      then show ?thesis by (subst text_lines.simps) (auto simp: strip_cr_def takeWhile_eq_all_conv dropWhile_eq_Nil_conv dest: last_in_set)
    qed
    then show ?thesis unfolding cut by (intro exI [of _ 0]) auto
  next
    case False
    then obtain m where m: "n = Suc (length l + m)" by (metis add_Suc_right less_natE not_le)
    have "take n (unlines (l # ls)) = l @ newline # take m (unlines ls)"
      by (simp add: unlines_def m)
    then have lines: "text_lines (take n (unlines (l # ls))) = l # text_lines (take m (unlines ls))"
      using clean by (simp add: clean_lineI)
    obtain k p where "text_lines (take m (unlines ls)) = take k ls @ p"
        "p = [] \<or> (\<exists>j. k < length ls \<and> p = [take j (ls ! k)])"
      using Cons.IH [of m] Cons.prems by auto
    then show ?thesis using lines by (intro exI [of _ "Suc k"] exI [of _ p]) auto
  qed
qed

lemma split_once_cut:
  assumes "c \<notin> set k"
  shows "split_once c (take m (k @ c # v)) =
    (if m \<le> length k then None else Some (k, take (m - Suc (length k)) v))"
proof (cases "m \<le> length k")
  case True
  then show ?thesis using assms by (auto simp: split_once_def dest: in_set_takeD)
next
  case False
  then obtain j where "m = Suc (length k + j)" by (metis add_Suc_right less_natE not_le)
  then show ?thesis using assms by simp
qed

definition written_line :: "u64 \<Rightarrow> string" where
  "written_line w = ''written='' @ show_word w"

lemma meta_body_unlines: "meta_body i w = unlines (snapshot_lines i @ [written_line w])"
  by (simp add: meta_body_def snapshot_encode_def unlines_def written_line_def)

lemma snapshot_lines_clean:
  "\<forall>l \<in> set (snapshot_lines i @ [written_line w]). newline \<notin> set l \<and> CHR 0x0D \<notin> set l"
  by (simp add: snapshot_lines_def written_line_def show_word_clean, simp add: newline_def)

text \<open>The first four lines give the identity; a line after them can only set the offset.\<close>

definition id_fields :: "snapshot_id \<Rightarrow> snapshot_fields" where
  "id_fields i = \<lparr>sf_shard = Some (si_shard i), sf_epoch = Some (si_epoch i), sf_lsn = Some (si_lsn i),
     sf_total = Some (si_total_bytes i), sf_written = None\<rparr>"

lemma read_id_fields: "read_fields (snapshot_lines i @ ls) no_fields = read_fields ls (id_fields i)"
  by (simp add: snapshot_lines_def split_once_def set_field_def no_fields_def id_fields_def)

lemma read_fields_append:
  "read_fields (ls @ ms) s = (case read_fields ls s of None \<Rightarrow> None | Some s \<Rightarrow> read_fields ms s)"
  by (induction ls arbitrary: s) (auto split: option.splits)

definition id_labels :: "string list" where
  "id_labels = [''shard'', ''epoch'', ''lsn'', ''total'']"

lemma snapshot_line_label:
  "l \<in> set (snapshot_lines i) \<Longrightarrow> \<exists>k \<in> set id_labels. \<exists>v. CHR ''='' \<notin> set k \<and> l = k @ CHR ''='' # v"
  by (auto simp: snapshot_lines_def id_labels_def)

lemma set_id_field [simp]: "k \<in> set id_labels \<Longrightarrow> sf_written (set_field k v s) = sf_written s"
  by (auto simp: id_labels_def set_field_def)

lemma read_cut_id_lines:
  assumes "\<forall>l \<in> set ls. \<exists>l' \<in> set (snapshot_lines i). \<exists>m. l = take m l'"
    and "read_fields ls s = Some s'"
  shows "sf_written s' = sf_written s"
  using assms
proof (induction ls arbitrary: s)
  case (Cons l ls)
  from Cons.prems(1) obtain l' m where l: "l' \<in> set (snapshot_lines i)" "l = take m l'" by auto
  from snapshot_line_label [OF l(1)] obtain k v where
      kv: "k \<in> set id_labels" "CHR ''='' \<notin> set k" "l' = k @ CHR ''='' # v" by auto
  have "split_once CHR ''='' l = (if m \<le> length k then None else Some (k, take (m - Suc (length k)) v))"
    unfolding l(2) kv(3) by (rule split_once_cut [OF kv(2)])
  with Cons.prems(2) obtain v' where "read_fields ls (set_field k v' s) = Some s'"
    by (auto split: if_splits)
  with Cons.IH Cons.prems(1) kv(1) show ?case by simp
qed simp

lemma snapshot_decode_body [simp]: "snapshot_decode (meta_body i w) = Some (i, w)"
proof -
  have "text_lines (meta_body i w) = snapshot_lines i @ [written_line w]"
    unfolding meta_body_unlines unlines_def
  proof (rule text_lines_unlines)
    show "list_all clean_line (snapshot_lines i @ [written_line w])"
      unfolding list_all_iff using snapshot_lines_clean clean_lineI by blast
  qed
  then show ?thesis
    by (simp add: snapshot_decode_def read_id_fields) (simp add: written_line_def split_once_def set_field_def id_fields_def)
qed

text \<open>A progress file cut off anywhere names its own snapshot, or claims no progress.\<close>

lemma snapshot_decode_cut:
  assumes "snapshot_decode (take n (meta_body i w)) = Some (j, w')"
  shows "w' = 0 \<or> j = i"
proof -
  let ?L = "snapshot_lines i @ [written_line w]"
  obtain k p where lines: "text_lines (take n (meta_body i w)) = take k ?L @ p"
      and p: "p = [] \<or> (\<exists>m. k < length ?L \<and> p = [take m (?L ! k)])"
    using text_lines_cut [OF snapshot_lines_clean] unfolding meta_body_unlines by blast
  have four: "length (snapshot_lines i) = 4" by (simp add: snapshot_lines_def)
  from assms obtain s where s: "read_fields (take k ?L @ p) no_fields = Some s"
      and jw: "w' = (case sf_written s of Some w \<Rightarrow> w | None \<Rightarrow> 0)"
        "Some (si_shard j) = sf_shard s" "Some (si_epoch j) = sf_epoch s"
        "Some (si_lsn j) = sf_lsn s" "Some (si_total_bytes j) = sf_total s"
    unfolding snapshot_decode_def lines by (auto split: option.splits)
  show ?thesis
  proof (cases "k < 4")
    case True
    then have "\<forall>l \<in> set (take k ?L @ p). \<exists>l' \<in> set (snapshot_lines i). \<exists>m. l = take m l'"
      using p four by (auto simp: nth_append dest!: in_set_takeD intro: exI [of _ "length _"])
        (metis nth_mem take_all order_refl)+
    from read_cut_id_lines [OF this s] show ?thesis using jw by (simp add: no_fields_def)
  next
    case False
    then obtain ls where ls: "take k ?L @ p = snapshot_lines i @ ls"
        and w: "\<forall>l \<in> set ls. \<exists>m. l = take m (written_line w)"
    proof -
      have whole: "\<exists>m. written_line w = take m (written_line w)"
        by (rule exI [of _ "length (written_line w)"]) simp
      show thesis
      proof (cases "k = 4")
        case True
        then have "\<forall>l \<in> set p. \<exists>m. l = take m (written_line w)" using p four by (auto simp: nth_append)
        with True four show thesis by (intro that [of p]) simp_all
      next
        case False
        then have "p = []" "take k ?L = snapshot_lines i @ [written_line w]" using p four \<open>\<not> k < 4\<close> by auto
        with whole show thesis by (intro that [of "[written_line w]"]) simp_all
      qed
    qed
    have keep: "read_fields ls t = Some t' \<Longrightarrow> sf_written_update (\<lambda>_. None) t' = sf_written_update (\<lambda>_. None) t" for t t'
      using w
    proof (induction ls arbitrary: t)
      case (Cons l ls)
      then obtain m where l: "l = take m (''written'' @ CHR ''='' # show_word w)"
        by (auto simp: written_line_def)
      have "split_once CHR ''='' l = (if m \<le> length ''written'' then None
          else Some (''written'', take (m - Suc (length ''written'')) (show_word w)))"
        unfolding l by (rule split_once_cut) simp
      with Cons.prems(1) obtain v where "read_fields ls (set_field ''written'' v t) = Some t'"
        by (auto split: if_splits)
      with Cons.IH Cons.prems(2) show ?case by (auto simp: set_field_def)
    qed simp
    from s have "read_fields ls (id_fields i) = Some s" unfolding ls read_id_fields .
    from keep [OF this] have "sf_written_update (\<lambda>_. None) s = id_fields i" by (simp add: id_fields_def)
    then have "sf_shard s = Some (si_shard i)" "sf_epoch s = Some (si_epoch i)" "sf_lsn s = Some (si_lsn i)"
        "sf_total s = Some (si_total_bytes i)"
      by (cases s; simp add: id_fields_def)+
    then show ?thesis using jw by simp
  qed
qed

section \<open>What the disk holds between attempts\<close>

text \<open>An identity names the bytes of one snapshot, whose size it carries.\<close>

definition names_bytes :: "(snapshot_id \<Rightarrow> bytes) \<Rightarrow> snapshot_id \<Rightarrow> bool" where
  "names_bytes snap i \<longleftrightarrow> length (snap i) < 2 ^ 64 \<and> si_total_bytes i = word_of_nat (length (snap i))"

definition partial_bytes :: "transfer_disk \<Rightarrow> bytes" where
  "partial_bytes d = (case td_partial d of Some b \<Rightarrow> b | None \<Rightarrow> [])"

definition progress_of :: "transfer_disk \<Rightarrow> (snapshot_id \<times> u64) option" where
  "progress_of d = Option.bind (td_meta d) snapshot_decode"

definition disk_holds :: "(snapshot_id \<Rightarrow> bytes) \<Rightarrow> transfer_disk \<Rightarrow> bool" where
  "disk_holds snap d \<longleftrightarrow>
     length (partial_bytes d) < 2 ^ 64 \<and>
     (\<forall>i w. progress_of d = Some (i, w) \<longrightarrow>
        (let n = min (unat w) (length (partial_bytes d)) in
         n \<le> length (snap i) \<and> take n (partial_bytes d) = take n (snap i)))"

definition carrying :: "(snapshot_id \<Rightarrow> bytes) \<Rightarrow> snapshot_id \<Rightarrow> nat \<Rightarrow> transfer_disk \<Rightarrow> bool" where
  "carrying snap i n d \<longleftrightarrow>
     names_bytes snap i \<and> n \<le> length (snap i) \<and> td_partial d = Some (take n (snap i)) \<and>
     (\<forall>j w. progress_of d = Some (j, w) \<longrightarrow> w = 0 \<or> j = i)"

definition receiving :: "(snapshot_id \<Rightarrow> bytes) \<Rightarrow> snapshot_transfer \<Rightarrow> bool" where
  "receiving snap t \<longleftrightarrow>
     carrying snap (sn_id t) (unat (sn_written t)) (sn_disk t) \<and> sn_cursor t = unat (sn_written t)"

lemma carrying_holds: "carrying snap i n d \<Longrightarrow> disk_holds snap d"
  by (auto simp: carrying_def disk_holds_def partial_bytes_def names_bytes_def min_def Let_def)

lemma overwrite_cases:
  obtains "overwrite_file fault old body = (Some body, Inr ())"
    | e where "overwrite_file fault old body = (old, Inl e)"
    | n e where "overwrite_file fault old body = (Some (take n body), Inl e)"
  by (cases fault) (auto simp: overwrite_file_def)

lemma progress_of_meta [simp]:
  "progress_of (d\<lparr>td_meta := Some (meta_body i w)\<rparr>) = Some (i, w)"
  "progress_of (d\<lparr>td_partial := b\<rparr>) = progress_of d"
  by (simp_all add: progress_of_def)

lemma carrying_persist:
  assumes "carrying snap (sn_id t) n (sn_disk t)" and "persist_meta fault t = (t', r)"
  shows "carrying snap (sn_id t) n (sn_disk t') \<and> t' = t\<lparr>sn_disk := sn_disk t'\<rparr>"
  using overwrite_cases [of fault "td_meta (sn_disk t)" "meta_body (sn_id t) (sn_written t)"] assms
  by cases (auto simp: persist_meta_def carrying_def progress_of_def dest!: snapshot_decode_cut)

lemma persist_ok [simp]: "snd (persist_meta OvOk t) = Inr ()"
  by (simp add: persist_meta_def overwrite_file_def)

text \<open>A transfer that begins, on whatever earlier attempts left, starts from bytes of its own snapshot.\<close>

lemma resume_at_holds:
  assumes "disk_holds snap d" and "resume_at i d = Some w"
  shows "unat w \<le> length (partial_bytes d) \<and> unat w \<le> length (snap i) \<and>
    take (unat w) (partial_bytes d) = take (unat w) (snap i) \<and> (\<exists>v. progress_of d = Some (i, v))"
proof -
  from assms(2) obtain v where v: "progress_of d = Some (i, v)"
      and w: "w = min v (word_of_nat (length (partial_bytes d)))"
    by (auto simp: resume_at_def progress_of_def partial_bytes_def split: option.splits if_splits)
  have len: "length (partial_bytes d) < 2 ^ 64" using assms(1) by (simp add: disk_holds_def)
  then have "unat w = min (unat v) (length (partial_bytes d))"
    by (simp add: w min_def word_le_nat_alt unsigned_of_nat take_bit_eq_mod)
  with assms(1) v show ?thesis by (auto simp: disk_holds_def Let_def)
qed

lemma set_len_shorter: "n \<le> length f \<Longrightarrow> set_len n f = take n f"
  by (simp add: set_len_def pad_to_def)

definition opened_bytes :: "snapshot_id \<Rightarrow> transfer_disk \<Rightarrow> bytes" where
  "opened_bytes i d = (case (resume_at i d, td_partial d) of (Some _, Some b) \<Rightarrow> b | _ \<Rightarrow> [])"

definition resumed :: "snapshot_id \<Rightarrow> transfer_disk \<Rightarrow> snapshot_transfer" where
  "resumed i d =
     (let w = (case resume_at i d of Some w \<Rightarrow> w | None \<Rightarrow> 0) in
      \<lparr>sn_disk = d\<lparr>td_partial := Some (set_len (unat w) (opened_bytes i d))\<rparr>, sn_id = i,
       sn_written = w, sn_cursor = unat w\<rparr>)"

lemma transfer_begin_eq:
  "transfer_begin fault i d =
     (case fault of
        BgOpen \<Rightarrow> (d, Inl (Manifest ''opening''))
      | BgSetLen \<Rightarrow> (d\<lparr>td_partial := Some (opened_bytes i d)\<rparr>, Inl (Manifest ''truncating''))
      | _ \<Rightarrow>
          (case persist_meta (case fault of BgMeta ov \<Rightarrow> ov | _ \<Rightarrow> OvOk) (resumed i d) of
             (t, Inl e) \<Rightarrow> (sn_disk t, Inl e) | (t, Inr _) \<Rightarrow> (sn_disk t, Inr t)))"
  by (cases fault) (simp_all add: transfer_begin_def Let_def resumed_def opened_bytes_def)

lemma opened_holds:
  assumes "disk_holds snap d"
  shows "disk_holds snap (d\<lparr>td_partial := Some (opened_bytes i d)\<rparr>)"
  using assms
  by (cases "resume_at i d"; cases "td_partial d")
    (auto simp: opened_bytes_def disk_holds_def partial_bytes_def)

lemma resumed_holds:
  assumes "disk_holds snap d" and "names_bytes snap i"
  shows "td_partial (sn_disk (resumed i d)) = Some (take (unat (sn_written (resumed i d))) (snap i)) \<and>
    unat (sn_written (resumed i d)) \<le> length (snap i) \<and> disk_holds snap (sn_disk (resumed i d))"
proof (cases "resume_at i d")
  case None
  have "disk_holds snap (d\<lparr>td_partial := Some []\<rparr>)" by (simp add: disk_holds_def partial_bytes_def)
  with None show ?thesis by (simp add: resumed_def opened_bytes_def set_len_def pad_to_def)
next
  case (Some v)
  note held = resume_at_holds [OF assms(1) Some]
  then obtain u where u: "progress_of d = Some (i, u)" by blast
  have "opened_bytes i d = partial_bytes d"
    by (simp add: opened_bytes_def Some partial_bytes_def split: option.splits)
  then have r: "resumed i d = \<lparr>sn_disk = d\<lparr>td_partial := Some (take (unat v) (snap i))\<rparr>, sn_id = i,
      sn_written = v, sn_cursor = unat v\<rparr>"
    using held by (simp add: resumed_def Some set_len_shorter)
  have "disk_holds snap (sn_disk (resumed i d))"
    by (rule carrying_holds [of _ i "unat v"]) (use held assms(2) u in \<open>simp add: r carrying_def\<close>)
  with held show ?thesis by (simp add: r)
qed

lemma resumed_fields [simp]: "sn_id (resumed i d) = i" "sn_cursor (resumed i d) = unat (sn_written (resumed i d))"
    "td_meta (sn_disk (resumed i d)) = td_meta d" "(sn_disk (resumed i d))\<lparr>td_meta := td_meta d\<rparr> = sn_disk (resumed i d)"
  by (simp_all add: resumed_def Let_def)

lemma resumed_persist:
  assumes "disk_holds snap d" and "names_bytes snap i" and "persist_meta ov (resumed i d) = (t', r)"
  shows "disk_holds snap (sn_disk t') \<and> (r = Inr () \<longrightarrow> receiving snap t' \<and> sn_id t' = i)"
proof -
  let ?t = "resumed i d"
  note held = resumed_holds [OF assms(1,2)]
  have good: "carrying snap i (unat (sn_written ?t)) ((sn_disk ?t)\<lparr>td_meta := m\<rparr>)"
    if "\<forall>j v. Option.bind m snapshot_decode = Some (j, v) \<longrightarrow> v = 0 \<or> j = i" for m
    using that held assms(2) by (auto simp: carrying_def progress_of_def)
  show ?thesis
    using overwrite_cases [of ov "td_meta d" "meta_body i (sn_written ?t)"]
  proof cases
    case 1
    have "carrying snap i (unat (sn_written ?t)) ((sn_disk ?t)\<lparr>td_meta := Some (meta_body i (sn_written ?t))\<rparr>)"
      by (rule good) simp
    with 1 assms(3) show ?thesis by (auto simp: persist_meta_def receiving_def intro: carrying_holds)
  next
    case 2
    with assms(3) held show ?thesis by (auto simp: persist_meta_def)
  next
    case (3 n e)
    have "carrying snap i (unat (sn_written ?t))
        ((sn_disk ?t)\<lparr>td_meta := Some (take n (meta_body i (sn_written ?t)))\<rparr>)"
      by (rule good) (auto dest: snapshot_decode_cut)
    with 3 assms(3) show ?thesis by (auto simp: persist_meta_def intro: carrying_holds)
  qed
qed

lemma transfer_begin_holds:
  assumes "disk_holds snap d" and "names_bytes snap i" and "transfer_begin fault i d = (d', r)"
  shows "disk_holds snap d' \<and>
    (\<forall>t. r = Inr t \<longrightarrow> receiving snap t \<and> sn_id t = i \<and> d' = sn_disk t) \<and>
    (fault = BgOk \<longrightarrow> (\<exists>t. r = Inr t))"
  using assms(1,3) opened_holds [OF assms(1)] resumed_persist [OF assms(1,2)] unfolding transfer_begin_eq
  by (cases fault) (auto split: prod.splits sum.splits, metis persist_ok snd_conv sum.distinct(1))

section \<open>The copy\<close>

lemma put_bytes_receiving:
  assumes "receiving snap t" and "data = take k (drop (unat (sn_written t)) (snap (sn_id t)))"
  shows "carrying snap (sn_id t) (unat (sn_written t) + length data) (sn_disk (put_bytes data t))"
proof -
  let ?w = "unat (sn_written t)" and ?s = "snap (sn_id t)"
  have c: "names_bytes snap (sn_id t)" "?w \<le> length ?s" "td_partial (sn_disk t) = Some (take ?w ?s)"
      "sn_cursor t = ?w" "\<forall>j v. progress_of (sn_disk t) = Some (j, v) \<longrightarrow> v = 0 \<or> j = sn_id t"
    using assms(1) by (auto simp: receiving_def carrying_def)
  have "take ?w ?s @ data = take (?w + length data) ?s"
    unfolding assms(2) by (simp add: take_add [symmetric] min_def)
  then have "write_at ?w data (take ?w ?s) = take (?w + length data) ?s"
    using c(2) by (auto simp: write_at_def pad_to_def)
  moreover have "?w + length data \<le> length ?s" using c(2) by (simp add: assms(2))
  ultimately show ?thesis using c by (simp add: put_bytes_def sn_file_def carrying_def)
qed

lemma write_chunk_receiving:
  assumes "receiving snap t" and "data = take k (drop (unat (sn_written t)) (snap (sn_id t)))"
    and "write_chunk fault data t = (t', r)"
  shows "disk_holds snap (sn_disk t') \<and> (fault = ChOk \<longrightarrow> r = Inr ()) \<and>
    (r = Inr () \<longrightarrow> receiving snap t' \<and> sn_id t' = sn_id t \<and>
       unat (sn_written t') = unat (sn_written t) + length data)"
proof (cases "data = []")
  case True
  with assms show ?thesis by (auto simp: write_chunk_def receiving_def intro: carrying_holds)
next
  case False
  let ?w = "unat (sn_written t)" and ?t = "put_bytes data t"
  let ?u = "?t\<lparr>sn_written := sn_written t + word_of_nat (length data)\<rparr>"
  note full = put_bytes_receiving [OF assms(1,2)]
  have id [simp]: "sn_id (put_bytes b t) = sn_id t" "sn_written (put_bytes b t) = sn_written t"
    "sn_cursor (put_bytes b t) = sn_cursor t + length b" for b
    by (simp_all add: put_bytes_def)
  have short: "disk_holds snap (sn_disk (put_bytes (take n data) t))" for n
    using put_bytes_receiving [OF assms(1), of "take n data" "min n k"]
    by (simp add: assms(2) carrying_holds)
  from full have "?w + length data < 2 ^ 64" by (auto simp: carrying_def names_bytes_def)
  then have w: "unat (sn_written ?u) = ?w + length data"
    by (simp add: unat_word_ariths unsigned_of_nat take_bit_eq_mod)
  have landed: "disk_holds snap (sn_disk t2) \<and> (r2 = Inr () \<longrightarrow> receiving snap t2) \<and> sn_id t2 = sn_id t \<and>
      unat (sn_written t2) = ?w + length data"
    if "persist_meta ov ?u = (t2, r2)" for ov t2 r2
  proof -
    have "carrying snap (sn_id ?u) (?w + length data) (sn_disk ?u)" using full by simp
    from carrying_persist [OF this that] have c: "carrying snap (sn_id t) (?w + length data) (sn_disk t2)"
        "t2 = ?u\<lparr>sn_disk := sn_disk t2\<rparr>" by simp_all
    have "sn_id t2 = sn_id t" "sn_written t2 = sn_written ?u" "sn_cursor t2 = ?w + length data"
      using assms(1) by (subst c(2), simp add: receiving_def)+
    with c(1) w show ?thesis by (simp add: receiving_def carrying_holds)
  qed
  show ?thesis
    using assms(3) False short full carrying_holds landed
    by (cases fault) (auto simp: write_chunk_def Let_def dest: landed, metis persist_ok snd_conv)
qed

lemma pump_loop_receiving:
  assumes "receiving snap t" and "ss_bytes s = snap (sn_id t)" and "ss_offset s = unat (sn_written t)"
    and "pump_loop chunk faults s t = (t', r)"
  shows "disk_holds snap (sn_disk t') \<and> (faults = [] \<longrightarrow> r = Inr ()) \<and>
    (r = Inr () \<longrightarrow> receiving snap t' \<and> sn_id t' = sn_id t \<and>
       unat (sn_written t') = length (snap (sn_id t)))"
  using assms
proof (induction chunk faults s t arbitrary: t' r rule: pump_loop.induct)
  case (1 chunk faults s t)
  define b where "b = take (max chunk 1) (drop (unat (sn_written t)) (snap (sn_id t)))"
  define s' where "s' = s\<lparr>ss_offset := ss_offset s + length b\<rparr>"
  define c where "c = (case faults of [] \<Rightarrow> ChOk | c # _ \<Rightarrow> c)"
  have read: "read_chunk (max chunk 1) s = (s', b)"
    using 1(3,4) by (simp add: read_chunk_def Let_def b_def s'_def)
  obtain t2 r2 where wr: "write_chunk c b t = (t2, r2)" by (cases "write_chunk c b t")
  note w = write_chunk_receiving [OF 1(2) b_def wr]
  have le: "unat (sn_written t) \<le> length (snap (sn_id t))" using 1(2) by (simp add: receiving_def carrying_def)
  show ?case
  proof (cases "b = []")
    case True
    then have "unat (sn_written t) = length (snap (sn_id t))" using le by (simp add: b_def)
    then show ?thesis
      using 1(2,5) True read by (subst (asm) pump_loop.simps) (auto simp: receiving_def intro: carrying_holds)
  next
    case False
    show ?thesis
    proof (cases r2)
      case (Inl e)
      then have "t' = t2" "r = Inl e"
        using 1(5) False read wr by (subst (asm) pump_loop.simps, simp add: c_def [symmetric])+
      moreover have "faults \<noteq> []" using w Inl by (auto simp: c_def)
      ultimately show ?thesis using w by simp
    next
      case (Inr u)
      have go: "pump_loop chunk (tl faults) s' t2 = (t', r)"
        using 1(5) False read wr Inr by (subst (asm) pump_loop.simps) (simp add: c_def [symmetric])
      have "ss_bytes s' = snap (sn_id t2)" "ss_offset s' = unat (sn_written t2)"
        using 1(3,4) w Inr by (simp_all add: s'_def)
      from 1(1) [OF read [symmetric] False wr [unfolded c_def, symmetric] Inr _ this go]
      show ?thesis using w Inr by auto
    qed
  qed
qed

section \<open>Sequences of attempts\<close>

text \<open>
  One attempt begins on what the disk holds and copies from a source frozen for its duration. A
  crash is a fault at the point it happens.
\<close>

definition source_of :: "(snapshot_id \<Rightarrow> bytes) \<Rightarrow> snapshot_id \<Rightarrow> snapshot_source" where
  "source_of snap i = \<lparr>ss_bytes = snap i, ss_id = i, ss_offset = 0\<rparr>"

definition transfer_attempt ::
    "(snapshot_id \<Rightarrow> bytes) \<Rightarrow> nat \<Rightarrow> snapshot_id \<times> begin_fault \<times> chunk_fault list \<Rightarrow> transfer_disk \<Rightarrow>
     transfer_disk \<times> snapshot_transfer result" where
  "transfer_attempt snap chunk a d =
     (case a of (i, bf, cfs) \<Rightarrow>
        case transfer_begin bf i d of
          (d, Inl e) \<Rightarrow> (d, Inl e)
        | (_, Inr t) \<Rightarrow>
            (case pump chunk cfs (source_of snap i) t of
               (t, Inl e) \<Rightarrow> (sn_disk t, Inl e)
             | (t, Inr _) \<Rightarrow> (sn_disk t, Inr t)))"

definition empty_disk :: transfer_disk where
  "empty_disk = \<lparr>td_partial = None, td_meta = None\<rparr>"

definition after_attempts ::
    "(snapshot_id \<Rightarrow> bytes) \<Rightarrow> nat \<Rightarrow> (snapshot_id \<times> begin_fault \<times> chunk_fault list) list \<Rightarrow> transfer_disk" where
  "after_attempts snap chunk as = fold (\<lambda>a d. fst (transfer_attempt snap chunk a d)) as empty_disk"

lemma transfer_attempt_holds:
  assumes "disk_holds snap d" and "names_bytes snap i" and "transfer_attempt snap chunk (i, bf, cfs) d = (d', r)"
  shows "disk_holds snap d' \<and> (bf = BgOk \<and> cfs = [] \<longrightarrow> (\<exists>t. r = Inr t)) \<and>
    (\<forall>t. r = Inr t \<longrightarrow> sn_id t = i \<and> sn_file t = snap i \<and> is_complete t)"
proof -
  obtain d1 r1 where b: "transfer_begin bf i d = (d1, r1)" by (cases "transfer_begin bf i d")
  note begun = transfer_begin_holds [OF assms(1,2) b]
  show ?thesis
  proof (cases r1)
    case (Inl e)
    with b assms(3) begun show ?thesis by (auto simp: transfer_attempt_def)
  next
    case (Inr t)
    with begun have t: "receiving snap t" "sn_id t = i" by auto
    then have "sn_written t \<le> si_total_bytes i"
      by (auto simp: receiving_def carrying_def names_bytes_def word_le_nat_alt unsigned_of_nat take_bit_eq_mod)
    then have p: "pump chunk cfs (source_of snap i) t =
        pump_loop chunk cfs ((source_of snap i)\<lparr>ss_offset := unat (sn_written t)\<rparr>) t"
      using t(2) by (simp add: pump_def seek_to_def source_of_def leD)
    obtain t2 r2 where l: "pump_loop chunk cfs ((source_of snap i)\<lparr>ss_offset := unat (sn_written t)\<rparr>) t = (t2, r2)"
      by (cases "pump_loop chunk cfs ((source_of snap i)\<lparr>ss_offset := unat (sn_written t)\<rparr>) t")
    have copied: "disk_holds snap (sn_disk t2) \<and> (cfs = [] \<longrightarrow> r2 = Inr ()) \<and>
        (r2 = Inr () \<longrightarrow> receiving snap t2 \<and> sn_id t2 = i \<and> unat (sn_written t2) = length (snap i))"
      using pump_loop_receiving [OF t(1) _ _ l] t(2) by (simp add: source_of_def)
    have whole: "sn_file t2 = snap i \<and> is_complete t2" if "r2 = Inr ()"
      using copied that by (auto simp: receiving_def carrying_def sn_file_def is_complete_def names_bytes_def
        word_le_nat_alt unsigned_of_nat take_bit_eq_mod)
    show ?thesis
      using assms(3) b Inr p l copied whole by (cases r2) (auto simp: transfer_attempt_def)
  qed
qed

lemma after_attempts_holds:
  "\<forall>a \<in> set as. names_bytes snap (fst a) \<Longrightarrow> disk_holds snap (after_attempts snap chunk as)"
proof (induction as rule: rev_induct)
  case Nil
  show ?case by (simp add: after_attempts_def empty_disk_def disk_holds_def partial_bytes_def progress_of_def)
next
  case (snoc a as)
  obtain i bf cfs where a: "a = (i, bf, cfs)" by (cases a)
  obtain d' r where "transfer_attempt snap chunk (i, bf, cfs) (after_attempts snap chunk as) = (d', r)"
    by (cases "transfer_attempt snap chunk (i, bf, cfs) (after_attempts snap chunk as)")
  with transfer_attempt_holds [of snap "after_attempts snap chunk as" i] snoc a show ?case
    by (auto simp: after_attempts_def)
qed

text \<open>
  (C14) Interrupted transfers never splice two snapshots. After any sequence of attempts, of one
  snapshot or of several, each stopped by any fault in its start, a chunk or the progress file
  (torn or not), every attempt that reports success holds exactly the bytes of its own snapshot,
  and an attempt that meets no fault does succeed.
\<close>

theorem interrupted_transfers_never_splice:
  assumes "\<forall>a \<in> set as. names_bytes snap (fst a)" and "names_bytes snap i"
  shows "(\<forall>bf cfs d t. transfer_attempt snap chunk (i, bf, cfs) (after_attempts snap chunk as) = (d, Inr t) \<longrightarrow>
        sn_file t = snap i \<and> is_complete t) \<and>
    (\<exists>d t. transfer_attempt snap chunk (i, BgOk, []) (after_attempts snap chunk as) = (d, Inr t))"
proof -
  note holds = transfer_attempt_holds [OF after_attempts_holds [OF assms(1)] assms(2)]
  obtain d r where "transfer_attempt snap chunk (i, BgOk, []) (after_attempts snap chunk as) = (d, r)"
    by (cases "transfer_attempt snap chunk (i, BgOk, []) (after_attempts snap chunk as)")
  with holds [OF this] have "\<exists>t. transfer_attempt snap chunk (i, BgOk, []) (after_attempts snap chunk as) = (d, Inr t)"
    by auto
  with holds show ?thesis by blast
qed

definition demo_snapshot :: "lsn \<Rightarrow> snapshot_id" where
  "demo_snapshot l = \<lparr>si_shard = 0, si_epoch = 1, si_lsn = l, si_total_bytes = 4\<rparr>"

theorem interrupted_transfers_never_splice_witness:
  "\<exists>d t. transfer_attempt (\<lambda>i. replicate 4 (ucast (si_lsn i))) 2 (demo_snapshot 9, BgOk, [])
     (after_attempts (\<lambda>i. replicate 4 (ucast (si_lsn i))) 2 [(demo_snapshot 7, BgOk, [ChOk, ChShort 1])]) = (d, Inr t)"
  using interrupted_transfers_never_splice
    [of "[(demo_snapshot 7, BgOk, [ChOk, ChShort 1])]" "\<lambda>i. replicate 4 (ucast (si_lsn i))" "demo_snapshot 9" 2]
  by (simp add: names_bytes_def demo_snapshot_def)

text \<open>
  A chunk retried on the transfer that failed, without beginning again, does splice: the file's
  cursor has moved past the bytes of the failed write and the recorded offset has not.
\<close>

lemma retried_chunk_splices:
  assumes "sn_cursor t = length (sn_file t)" and "0 < n" and "n \<le> length data"
  shows "sn_file (fst (write_chunk ChOk data (fst (write_chunk (ChShort n) data t)))) =
    sn_file t @ take n data @ data"
  using assms
  by (auto simp: write_chunk_def put_bytes_def sn_file_def write_at_def pad_to_def persist_meta_def overwrite_file_def Let_def
    split: option.splits)

end
