(* ===== verification/Replication.thy ===== *)
theory Replication
  imports Snapshot_Transfer
begin

text \<open>
  How committed frames travel: the writer that positions them and hands them to a sink
  (\<^verbatim>\<open>drain_capture\<close> and the snapshot hold of \<^verbatim>\<open>src/src/shard/writer_fleet.rs\<close>), the sinks
  (\<^verbatim>\<open>src/src/replication/mod.rs\<close>), the primary's answer to a subscription
  (\<^verbatim>\<open>src/src/net/server.rs\<close>) and the follower that asks for them
  (\<^verbatim>\<open>src/src/net/replica.rs\<close>).
\<close>

section \<open>Sinks\<close>

type_synonym 's sink = "shard_id \<Rightarrow> u64 \<Rightarrow> stream_txn list \<Rightarrow> 's \<Rightarrow> 's \<times> unit result"

text \<open>
  What a writer relies on: an accepted batch is kept after what was kept before, possibly dropping
  the oldest, and other shards are left alone.
\<close>

locale frame_sink =
  fixes sink :: "'s sink" and kept :: "'s \<Rightarrow> shard_id \<Rightarrow> stream_txn list"
  assumes sink_kept: "sink shard epoch ts st = (st', Inr ()) \<Longrightarrow> ts \<noteq> [] \<Longrightarrow>
      \<exists>k < length (kept st shard @ ts). kept st' shard = drop k (kept st shard @ ts)"
    and sink_other: "sink shard epoch ts st = (st', r) \<Longrightarrow> other \<noteq> shard \<Longrightarrow> kept st' other = kept st other"
begin

text \<open>Keeping a suffix of the stream is an invariant, and the newest transaction is always kept.\<close>

lemma sink_suffix:
  assumes "sink shard epoch ts st = (st', Inr ())" and "ts \<noteq> []" and "kept st shard = drop k stream" and "k \<le> length stream"
  shows "\<exists>j < length (stream @ ts). kept st' shard = drop j (stream @ ts)"
proof -
  from sink_kept [OF assms(1,2)] obtain i where i: "i < length (kept st shard @ ts)"
      "kept st' shard = drop i (kept st shard @ ts)" by blast
  have all: "kept st shard @ ts = drop k (stream @ ts)" using assms(3,4) by simp
  have "kept st' shard = drop (i + k) (stream @ ts)" using i(2) unfolding all drop_drop .
  moreover have "i + k < length (stream @ ts)" using i(1) unfolding all by (simp only: length_drop)
  ultimately show ?thesis by blast
qed

lemma sink_newest:
  assumes "sink shard epoch ts st = (st', Inr ())" and "ts \<noteq> []"
  shows "last (kept st' shard) = last ts \<and> kept st' shard \<noteq> []"
proof -
  from sink_kept [OF assms] obtain k where k: "k < length (kept st shard @ ts)"
      "kept st' shard = drop k (kept st shard @ ts)" by blast
  then have "last (kept st' shard) = last (kept st shard @ ts)" by (simp only: last_drop)
  moreover have "kept st' shard \<noteq> []" using k by (simp only: drop_eq_Nil not_le)
  ultimately show ?thesis using assms(2) by simp
qed

end

definition frame_log_sink :: "frame_log sink" where
  "frame_log_sink shard epoch ts l = (accept shard ts l, Inr ())"

definition log_kept :: "frame_log \<Rightarrow> shard_id \<Rightarrow> stream_txn list" where
  "log_kept l shard = (case bt_get (fl_shards l) shard of Some g \<Rightarrow> sg_txns g | None \<Rightarrow> [])"

lemma evict_suffix:
  "ts \<noteq> [] \<Longrightarrow> \<exists>k < length ts. fst (evict limit held ts) = drop k ts"
proof (induction limit held ts rule: evict.induct)
  case (1 limit held t u ts)
  show ?case
  proof (cases "limit < held")
    case True
    with 1 obtain k where "k < length (u # ts)" "fst (evict limit (held - txn_size t) (u # ts)) = drop k (u # ts)" by auto
    with True show ?thesis by (intro exI [of _ "Suc k"]) auto
  qed auto
qed auto

interpretation log_sink: frame_sink frame_log_sink log_kept
proof (unfold_locales, goal_cases)
  case (1 shard epoch ts st st')
  have "log_kept (accept shard ts st) shard = fst (evict (fl_per_shard_bytes st)
      ((case bt_get (fl_shards st) shard of Some g \<Rightarrow> sg_bytes g | None \<Rightarrow> 0) + sum_list (map txn_size ts))
      (log_kept st shard @ ts))"
    by (auto simp: accept_def log_kept_def Let_def split: prod.splits option.splits)
  with evict_suffix [of "log_kept st shard @ ts"] 1 show ?case by (auto simp: frame_log_sink_def)
next
  case (2 shard epoch ts st st' r other)
  then show ?case by (auto simp: frame_log_sink_def accept_def log_kept_def Let_def split: prod.splits)
qed

type_synonym memory_state = "(shard_id, stream_txn list) btree"

definition memory_kept :: "memory_state \<Rightarrow> shard_id \<Rightarrow> stream_txn list" where
  "memory_kept m shard = (case bt_get m shard of Some ts \<Rightarrow> ts | None \<Rightarrow> [])"

definition memory_sink :: "memory_state sink" where
  "memory_sink shard epoch ts m = (bt_insert shard (memory_kept m shard @ ts) m, Inr ())"

definition memory_take :: "shard_id \<Rightarrow> memory_state \<Rightarrow> memory_state \<times> stream_txn list" where
  "memory_take shard m = (bt_remove shard m, memory_kept m shard)"

interpretation memory: frame_sink memory_sink memory_kept
  by unfold_locales (auto simp: memory_sink_def memory_kept_def intro!: exI [of _ 0])

record null_sink =
  ns_txns :: u64
  ns_frames :: u64
  ns_bytes :: u64

definition null_sink_accept :: "null_sink sink" where
  "null_sink_accept shard epoch ts s =
     (s\<lparr>ns_txns := ns_txns s + word_of_nat (length ts),
        ns_frames := ns_frames s + word_of_nat (sum_list (map (\<lambda>t. length (ct_frames (sx_txn t))) ts)),
        ns_bytes := ns_bytes s + word_of_nat (sum_list (map txn_size ts))\<rparr>, Inr ())"

section \<open>The writer\<close>

record open_shard =
  os_capture :: "wal_capture option"
  os_hold :: bool
  os_invalidated :: bool

record 's writer =
  wr_shards :: "shard_id \<Rightarrow> open_shard"
  wr_positions :: "stream_positions option"
  wr_sink :: 's

definition stamp :: "lsn \<Rightarrow> committed_txn list \<Rightarrow> stream_txn list" where
  "stamp first ts = map2 (\<lambda>i t. \<lparr>sx_lsn = first + word_of_nat i, sx_txn = t\<rparr>) [0..<length ts] ts"

definition set_capture :: "shard_id \<Rightarrow> wal_capture \<Rightarrow> 's writer \<Rightarrow> 's writer" where
  "set_capture shard c w =
     w\<lparr>wr_shards := (wr_shards w)(shard := (wr_shards w shard)\<lparr>os_capture := Some c\<rparr>)\<rparr>"

definition overflow_error :: "shard_id \<Rightarrow> wal_capture \<Rightarrow> error" where
  "overflow_error shard c = CaptureOverflow shard (wc_retained_bytes c)"

definition drain_capture :: "'s sink option \<Rightarrow> shard_id \<Rightarrow> 's writer \<Rightarrow> 's writer \<times> lsn option result" where
  "drain_capture sink shard w =
     (case os_capture (wr_shards w shard) of
        None \<Rightarrow> (w, Inr None)
      | Some c \<Rightarrow>
          (case drain_committed c of
             (c, txns) \<Rightarrow>
               let w = set_capture shard c w in
               if txns = [] then (w, Inr None)
               else
                 let (pos, epoch, first) =
                       (case wr_positions w of
                          Some p \<Rightarrow> (case allocate shard (length txns) p of (p', first) \<Rightarrow> (Some p', po_epoch (st_positions p), first))
                        | None \<Rightarrow> (None, 0, 1));
                     w = w\<lparr>wr_positions := pos\<rparr>;
                     positioned = stamp first txns
                 in case (case sink of Some f \<Rightarrow> f shard epoch positioned (wr_sink w) | None \<Rightarrow> (wr_sink w, Inr ())) of
                      (s, Inl e) \<Rightarrow>
                        let c = requeue (map sx_txn positioned) c;
                            w = (set_capture shard c (w\<lparr>wr_sink := s\<rparr>))
                                  \<lparr>wr_positions := map_option (stream_rollback shard (length txns)) pos\<rparr>
                        in (w, Inl (if wc_overflowed c then overflow_error shard c else e))
                    | (s, Inr _) \<Rightarrow>
                        (w\<lparr>wr_sink := s\<rparr>,
                         if wc_overflowed c then Inl (overflow_error shard c)
                         else Inr (Some (first + word_of_nat (length txns) - 1)))))"

text \<open>A snapshot: the frames so far are shipped, the log folded into the file, and the file held.\<close>

definition hold_snapshot ::
    "'s sink option \<Rightarrow> error option \<Rightarrow> shard_id \<Rightarrow> 's writer \<Rightarrow> 's writer \<times> (u64 \<times> lsn) result" where
  "hold_snapshot sink checkpoint shard w =
     (case drain_capture sink shard w of
        (w, Inl e) \<Rightarrow> (w, Inl e)
      | (w, Inr _) \<Rightarrow>
          (case checkpoint of
             Some e \<Rightarrow> (w, Inl e)
           | None \<Rightarrow>
               (w\<lparr>wr_shards := (wr_shards w)(shard := (wr_shards w shard)\<lparr>os_hold := True, os_invalidated := False\<rparr>)\<rparr>,
                Inr (case wr_positions w of
                       Some p \<Rightarrow> (po_epoch (st_positions p), last_allocated p shard)
                     | None \<Rightarrow> (0, 0)))))"

definition release_snapshot :: "shard_id \<Rightarrow> 's writer \<Rightarrow> 's writer \<times> bool" where
  "release_snapshot shard w =
     (w\<lparr>wr_shards := (wr_shards w)(shard := (wr_shards w shard)\<lparr>os_hold := False\<rparr>)\<rparr>,
      \<not> os_invalidated (wr_shards w shard))"

text \<open>After a batch: a hold gives way to a log that has grown past its limit.\<close>

definition after_batch :: "nat \<Rightarrow> nat \<Rightarrow> shard_id \<Rightarrow> 's writer \<Rightarrow> 's writer" where
  "after_batch max_wal wal_bytes shard w =
     (let o' = wr_shards w shard in
      if os_hold o' \<and> max_wal \<le> wal_bytes
      then w\<lparr>wr_shards := (wr_shards w)(shard := o'\<lparr>os_hold := False, os_invalidated := True\<rparr>)\<rparr>
      else w)"

section \<open>The primary's answer\<close>

datatype response =
    RespFrames shard_id u64 "stream_txn list"
  | RespUpToDate shard_id
  | RespNeedsBootstrap shard_id string
  | RespError string bool

definition serve_subscribe ::
    "u64 option \<Rightarrow> shard_id \<Rightarrow> u64 \<Rightarrow> lsn \<Rightarrow> nat \<Rightarrow> frame_log option \<Rightarrow> frame_log option \<times> response" where
  "serve_subscribe current shard epoch from_lsn max_txns frames =
     (case current of
        None \<Rightarrow> (frames, RespError ''this node is not capturing frames'' False)
      | Some cur \<Rightarrow>
          if epoch \<noteq> 0 \<and> epoch \<noteq> cur then (frames, RespNeedsBootstrap shard ''follower is on another epoch'')
          else
            case frames of
              None \<Rightarrow> (frames, RespError ''this node has no frame log'' False)
            | Some l \<Rightarrow>
                (case serve shard from_lsn (min (max max_txns 1) 512) l of
                   (l, ServedFrames ts) \<Rightarrow> (Some l, RespFrames shard cur ts)
                 | (l, ServedUpToDate) \<Rightarrow> (Some l, RespUpToDate shard)
                 | (l, ServedTooOld lowest) \<Rightarrow> (Some l, RespNeedsBootstrap shard ''frames are no longer retained'')))"

definition handle_subscribe ::
    "u64 option \<Rightarrow> node_id \<Rightarrow> shard_id \<Rightarrow> u64 \<Rightarrow> lsn \<Rightarrow> nat \<Rightarrow> ack_tracker option \<times> frame_log option \<Rightarrow>
     (ack_tracker option \<times> frame_log option) \<times> response" where
  "handle_subscribe current node shard epoch from_lsn max_txns s =
     (case s of (acks, frames) \<Rightarrow>
        let acks = (if node \<noteq> 0 \<and> 0 < from_lsn then map_option (ack_record node shard (from_lsn - 1)) acks else acks) in
        case serve_subscribe current shard epoch from_lsn max_txns frames of
          (frames, resp) \<Rightarrow> ((acks, frames), resp))"

section \<open>The replica\<close>

datatype sync_next = SyncDone | SyncAgain | SyncBootstrap

definition sync_request :: "follower \<Rightarrow> shard_id \<Rightarrow> u64 \<times> lsn" where
  "sync_request f shard = (let pos = position_of f shard in (ps_epoch pos, ps_applied_lsn pos + 1))"

text \<open>One round of the pull loop, from the primary's reply on.\<close>

definition sync_respond ::
    "apply_fault option \<Rightarrow> write_fault \<Rightarrow> nat \<Rightarrow> shard_id \<Rightarrow> response \<Rightarrow> follower \<Rightarrow> follower \<times> sync_next result" where
  "sync_respond pages persist batch shard resp f =
     (case resp of
        RespFrames _ epoch txns \<Rightarrow>
          if txns = [] then (f, Inr SyncDone)
          else
            (case follower_apply pages persist shard epoch txns f of
               (f, Inl e) \<Rightarrow> (f, Inl e)
             | (f, Inr _) \<Rightarrow> (f, Inr (if length txns < batch then SyncDone else SyncAgain)))
      | RespUpToDate _ \<Rightarrow> (f, Inr SyncDone)
      | RespNeedsBootstrap _ _ \<Rightarrow> (f, Inr SyncBootstrap)
      | RespError _ _ \<Rightarrow> (f, Inl (Protocol ''unexpected response to subscribe'')))"

fun fetch_chunks ::
    "(bytes result \<times> chunk_fault) list \<Rightarrow> snapshot_transfer \<Rightarrow> snapshot_transfer \<times> unit result" where
  "fetch_chunks replies t =
     (if is_complete t then (t, Inr ())
      else
        case replies of
          [] \<Rightarrow> (t, Inl (Protocol ''connection closed''))
        | (Inl e, _) # _ \<Rightarrow> (t, Inl e)
        | (Inr b, fault) # rest \<Rightarrow>
            if b = [] then (t, Inl (Protocol ''the primary stopped sending''))
            else
              case write_chunk fault b t of
                (t, Inl e) \<Rightarrow> (t, Inl e)
              | (t, Inr _) \<Rightarrow> fetch_chunks rest t)"

declare fetch_chunks.simps [simp del]

record bootstrap_env =
  be_begin :: "(u64 \<times> lsn \<times> u64) result"
  be_start :: begin_fault
  be_chunks :: "(bytes result \<times> chunk_fault) list"
  be_install :: install_env
  be_end :: "unit result"

definition replica_bootstrap ::
    "bootstrap_env \<Rightarrow> shard_id \<Rightarrow> transfer_disk \<times> follower \<Rightarrow> (transfer_disk \<times> follower) \<times> unit result" where
  "replica_bootstrap env shard s =
     (case s of (d, f) \<Rightarrow>
        case be_begin env of
          Inl e \<Rightarrow> ((d, f), Inl e)
        | Inr (epoch, l, size_bytes) \<Rightarrow>
            let i = \<lparr>si_shard = shard, si_epoch = epoch, si_lsn = l, si_total_bytes = size_bytes\<rparr>;
                (d, f, r) =
                  (case transfer_begin (be_start env) i d of
                     (d, Inl e) \<Rightarrow> (d, f, Inl e)
                   | (_, Inr t) \<Rightarrow>
                       (case fetch_chunks (be_chunks env) t of
                          (t, Inl e) \<Rightarrow> (sn_disk t, f, Inl e)
                        | (t, Inr _) \<Rightarrow> transfer_finish (be_install env) t f))
            in ((d, f), and_then r (\<lambda>_. be_end env)))"

section \<open>Positions of a batch\<close>

lemma length_stamp [simp]: "length (stamp first ts) = length ts"
  by (simp add: stamp_def)

lemma nth_stamp: "i < length ts \<Longrightarrow> stamp first ts ! i = \<lparr>sx_lsn = first + word_of_nat i, sx_txn = ts ! i\<rparr>"
  by (simp add: stamp_def)

lemma stamp_Nil [simp]: "stamp first [] = []" "stamp first ts = [] \<longleftrightarrow> ts = []"
  by (simp_all flip: length_0_conv)

lemma stamp_txns [simp]: "map sx_txn (stamp first ts) = ts"
  by (rule nth_equalityI) (simp_all add: nth_stamp)

lemma stamp_append: "stamp first (ts @ us) = stamp first ts @ stamp (first + word_of_nat (length ts)) us"
proof (rule nth_equalityI)
  fix i
  assume "i < length (stamp first (ts @ us))"
  then show "stamp first (ts @ us) ! i = (stamp first ts @ stamp (first + word_of_nat (length ts)) us) ! i"
    by (cases "i < length ts") (simp_all add: nth_append nth_stamp flip: of_nat_add)
qed simp

lemma stamp_Cons: "stamp first (t # ts) = \<lparr>sx_lsn = first, sx_txn = t\<rparr> # stamp (first + 1) ts"
  using stamp_append [of first "[t]" ts] by (simp add: stamp_def)

lemma check_contiguous_stamp: "check_contiguous shard first (stamp first ts) = Inr ()"
  by (induction ts arbitrary: first) (simp_all add: stamp_Cons)

lemma serve_retained:
  assumes "bt_get (fl_shards l) shard = Some g" and "sg_txns g \<noteq> []" and "from_lsn \<le> sx_lsn (last (sg_txns g))"
    and "sx_lsn (hd (sg_txns g)) \<le> from_lsn" and "b = take m (filter (\<lambda>t. from_lsn \<le> sx_lsn t) (sg_txns g))"
  shows "serve shard from_lsn m l = (l\<lparr>fl_served := fl_served l + word_of_nat (length b)\<rparr>, ServedFrames b)"
  using assms by (cases "sg_txns g") (auto simp: serve_def Let_def)

end
