(* ===== verification/Replication_Gaps.thy ===== *)
theory Replication_Gaps
  imports Replication Wal_Refinement
begin

text \<open>
  Where the positions of replication say more than the copies hold. Positions are numbers of one
  node's stream within one of its epochs; each result below is a situation in which they are compared
  with numbers of another.
\<close>

section \<open>Acknowledgements\<close>

definition position_is :: "follower \<Rightarrow> shard_id \<Rightarrow> u64 \<Rightarrow> lsn \<Rightarrow> bool" where
  "position_is f shard epoch l \<longleftrightarrow> position_of f shard = \<lparr>ps_epoch = epoch, ps_applied_lsn = l\<rparr>"

text \<open>The subscription a follower's position makes it send.\<close>

definition subscribe_from ::
    "u64 option \<Rightarrow> node_id \<Rightarrow> shard_id \<Rightarrow> follower \<Rightarrow> nat \<Rightarrow> ack_tracker option \<times> frame_log option \<Rightarrow>
     (ack_tracker option \<times> frame_log option) \<times> response" where
  "subscribe_from current node shard f batch s =
     (case sync_request f shard of (epoch, from_lsn) \<Rightarrow> handle_subscribe current node shard epoch from_lsn batch s)"

lemma from_lsn_simps: "l \<noteq> - 1 \<Longrightarrow> 0 < l + 1" "l + 1 - 1 = (l :: lsn)"
  by (auto simp: word_neq_0_conv [symmetric] eq_neg_iff_add_eq_0)

lemma length_filter_insert:
  assumes "P (k, v)"
  shows "1 \<le> length (filter P (bt_insert k v m))"
  using assms by (induction m) auto

lemma holders_record:
  assumes "w \<le> l"
  shows "2 \<le> holders (ack_record node shard l a) shard w"
proof -
  have "w \<le> max (case bt_get (ak_positions a) (shard, node) of Some h \<Rightarrow> h | None \<Rightarrow> 0) l"
    using assms by (simp add: le_max_iff_disj)
  then show ?thesis
    using length_filter_insert [of "\<lambda>((s, _), held). s = shard \<and> w \<le> held" "(shard, node)"]
    by (fastforce simp: holders_def ack_record_def Let_def)
qed

lemma record_confirms:
  assumes "w \<le> l" and "ak_voters a \<le> 3"
  shows "snd (wait_for_quorum shard w [] (ack_record node shard l a)) = Inr ()"
proof -
  have "ack_quorum (ack_record node shard l a) \<le> 2"
    using assms(2) by (simp add: ack_quorum_def ack_record_def Let_def)
  with holders_record [OF assms(1), of node shard a] show ?thesis by (simp add: wait_for_quorum.simps)
qed

text \<open>
  (C31) A follower left on an older epoch confirms writes it does not hold. Its subscription is
  recorded before its epoch is looked at, so although it is told to bootstrap, every write of the new
  epoch up to its old position counts as held: with three voters the writer is told a quorum has it.
\<close>

theorem stale_epoch_confirms_unheld_writes:
  assumes "position_is f shard e l" and "e \<noteq> 0" and "e \<noteq> cur" and "l \<noteq> - 1" and "node \<noteq> 0"
    and "w \<le> l" and "ak_voters a \<le> 3"
  shows "\<exists>a' why. subscribe_from (Some cur) node shard f batch (Some a, frames) =
      ((Some a', frames), RespNeedsBootstrap shard why) \<and>
    snd (wait_for_quorum shard w [] a') = Inr ()"
  using assms record_confirms [OF assms(6,7), of shard node] from_lsn_simps [of l]
  by (simp add: subscribe_from_def sync_request_def position_is_def handle_subscribe_def serve_subscribe_def Let_def)

definition demo_follower :: "u64 \<Rightarrow> lsn \<Rightarrow> follower" where
  "demo_follower e l =
     \<lparr>fo_positions = [(0, \<lparr>ps_epoch = e, ps_applied_lsn = l\<rparr>)], fo_db = (\<lambda>_. None), fo_installing = (\<lambda>_. None),
      fo_wal = (\<lambda>_. None), fo_position_file = (\<lambda>_. \<lparr>fs_file = None, fs_tmp = None\<rparr>)\<rparr>"

lemma demo_follower_position: "position_is (demo_follower e l) 0 e l"
  by (simp add: position_is_def demo_follower_def position_of_def bt_get_def)

theorem stale_epoch_confirms_unheld_writes_witness:
  "\<exists>a' why. subscribe_from (Some 2) 7 0 (demo_follower 1 50) 64 (Some (ack_new 3), None) =
      ((Some a', None), RespNeedsBootstrap 0 why) \<and> snd (wait_for_quorum 0 3 [] a') = Inr ()"
  using stale_epoch_confirms_unheld_writes [of "demo_follower 1 50" 0 1 50 2 7 3 "ack_new 3" 64 None]
    demo_follower_position [of 1 50]
  by (simp add: ack_new_def)

section \<open>Two primaries with the same epoch\<close>

text \<open>
  Epochs are counted by each node for itself, and two primaries of a shard can be on the same
  one. A follower that stopped at position \<open>l\<close> of one of them, and now follows the other on an
  equal epoch, is told it is up to date, keeps its copy as it is, and confirms every write of the new
  primary up to \<open>l\<close>: with three voters each of those is acknowledged and no other node has it.
\<close>

theorem equal_epochs_hide_a_new_primary:
  assumes "position_is f shard cur l" and "cur \<noteq> 0" and "l \<noteq> - 1" and "node \<noteq> 0" and "ak_voters a \<le> 3"
    and "bt_get (fl_shards log) shard = Some g" and "sg_txns g \<noteq> []" and "sx_lsn (last (sg_txns g)) \<le> l"
  shows "\<exists>a'. subscribe_from (Some cur) node shard f batch (Some a, Some log) =
      ((Some a', Some log), RespUpToDate shard) \<and>
    sync_respond pages persist n shard (RespUpToDate shard) f = (f, Inr SyncDone) \<and>
    (\<forall>w \<le> l. snd (wait_for_quorum shard w [] a') = Inr ())"
proof -
  have "sx_lsn (last (sg_txns g)) < l + 1"
    using assms(8) word_succ_greater [OF assms(3)] by (rule le_less_trans)
  then have served: "serve shard (l + 1) (min (max batch 1) 512) log = (log, ServedUpToDate)"
    using assms(6,7) by (cases "sg_txns g") (auto simp: serve_def)
  show ?thesis
    using assms(1-5) record_confirms [OF _ assms(5), of _ l shard node] served from_lsn_simps [of l]
    by (simp add: subscribe_from_def sync_request_def position_is_def handle_subscribe_def serve_subscribe_def
      sync_respond_def Let_def)
qed

definition demo_log :: "lsn \<Rightarrow> frame_log" where
  "demo_log l = accept 0 [\<lparr>sx_lsn = l, sx_txn = demo_txn 1 5\<rparr>] (frame_log_new (frame_log_floor 1))"

lemma demo_log_shard: "bt_get (fl_shards (demo_log l)) 0 =
    Some \<lparr>sg_txns = [\<lparr>sx_lsn = l, sx_txn = demo_txn 1 5\<rparr>], sg_bytes = 512\<rparr>"
  by (simp add: demo_log_def accept_def frame_log_new_def Let_def txn_size_def frames_bytes_def demo_txn_def bt_get_Cons)

theorem equal_epochs_hide_a_new_primary_witness:
  "\<exists>a'. subscribe_from (Some 1) 7 0 (demo_follower 1 50) 64 (Some (ack_new 3), Some (demo_log 3)) =
      ((Some a', Some (demo_log 3)), RespUpToDate 0) \<and>
    sync_respond (Some ApplyOk) WfOk 64 0 (RespUpToDate 0) (demo_follower 1 50) = (demo_follower 1 50, Inr SyncDone)"
proof -
  from equal_epochs_hide_a_new_primary [OF demo_follower_position _ _ _ _ demo_log_shard [of 3], where node = 7 and a = "ack_new 3"
      and batch = 64 and pages = "Some ApplyOk" and persist = WfOk and n = 64 and cur = 1 and l = 50]
  obtain a' where "subscribe_from (Some 1) 7 0 (demo_follower 1 50) 64 (Some (ack_new 3), Some (demo_log 3)) =
      ((Some a', Some (demo_log 3)), RespUpToDate 0)"
    "sync_respond (Some ApplyOk) WfOk 64 0 (RespUpToDate 0) (demo_follower 1 50) = (demo_follower 1 50, Inr SyncDone)"
    by (auto simp: ack_new_def)
  then show ?thesis by blast
qed

section \<open>A fresh follower\<close>

definition no_copy :: "follower \<Rightarrow> shard_id \<Rightarrow> bool" where
  "no_copy f shard \<longleftrightarrow> position_of f shard = position_default \<and> fo_db f shard = None"

lemma fresh_apply:
  assumes "no_copy f shard" and "hist \<noteq> []" and "\<forall>t \<in> set hist. \<forall>fr \<in> set (ct_frames t). fr_page_no fr \<noteq> 0"
  shows "\<exists>f'. follower_apply (Some ApplyOk) WfOk shard epoch (stamp 1 hist) f = (f', Inr ()) \<and>
    position_is f' shard epoch (word_of_nat (length hist)) \<and>
    db_bytes f' shard = fst (apply_to_db_file ApplyOk hist [])"
proof -
  have first: "sx_lsn (hd (stamp 1 hist)) = 1" "sx_lsn (last (stamp 1 hist)) = word_of_nat (length hist)"
  proof -
    obtain n where "length hist = Suc n" using assms(2) by (cases hist) auto
    then show "sx_lsn (hd (stamp 1 hist)) = 1" "sx_lsn (last (stamp 1 hist)) = word_of_nat (length hist)"
      using assms(2) by (simp_all add: hd_conv_nth last_conv_nth nth_stamp)
  qed
  have ok: "check_batch (position_of f shard) shard epoch (stamp 1 hist) = Inr ()"
    using assms(1) first check_contiguous_stamp [of shard 1 hist]
    by (simp add: check_batch_def no_copy_def position_default_def)
  have "BadSeek \<notin> set (concat (map txn_ops hist))" using assms(3) by (rule txn_ops_no_BadSeek)
  from run_ops_same [OF this, of "[]" "[]"] have "snd (apply_to_db_file ApplyOk hist []) = Inr ()"
    by (simp add: same_outside_def apply_to_db_file_def)
  then obtain b where b: "apply_to_db_file ApplyOk hist [] = (b, Inr ())" by (cases "apply_to_db_file ApplyOk hist []") auto
  show ?thesis
    using ok assms(1,2) first b
    by (simp add: follower_apply_def write_pages_def db_bytes_def no_copy_def set_position_def replace_file_def
      position_is_def position_of_def)
qed

text \<open>Bytes no transaction of the stream touches keep what the file had.\<close>

lemma apply_untouched:
  assumes "\<forall>t \<in> set hist. \<forall>fr \<in> set (ct_frames t). fr_page_no fr \<noteq> 0"
    and "\<forall>op \<in> set (concat (map txn_ops hist)). \<not> touches op p"
  shows "byte_at (fst (apply_to_db_file ApplyOk hist b)) p = byte_at b p"
  using run_ops_partial [OF txn_ops_no_BadSeek [OF assms(1)], of ApplyOk b] assms(2)
  by (simp only: apply_to_db_file_def same_outside_def)

text \<open>
  (C33) The first position of a stream is not the beginning of the data. A primary whose file already
  held data when the stream began (an earlier epoch, another owner) and still retains the stream from
  position one serves it to a follower with no copy; the follower accepts it, records the primary's
  position, and its file is zero wherever the stream did not write, whatever the primary holds there.
\<close>

theorem fresh_follower_misses_earlier_data:
  assumes "no_copy f shard" and "hist \<noteq> []" and "length hist < 2 ^ 63" and "length hist \<le> min (max batch 1) 512"
    and "\<forall>t \<in> set hist. \<forall>fr \<in> set (ct_frames t). fr_page_no fr \<noteq> 0"
    and "bt_get (fl_shards log) shard = Some g" and "sg_txns g = stamp 1 hist"
    and "\<forall>op \<in> set (concat (map txn_ops hist)). \<not> touches op p"
  shows "\<exists>s' f'. subscribe_from (Some cur) node shard f batch (acks, Some log) = (s', RespFrames shard cur (stamp 1 hist)) \<and>
    fst (sync_respond (Some ApplyOk) WfOk n shard (RespFrames shard cur (stamp 1 hist)) f) = f' \<and>
    position_is f' shard cur (word_of_nat (length hist)) \<and>
    byte_at (db_bytes f' shard) p = 0 \<and>
    (\<forall>base. byte_at (fst (apply_to_db_file ApplyOk hist base)) p = byte_at base p)"
proof -
  let ?n = "length hist"
  have lsns: "unat (sx_lsn (stamp 1 hist ! i)) = Suc i" if "i < ?n" for i
    using that assms(3) by (simp add: nth_stamp unat_word_ariths unsigned_of_nat take_bit_eq_mod)
  then have one: "1 \<le> sx_lsn t" if "t \<in> set (stamp 1 hist)" for t
    using that by (auto simp: in_set_conv_nth word_le_nat_alt)
  have keep: "filter (\<lambda>t. 1 \<le> sx_lsn t) (stamp 1 hist) = stamp 1 hist" using one by (simp add: filter_id_conv)
  have hd: "sx_lsn (hd (stamp 1 hist)) = 1" using assms(2) by (simp add: hd_conv_nth nth_stamp)
  have "last (stamp 1 hist) \<in> set (stamp 1 hist)" using assms(2) by (intro last_in_set) simp
  note newest = one [OF this]
  have "serve shard 1 (min (max batch 1) 512) log =
      (log\<lparr>fl_served := fl_served log + word_of_nat ?n\<rparr>, ServedFrames (stamp 1 hist))"
  proof -
    have b: "stamp 1 hist = take (min (max batch 1) 512) (filter (\<lambda>t. 1 \<le> sx_lsn t) (sg_txns g))"
      unfolding assms(7) keep using assms(4) by (intro take_all [symmetric]) simp
    have "sg_txns g \<noteq> []" "1 \<le> sx_lsn (last (sg_txns g))" "sx_lsn (hd (sg_txns g)) \<le> 1"
      unfolding assms(7) hd using assms(2) newest by simp_all
    from serve_retained [OF assms(6) this b] show ?thesis by simp
  qed
  moreover have "sync_request f shard = (0, 1)"
    using assms(1) by (simp add: sync_request_def no_copy_def position_default_def Let_def)
  ultimately have "\<exists>s'. subscribe_from (Some cur) node shard f batch (acks, Some log) = (s', RespFrames shard cur (stamp 1 hist))"
    by (simp add: subscribe_from_def handle_subscribe_def serve_subscribe_def Let_def)
  moreover obtain f' where "follower_apply (Some ApplyOk) WfOk shard cur (stamp 1 hist) f = (f', Inr ())"
      "position_is f' shard cur (word_of_nat ?n)" "db_bytes f' shard = fst (apply_to_db_file ApplyOk hist [])"
    using fresh_apply [OF assms(1,2,5)] by blast
  moreover have "byte_at [] p = 0" by (simp add: byte_at_def)
  ultimately show ?thesis
    using apply_untouched [OF assms(5,8)] assms(2) by (auto simp: sync_respond_def)
qed

definition fresh_demo :: follower where
  "fresh_demo = (demo_follower 0 0)\<lparr>fo_positions := []\<rparr>"

theorem fresh_follower_misses_earlier_data_witness:
  "\<exists>s' f'. subscribe_from (Some 2) 7 0 fresh_demo 64 (None, Some (demo_log 1)) = (s', RespFrames 0 2 (stamp 1 [demo_txn 1 5])) \<and>
    position_is f' 0 2 1 \<and> byte_at (db_bytes f' 0) 600 = 0 \<and>
    byte_at (fst (apply_to_db_file ApplyOk [demo_txn 1 5] (replicate 1024 9))) 600 = 9"
proof -
  have fresh: "no_copy fresh_demo 0"
    by (simp add: no_copy_def fresh_demo_def demo_follower_def position_of_def)
  have pages: "\<forall>t \<in> set [demo_txn 1 5]. \<forall>fr \<in> set (ct_frames t). fr_page_no fr \<noteq> 0" by (simp add: demo_txn_def)
  have clear: "\<forall>op \<in> set (concat (map txn_ops [demo_txn 1 5])). \<not> touches op 600"
    by (simp add: demo_txn_def txn_ops_def frame_op_def)
  have kept: "sg_txns \<lparr>sg_txns = [\<lparr>sx_lsn = 1, sx_txn = demo_txn 1 5\<rparr>], sg_bytes = 512\<rparr> = stamp 1 [demo_txn 1 5]"
    by (simp add: stamp_Cons)
  have "byte_at (replicate 1024 (9 :: u8)) 600 = 9" by (simp add: byte_at_def)
  moreover from fresh_follower_misses_earlier_data [OF fresh _ _ _ pages demo_log_shard kept clear,
      where batch = 64 and cur = 2 and node = 7 and acks = None and n = 64]
  obtain s' f' where "subscribe_from (Some 2) 7 0 fresh_demo 64 (None, Some (demo_log 1)) = (s', RespFrames 0 2 (stamp 1 [demo_txn 1 5]))"
    "position_is f' 0 2 1" "byte_at (db_bytes f' 0) 600 = 0"
    "\<forall>base. byte_at (fst (apply_to_db_file ApplyOk [demo_txn 1 5] base)) 600 = byte_at base 600" by auto
  ultimately show ?thesis by metis
qed

section \<open>A snapshot that was invalidated\<close>

definition end_reply :: "bool \<Rightarrow> unit result" where
  "end_reply ok = (if ok then Inr () else Inl (Protocol ''the snapshot was invalidated while it was being read''))"

definition sound_install :: install_env where
  "sound_install = \<lparr>ie_fault = InOk, ie_integrity = (\<lambda>_. Inr ''ok''), ie_wal_removed = True, ie_persist = WfOk\<rparr>"

lemma transfer_begin_empty:
  "transfer_begin BgOk i empty_disk =
     (let t = \<lparr>sn_disk = \<lparr>td_partial = Some [], td_meta = Some (meta_body i 0)\<rparr>, sn_id = i, sn_written = 0, sn_cursor = 0\<rparr>
      in (sn_disk t, Inr t))"
  by (simp add: transfer_begin_def resume_at_def empty_disk_def persist_meta_def overwrite_file_def set_len_def pad_to_def Let_def)

lemma write_chunk_end:
  assumes "sn_cursor t = length (sn_file t)"
  shows "\<exists>t'. write_chunk ChOk b t = (t', Inr ()) \<and> sn_file t' = sn_file t @ b \<and> sn_cursor t' = length (sn_file t') \<and>
    sn_id t' = sn_id t \<and> sn_written t' = sn_written t + word_of_nat (length b)"
  using assms
  by (auto simp: write_chunk_def put_bytes_def sn_file_def write_at_def pad_to_def persist_meta_def overwrite_file_def Let_def
    split: option.splits)

lemma fetch_two_chunks:
  assumes "b1 \<noteq> []" and "b2 \<noteq> []" and "length b1 + length b2 < 2 ^ 64"
    and "sn_file t = []" "sn_cursor t = 0" "sn_written t = 0" "si_total_bytes (sn_id t) = word_of_nat (length b1 + length b2)"
  shows "\<exists>t'. fetch_chunks [(Inr b1, ChOk), (Inr b2, ChOk)] t = (t', Inr ()) \<and> sn_file t' = b1 @ b2 \<and>
    sn_id t' = sn_id t \<and> is_complete t'"
proof -
  have n: "unat (word_of_nat (length b1 + length b2) :: u64) = length b1 + length b2"
      "unat (word_of_nat (length b1) :: u64) = length b1"
    using assms(3) by (simp_all add: unsigned_of_nat take_bit_eq_mod del: of_nat_add)
  obtain t1 where t1: "write_chunk ChOk b1 t = (t1, Inr ())" "sn_file t1 = b1" "sn_cursor t1 = length (sn_file t1)"
      "sn_id t1 = sn_id t" "sn_written t1 = word_of_nat (length b1)"
    using write_chunk_end [of t b1] assms(4-6) by auto
  obtain t2 where t2: "write_chunk ChOk b2 t1 = (t2, Inr ())" "sn_file t2 = b1 @ b2" "sn_id t2 = sn_id t"
      "sn_written t2 = word_of_nat (length b1 + length b2)"
    using write_chunk_end [OF t1(3), of b2] t1 by auto
  have "\<not> is_complete t" "\<not> is_complete t1" "is_complete t2"
    using assms n t1 t2 by (simp_all add: is_complete_def word_le_nat_alt del: of_nat_add)
  then show ?thesis
    using t1(1) t2 assms(1,2) by (intro exI [of _ t2]) (simp add: fetch_chunks.simps)
qed

text \<open>
  (C34) A follower keeps a snapshot it is told was invalid. When the primary gives up the hold while a
  snapshot is read, its file changes between one chunk and the next; the primary says so when the
  follower ends the snapshot, but by then the follower has installed what it read and recorded the
  snapshot's position, so its next request continues from there.
\<close>

theorem invalidated_snapshot_stays_installed:
  assumes "os_hold (wr_shards w shard)" and "limit \<le> wal_bytes"
    and "b1 \<noteq> []" and "b2 \<noteq> []" and "length b1 + length b2 < 2 ^ 64"
    and "env = \<lparr>be_begin = Inr (epoch, l, word_of_nat (length b1 + length b2)), be_start = BgOk,
      be_chunks = [(Inr b1, ChOk), (Inr b2, ChOk)], be_install = sound_install,
      be_end = end_reply (snd (release_snapshot shard (after_batch limit wal_bytes shard w)))\<rparr>"
  shows "\<exists>f' e. replica_bootstrap env shard (empty_disk, f) = ((empty_disk, f'), Inl e) \<and>
    fo_db f' shard = Some (b1 @ b2) \<and> position_is f' shard epoch l \<and> sync_request f' shard = (epoch, l + 1)"
proof -
  let ?i = "\<lparr>si_shard = shard, si_epoch = epoch, si_lsn = l, si_total_bytes = word_of_nat (length b1 + length b2)\<rparr> :: snapshot_id"
  define t :: snapshot_transfer where
    "t = \<lparr>sn_disk = \<lparr>td_partial = Some [], td_meta = Some (meta_body ?i 0)\<rparr>, sn_id = ?i, sn_written = 0, sn_cursor = 0\<rparr>"
  have t: "transfer_begin BgOk ?i empty_disk = (sn_disk t, Inr t)" "sn_file t = []" "sn_cursor t = 0"
      "sn_written t = 0" "sn_id t = ?i"
    using transfer_begin_empty [of ?i] by (simp_all only: Let_def sn_file_def t_def snapshot_transfer.select_convs
      transfer_disk.select_convs option.case)
  obtain t' where t': "fetch_chunks [(Inr b1, ChOk), (Inr b2, ChOk)] t = (t', Inr ())" "sn_file t' = b1 @ b2"
      "sn_id t' = ?i" "is_complete t'"
    using fetch_two_chunks [OF assms(3-5) t(2-4)] t(5) by auto
  have bad: "end_reply (snd (release_snapshot shard (after_batch limit wal_bytes shard w))) =
      Inl (Protocol ''the snapshot was invalidated while it was being read'')"
    using assms(1,2) by (simp add: release_snapshot_def after_batch_def end_reply_def Let_def)
  obtain f' where f': "transfer_finish sound_install t' f = (empty_disk, f', Inr ())" "fo_db f' shard = Some (b1 @ b2)"
      "position_is f' shard epoch l"
    using t'(2-4) by (simp add: transfer_finish_def install_snapshot_def install_file_def sound_install_def
      set_position_def replace_file_def empty_disk_def position_is_def position_of_def Let_def)
  have "replica_bootstrap env shard (empty_disk, f) =
      ((empty_disk, f'), Inl (Protocol ''the snapshot was invalidated while it was being read''))"
    using t(1) t'(1) f'(1) bad by (simp add: assms(6) replica_bootstrap_def)
  with f' show ?thesis by (simp add: sync_request_def position_is_def Let_def)
qed

definition demo_held :: "unit writer" where
  "demo_held = \<lparr>wr_shards = (\<lambda>_. \<lparr>os_capture = None, os_hold = True, os_invalidated = False\<rparr>), wr_positions = None, wr_sink = ()\<rparr>"

theorem invalidated_snapshot_stays_installed_witness:
  "\<exists>f' e. replica_bootstrap \<lparr>be_begin = Inr (1, 50, word_of_nat (2 + 2)), be_start = BgOk,
        be_chunks = [(Inr [1, 1], ChOk), (Inr [2, 2], ChOk)], be_install = sound_install,
        be_end = end_reply (snd (release_snapshot 0 (after_batch 256 300 0 demo_held)))\<rparr> 0 (empty_disk, fresh_demo) =
      ((empty_disk, f'), Inl e) \<and>
    fo_db f' 0 = Some [1, 1, 2, 2] \<and> sync_request f' 0 = (1, 51)"
  using invalidated_snapshot_stays_installed [of demo_held 0 256 300 "[1, 1]" "[2, 2]", OF _ _ _ _ _ refl, of 1 50 fresh_demo]
  by (auto simp: demo_held_def)

end
