(* ===== verification/Replication_Safety.thy ===== *)
theory Replication_Safety
  imports Replication Wal_Refinement "HOL-Library.Code_Target_Nat"
begin

text \<open>
  What replication promises between one primary and its followers, within one epoch: a follower's
  copy is the primary's database at the follower's position, and a write reported as held by a quorum
  is held by one.
\<close>

section \<open>A primary and its followers\<close>

text \<open>
  The history of a shard is what the primary committed since the epoch began. The mark of a copy is
  the highest position whose pages the follower has ever begun to write: until its position gets
  there, pages of an attempt that failed may lie ahead of it.
\<close>

record repl =
  rp_writer :: "frame_log writer"
  rp_acks :: ack_tracker
  rp_followers :: "node_id \<Rightarrow> follower"
  rp_history :: "shard_id \<Rightarrow> committed_txn list"
  rp_mark :: "node_id \<Rightarrow> shard_id \<Rightarrow> nat"

definition db_image :: "committed_txn list \<Rightarrow> nat \<Rightarrow> bytes" where
  "db_image hist l = fst (apply_to_db_file ApplyOk (take l hist) [])"

definition applied :: "repl \<Rightarrow> node_id \<Rightarrow> shard_id \<Rightarrow> nat" where
  "applied r n s = unat (ps_applied_lsn (position_of (rp_followers r n) s))"

definition sound_txns :: "committed_txn list \<Rightarrow> bool" where
  "sound_txns ts \<longleftrightarrow> (\<forall>t \<in> set ts. \<forall>fr \<in> set (ct_frames t). fr_page_no fr \<noteq> 0)"

definition epoch_of :: "repl \<Rightarrow> u64 option" where
  "epoch_of r = map_option (\<lambda>p. po_epoch (st_positions p)) (wr_positions (rp_writer r))"

text \<open>
  A step is a commit the writer ships, a round of one follower's pull loop with any fault on its disk,
  or the installation of a snapshot of the primary's file, with any fault too.
\<close>

inductive repl_step :: "repl \<Rightarrow> repl \<Rightarrow> bool" where
  commit: "drain_capture (Some frame_log_sink) s (set_capture s c (rp_writer r)) = (w, res) \<Longrightarrow>
     wc_committed c = ts \<Longrightarrow> ts \<noteq> [] \<Longrightarrow> sound_txns ts \<Longrightarrow>
     length (rp_history r s) + length ts < 2 ^ 63 \<Longrightarrow>
     repl_step r (r\<lparr>rp_writer := w, rp_history := (rp_history r)(s := rp_history r s @ ts)\<rparr>)"
| pull: "n \<noteq> 0 \<Longrightarrow> sync_request (rp_followers r n) s = (e, from_lsn) \<Longrightarrow>
     handle_subscribe (epoch_of r) n s e from_lsn batch (Some (rp_acks r), Some (wr_sink (rp_writer r))) =
       ((Some acks, Some log), resp) \<Longrightarrow>
     sync_respond pages persist batch s resp (rp_followers r n) = (f, res) \<Longrightarrow>
     repl_step r (r\<lparr>rp_acks := acks, rp_writer := (rp_writer r)\<lparr>wr_sink := log\<rparr>,
       rp_followers := (rp_followers r)(n := f),
       rp_mark := (rp_mark r)(n := (rp_mark r n)(s := max (rp_mark r n s)
         (case resp of RespFrames _ _ ts \<Rightarrow> applied r n s + length ts | _ \<Rightarrow> 0)))\<rparr>)"
| install: "wr_positions (rp_writer r) = Some p \<Longrightarrow>
     install_snapshot env s (po_epoch (st_positions p)) (last_allocated p s)
       (db_image (rp_history r s) (length (rp_history r s))) (rp_followers r n) = (f, res) \<Longrightarrow>
     repl_step r (r\<lparr>rp_followers := (rp_followers r)(n := f),
       rp_mark := (rp_mark r)(n := (rp_mark r n)(s := length (rp_history r s)))\<rparr>)"

definition repl_start :: "u64 \<Rightarrow> frame_log_config \<Rightarrow> nat \<Rightarrow> repl \<Rightarrow> bool" where
  "repl_start epoch cfg voters r \<longleftrightarrow>
     epoch \<noteq> 0 \<and>
     (\<exists>file. wr_positions (rp_writer r) =
        Some \<lparr>st_positions = \<lparr>po_epoch = epoch, po_next = [], po_clean = False\<rparr>, st_file = file\<rparr>) \<and>
     wr_sink (rp_writer r) = frame_log_new cfg \<and> rp_acks r = ack_new voters \<and>
     (\<forall>n s. position_of (rp_followers r n) s = position_default \<and> fo_db (rp_followers r n) s = None) \<and>
     (\<forall>s. rp_history r s = []) \<and> (\<forall>n s. rp_mark r n s = 0)"

section \<open>Files\<close>

abbreviation ops_of :: "committed_txn list \<Rightarrow> file_op list" where
  "ops_of ts \<equiv> concat (map txn_ops ts)"

lemma same_outside_refl [simp]: "same_outside ops f f"
  by (simp add: same_outside_def)

lemma same_outside_mono: "same_outside ops f g \<Longrightarrow> set ops \<subseteq> set ops' \<Longrightarrow> same_outside ops' f g"
  by (auto simp: same_outside_def)

lemma same_outside_trans: "same_outside ops f g \<Longrightarrow> same_outside ops g h \<Longrightarrow> same_outside ops f h"
  by (auto simp: same_outside_def)

lemma run_ops_same_rest:
  assumes "BadSeek \<notin> set ops" and "same_outside (ops @ rest) f g"
  shows "same_outside rest (fst (run_ops ApplyOk ops f)) (fst (run_ops ApplyOk ops g))"
  using assms
proof (induction ops arbitrary: f g)
  case (Cons op ops)
  obtain f' g' where steps: "file_step op f = Inr f'" "file_step op g = Inr g'"
    using file_step_ok Cons.prems(1) by (metis list.set_intros(1))
  have "same_outside (ops @ rest) f' g'" using file_step_same [OF steps] Cons.prems(2) by simp
  with Cons.IH Cons.prems(1) steps show ?case by auto
qed simp

lemma run_ops_append:
  assumes "BadSeek \<notin> set ops"
  shows "run_ops ApplyOk (ops @ rest) f = run_ops ApplyOk rest (fst (run_ops ApplyOk ops f))"
  using assms
proof (induction ops arbitrary: f)
  case (Cons op ops)
  obtain f' where "file_step op f = Inr f'" using file_step_ok Cons.prems by (metis list.set_intros(1))
  with Cons show ?case by auto
qed simp

lemma sound_ops: "sound_txns ts \<Longrightarrow> BadSeek \<notin> set (ops_of ts)"
  unfolding sound_txns_def by (rule txn_ops_no_BadSeek)

text \<open>
  A copy at position \<open>l\<close> with mark \<open>h\<close>: it differs from the primary's database at \<open>l\<close> at most where
  the transactions up to the mark write, and not at all when the mark is reached.
\<close>

definition copy_ok :: "committed_txn list \<Rightarrow> nat \<Rightarrow> nat \<Rightarrow> bytes \<Rightarrow> bool" where
  "copy_ok hist l h b \<longleftrightarrow>
     l \<le> h \<and> h \<le> length hist \<and> same_outside (ops_of (take (h - l) (drop l hist))) b (db_image hist l) \<and>
     (l = h \<longrightarrow> b = db_image hist l)"

lemma sound_sub: "sound_txns hist \<Longrightarrow> set ts \<subseteq> set hist \<Longrightarrow> sound_txns ts"
  by (auto simp: sound_txns_def)

lemma db_image_step:
  assumes "sound_txns hist"
  shows "db_image hist (l + k) = fst (apply_to_db_file ApplyOk (take k (drop l hist)) (db_image hist l))"
proof -
  have "sound_txns (take l hist)" using assms by (rule sound_sub) (rule set_take_subset)
  then show ?thesis
    using run_ops_append [OF sound_ops, of "take l hist" "ops_of (take k (drop l hist))" "[]"]
    by (simp add: db_image_def apply_to_db_file_def take_add)
qed

lemma db_image_append: "l \<le> length hist \<Longrightarrow> db_image (hist @ ts) l = db_image hist l"
  by (simp add: db_image_def)

lemma copy_ok_append: "copy_ok hist l h b \<Longrightarrow> copy_ok (hist @ ts) l h b"
  by (auto simp: copy_ok_def db_image_append)

lemma take_drop_le: "h \<le> h' \<Longrightarrow> set (take (h - l) xs) \<subseteq> set (take (h' - l) xs)"
  by (rule set_take_subset_set_take) simp

lemma ops_of_mono: "set ts \<subseteq> set us \<Longrightarrow> set (ops_of ts) \<subseteq> set (ops_of us)"
  by auto

lemma copy_ok_bounds: "copy_ok hist l h b \<Longrightarrow> l \<le> h \<and> h \<le> length hist"
  by (simp only: copy_ok_def)

lemma copy_raise:
  assumes "copy_ok hist l h b" and "h \<le> h'" and "h' \<le> length hist"
  shows "copy_ok hist l h' b"
proof -
  have "same_outside (ops_of (take (h' - l) (drop l hist))) b (db_image hist l)"
    using assms(1) same_outside_mono [OF _ ops_of_mono [OF take_drop_le [OF assms(2)]]] by (simp only: copy_ok_def)
  with assms show ?thesis by (auto simp: copy_ok_def)
qed

lemma run_ops_ok:
  "snd (run_ops fault ops f) = Inr () \<Longrightarrow> fst (run_ops fault ops f) = fst (run_ops ApplyOk ops f)"
proof (induction ops arbitrary: fault f)
  case (Cons op ops)
  show ?case
  proof (cases "\<exists>m. fault = ApplyFails 0 m")
    case True
    with Cons.prems show ?thesis by auto
  next
    case False
    then obtain fault' where step: "run_ops fault (op # ops) f =
        (case file_step op f of Inl e \<Rightarrow> (f, Inl e) | Inr f' \<Rightarrow> run_ops fault' ops f')"
      by (cases fault; cases "case fault of ApplyFails k m \<Rightarrow> k") auto
    show ?thesis
    proof (cases "file_step op f")
      case (Inl e)
      with Cons.prems step show ?thesis by simp
    next
      case (Inr f')
      with Cons.IH [of fault' f'] Cons.prems step show ?thesis by simp
    qed
  qed
qed simp

lemma apply_agrees:
  assumes "sound_txns ts" and "ts \<noteq> []" and "same_outside (ops_of ts) f g"
  shows "fst (apply_to_db_file ApplyOk ts f) = fst (apply_to_db_file ApplyOk ts g)"
proof -
  note good = sound_ops [OF assms(1)]
  have "same_outside (ops_of ts) g f" using assms(3) by (auto simp: same_outside_def)
  note a = run_ops_same [OF good assms(3)] and b = run_ops_same [OF good this]
  obtain n where n: "last (ops_of ts) = SetLen n" "ops_of ts \<noteq> []" using last_txn_ops [OF assms(2)] by auto
  show ?thesis
    unfolding apply_to_db_file_def by (rule file_eqI) (use a b n in \<open>auto simp: same_outside_def\<close>)
qed

lemma sound_batch: "sound_txns hist \<Longrightarrow> sound_txns (take k (drop l hist))"
  by (rule sound_sub) (auto dest: in_set_takeD in_set_dropD)

text \<open>An attempt to apply a batch that fails anywhere leaves a copy with a higher mark.\<close>

lemma copy_attempt:
  assumes "copy_ok hist l h b" and "sound_txns hist" and "l + k \<le> length hist" and "0 < k"
  shows "copy_ok hist l (max h (l + k)) (fst (apply_to_db_file fault (take k (drop l hist)) b))"
proof -
  let ?h = "max h (l + k)" and ?ts = "take k (drop l hist)"
  have sub: "set (ops_of ?ts) \<subseteq> set (ops_of (take (?h - l) (drop l hist)))"
    by (rule ops_of_mono, rule set_take_subset_set_take) simp
  have "same_outside (ops_of ?ts) (fst (run_ops fault (ops_of ?ts) b)) b"
    by (rule run_ops_partial) (rule sound_ops [OF sound_batch [OF assms(2)]])
  then have "same_outside (ops_of (take (?h - l) (drop l hist))) (fst (apply_to_db_file fault ?ts b)) b"
    unfolding apply_to_db_file_def by (rule same_outside_mono [OF _ sub])
  moreover have "copy_ok hist l ?h b"
    by (rule copy_raise [OF assms(1)]) (use copy_ok_bounds [OF assms(1)] assms(3) in simp_all)
  ultimately have "same_outside (ops_of (take (?h - l) (drop l hist))) (fst (apply_to_db_file fault ?ts b)) (db_image hist l)"
    unfolding copy_ok_def by (blast intro: same_outside_trans)
  then show ?thesis
    unfolding copy_ok_def using copy_ok_bounds [OF assms(1)] assms(3,4) by linarith
qed

lemma copy_advance:
  assumes "copy_ok hist l h b" and "sound_txns hist" and "l + k \<le> length hist" and "0 < k"
    and "snd (apply_to_db_file fault (take k (drop l hist)) b) = Inr ()"
  shows "copy_ok hist (l + k) (max h (l + k)) (fst (apply_to_db_file fault (take k (drop l hist)) b))"
proof -
  let ?ts = "take k (drop l hist)" and ?b = "fst (apply_to_db_file fault (take k (drop l hist)) b)"
  let ?h = "max h (l + k)" and ?rest = "take (max h (l + k) - (l + k)) (drop (l + k) hist)"
  have b: "?b = fst (apply_to_db_file ApplyOk ?ts b)"
    using run_ops_ok [of fault "ops_of ?ts" b] assms(5) unfolding apply_to_db_file_def by blast
  have "copy_ok hist l ?h b"
    by (rule copy_raise [OF assms(1)]) (use copy_ok_bounds [OF assms(1)] assms(3) in simp_all)
  moreover have split: "take (?h - l) (drop l hist) = ?ts @ ?rest"
  proof -
    have "?h - l = k + (?h - (l + k))" by simp
    then show ?thesis by (simp only: take_add drop_drop add.commute)
  qed
  ultimately have same: "same_outside (ops_of ?ts @ ops_of ?rest) b (db_image hist l)"
    by (simp only: copy_ok_def split map_append concat_append)
  have "same_outside (ops_of ?rest) ?b (db_image hist (l + k))"
    unfolding b db_image_step [OF assms(2)] unfolding apply_to_db_file_def
    by (rule run_ops_same_rest [OF sound_ops [OF sound_batch [OF assms(2)]] same])
  moreover have "?b = db_image hist (l + k)" if "l + k = ?h"
  proof -
    have "?rest = []" using that by simp
    with same have "same_outside (ops_of ?ts) b (db_image hist l)" by simp
    moreover have "?ts \<noteq> []" using assms(3,4) by simp
    ultimately show ?thesis
      unfolding b db_image_step [OF assms(2)] using apply_agrees [OF sound_batch [OF assms(2)]] by blast
  qed
  ultimately show ?thesis
    unfolding copy_ok_def using copy_ok_bounds [OF assms(1)] assms(3) by simp
qed

lemma copy_installed:
  assumes "sound_txns hist" and "l \<le> length hist"
  shows "copy_ok hist l (length hist) (db_image hist (length hist))"
proof -
  let ?ts = "take (length hist - l) (drop l hist)"
  have "db_image hist (length hist) = fst (run_ops ApplyOk (ops_of ?ts) (db_image hist l))"
    using db_image_step [OF assms(1), of l "length hist - l"] assms(2) by (simp add: apply_to_db_file_def)
  moreover have "same_outside (ops_of ?ts) (fst (run_ops ApplyOk (ops_of ?ts) (db_image hist l))) (db_image hist l)"
    by (rule run_ops_partial) (rule sound_ops [OF sound_batch [OF assms(1)]])
  ultimately have "same_outside (ops_of ?ts) (db_image hist (length hist)) (db_image hist l)" by simp
  then show ?thesis using assms(2) by (simp add: copy_ok_def)
qed

section \<open>The invariant\<close>

definition stream_inv :: "u64 \<Rightarrow> (shard_id \<Rightarrow> committed_txn list) \<Rightarrow> frame_log writer \<Rightarrow> bool" where
  "stream_inv E hist w \<longleftrightarrow>
     (\<exists>p. wr_positions w = Some p \<and> po_epoch (st_positions p) = E \<and>
        (\<forall>s. (case bt_get (po_next (st_positions p)) s of Some n \<Rightarrow> n | None \<Rightarrow> 1) = 1 + word_of_nat (length (hist s)))) \<and>
     (\<forall>s. length (hist s) < 2 ^ 63 \<and> sound_txns (hist s)) \<and>
     (\<forall>s. if hist s = [] then log_kept (wr_sink w) s = []
          else \<exists>k < length (hist s). log_kept (wr_sink w) s = drop k (stamp 1 (hist s)))"

definition copy_inv :: "u64 \<Rightarrow> committed_txn list \<Rightarrow> nat \<Rightarrow> position \<Rightarrow> bytes \<Rightarrow> bool" where
  "copy_inv E hist h pos b \<longleftrightarrow>
     (pos = position_default \<or> ps_epoch pos = E) \<and> copy_ok hist (unat (ps_applied_lsn pos)) h b"

definition acks_inv :: "repl \<Rightarrow> bool" where
  "acks_inv r \<longleftrightarrow>
     bt_wf (ak_positions (rp_acks r)) \<and>
     (\<forall>n s h. bt_get (ak_positions (rp_acks r)) (s, n) = Some h \<longrightarrow> unat h \<le> applied r n s)"

definition repl_inv :: "u64 \<Rightarrow> repl \<Rightarrow> bool" where
  "repl_inv E r \<longleftrightarrow>
     stream_inv E (rp_history r) (rp_writer r) \<and>
     (\<forall>n s. copy_inv E (rp_history r s) (rp_mark r n s) (position_of (rp_followers r n) s) (db_bytes (rp_followers r n) s)) \<and>
     acks_inv r"

lemma stream_suffix:
  assumes "stream_inv E hist w"
  shows "\<exists>k \<le> length (stamp 1 (hist s)). log_kept (wr_sink w) s = drop k (stamp 1 (hist s)) \<and> (hist s \<noteq> [] \<longrightarrow> k < length (hist s))"
proof (cases "hist s = []")
  case True
  with assms show ?thesis unfolding stream_inv_def by simp
next
  case False
  with assms obtain k where "k < length (hist s)" "log_kept (wr_sink w) s = drop k (stamp 1 (hist s))"
    unfolding stream_inv_def by meson
  then show ?thesis by (intro exI [of _ k]) simp
qed

lemma repl_start_inv: "repl_start E cfg v r \<Longrightarrow> repl_inv E r"
  by (auto simp: repl_start_def repl_inv_def stream_inv_def copy_inv_def acks_inv_def frame_log_new_def log_kept_def
    ack_new_def sound_txns_def db_bytes_def copy_ok_def db_image_def apply_to_db_file_def position_default_def)

subsection \<open>Commits\<close>

lemma drain_ships:
  assumes "drain_capture (Some frame_log_sink) s (set_capture s c w) = (w', res)" and "wc_committed c = ts"
    and "ts \<noteq> []" and "wr_positions w = Some p" and "allocate s (length ts) p = (p', first)"
  shows "wr_positions w' = Some p' \<and> wr_sink w' = accept s (stamp first ts) (wr_sink w)"
  using assms
  by (auto simp: drain_capture_def set_capture_def drain_committed_def frame_log_sink_def Let_def split: if_splits prod.splits)

lemma accept_kept:
  assumes "ts \<noteq> []" and "log_kept l s = drop k stream" and "k \<le> length stream"
  shows "\<exists>j < length (stream @ ts). log_kept (accept s ts l) s = drop j (stream @ ts)"
  using log_sink.sink_suffix [of s 0 ts l "accept s ts l" k stream] assms by (simp add: frame_log_sink_def)

lemma accept_other: "t \<noteq> s \<Longrightarrow> log_kept (accept s ts l) t = log_kept l t"
  using log_sink.sink_other [of s 0 ts l "accept s ts l" "Inr ()" t] by (simp add: frame_log_sink_def)

lemma stream_commit:
  assumes "stream_inv E hist w" and "drain_capture (Some frame_log_sink) s (set_capture s c w) = (w', res)"
    and "wc_committed c = ts" and "ts \<noteq> []" and "sound_txns ts" and "length (hist s) + length ts < 2 ^ 63"
  shows "stream_inv E (hist(s := hist s @ ts)) w'"
proof -
  let ?hist = "hist(s := hist s @ ts)" and ?first = "1 + word_of_nat (length (hist s)) :: lsn"
  from assms(1) obtain p where p: "wr_positions w = Some p" "po_epoch (st_positions p) = E"
      "\<And>t. (case bt_get (po_next (st_positions p)) t of Some n \<Rightarrow> n | None \<Rightarrow> 1) = 1 + word_of_nat (length (hist t))"
    by (auto simp: stream_inv_def)
  define p' where "p' = fst (allocate s (length ts) p)"
  have "allocate s (length ts) p = (p', ?first)" by (simp add: p'_def allocate_def p(3) Let_def)
  from drain_ships [OF assms(2-4) p(1) this] have w': "wr_positions w' = Some p'"
      "wr_sink w' = accept s (stamp ?first ts) (wr_sink w)" by simp_all
  have "po_epoch (st_positions p') = E" by (simp add: p'_def allocate_def p(2) Let_def)
  moreover have "(case bt_get (po_next (st_positions p')) t of Some n \<Rightarrow> n | None \<Rightarrow> 1) = 1 + word_of_nat (length (?hist t))" for t
    using p(3) [of t] p(3) [of s] by (simp add: p'_def allocate_def Let_def)
  moreover have "\<exists>k < length (?hist s). log_kept (wr_sink w') s = drop k (stamp 1 (?hist s))"
  proof -
    obtain k where k: "k \<le> length (stamp 1 (hist s))" "log_kept (wr_sink w) s = drop k (stamp 1 (hist s))"
      using stream_suffix [OF assms(1)] by blast
    have "stamp 1 (?hist s) = stamp 1 (hist s) @ stamp ?first ts" by (simp only: fun_upd_same stamp_append)
    with accept_kept [OF _ k(2,1), of "stamp ?first ts"] assms(4) show ?thesis
      unfolding w'(2) by (metis length_stamp stamp_Nil(2))
  qed
  moreover have "log_kept (wr_sink w') t = log_kept (wr_sink w) t" if "t \<noteq> s" for t
    using that by (simp add: w' accept_other)
  ultimately show ?thesis
    using assms(1,4-6) w'(1) unfolding stream_inv_def by (simp add: sound_txns_def ball_Un)
qed

lemma repl_commit:
  assumes "repl_inv E r" and "drain_capture (Some frame_log_sink) s (set_capture s c (rp_writer r)) = (w, res)"
    and "wc_committed c = ts" and "ts \<noteq> []" and "sound_txns ts" and "length (rp_history r s) + length ts < 2 ^ 63"
  shows "repl_inv E (r\<lparr>rp_writer := w, rp_history := (rp_history r)(s := rp_history r s @ ts)\<rparr>)"
  using assms(1) stream_commit [where hist = "rp_history r", OF _ assms(2-6)]
  by (auto simp: repl_inv_def copy_inv_def acks_inv_def applied_def intro: copy_ok_append)

subsection \<open>Pulls\<close>

lemma take_stamp: "take k (stamp first ts) = stamp first (take k ts)"
  by (rule nth_equalityI) (simp_all add: nth_stamp)

lemma drop_stamp: "drop k (stamp first ts) = stamp (first + word_of_nat k) (drop k ts)"
  by (rule nth_equalityI) (simp_all add: nth_stamp)

lemma filter_stamp:
  assumes "c + length ts < 2 ^ 64" and "a < 2 ^ 64"
  shows "filter (\<lambda>t. word_of_nat a \<le> sx_lsn t) (stamp (word_of_nat c) ts) = drop (a - c) (stamp (word_of_nat c) ts)"
  using assms
proof (induction ts arbitrary: c)
  case (Cons t ts)
  have le: "(word_of_nat a :: lsn) \<le> word_of_nat c \<longleftrightarrow> a \<le> c"
    using Cons.prems by (simp add: word_le_nat_alt unsigned_of_nat take_bit_eq_mod)
  have succ: "(word_of_nat c :: lsn) + 1 = word_of_nat (Suc c)" by simp
  show ?case
  proof (cases "a \<le> c")
    case True
    then have "a - Suc c = 0" "a - c = 0" by simp_all
    with Cons.IH [of "Suc c"] Cons.prems True le show ?thesis unfolding stamp_Cons succ by simp
  next
    case False
    then have "a - c = Suc (a - Suc c)" by simp
    with Cons.IH [of "Suc c"] Cons.prems False le show ?thesis unfolding stamp_Cons succ by simp
  qed
qed simp

lemma served_batch:
  assumes "stream_inv E hist w" and "l \<le> length (hist s)" and "0 < m"
    and "serve s (word_of_nat l + 1) m (wr_sink w) = (log, ServedFrames ts)"
  shows "\<exists>k > 0. l + k \<le> length (hist s) \<and> ts = stamp (word_of_nat l + 1) (take k (drop l (hist s)))"
proof -
  let ?hist = "hist s"
  have small: "length ?hist < 2 ^ 63" using assms(1) by (simp add: stream_inv_def)
  obtain j where j: "log_kept (wr_sink w) s = drop j (stamp 1 ?hist)" "j \<le> length ?hist"
    using stream_suffix [OF assms(1), of s] by auto
  obtain g where g: "bt_get (fl_shards (wr_sink w)) s = Some g" "sg_txns g \<noteq> []"
      "sx_lsn (hd (sg_txns g)) \<le> word_of_nat l + 1" "word_of_nat l + 1 \<le> sx_lsn (last (sg_txns g))"
      "ts = take m (filter (\<lambda>t. word_of_nat l + 1 \<le> sx_lsn t) (sg_txns g))"
    using assms(4) by (auto simp: serve_def Let_def not_less split: option.splits if_splits list.splits)
  have kept: "sg_txns g = stamp (word_of_nat (Suc j)) (drop j ?hist)"
    using j g(1) by (simp add: log_kept_def drop_stamp)
  then have j_less: "j < length ?hist" using g(2) j(2) by (cases "j = length ?hist") auto
  have "word_of_nat (Suc j) \<le> (word_of_nat (Suc l) :: lsn)"
    using g(2,3) kept j_less by (simp add: hd_conv_nth nth_stamp add.commute)
  then have j_le: "j \<le> l" using small assms(2) j_less
    by (simp add: word_le_nat_alt unsigned_of_nat take_bit_eq_mod del: of_nat_Suc)
  have asked: "(word_of_nat l :: lsn) + 1 = word_of_nat (Suc l)" by simp
  have "filter (\<lambda>t. word_of_nat (Suc l) \<le> sx_lsn t) (sg_txns g) = drop (Suc l - Suc j) (sg_txns g)"
    unfolding kept by (rule filter_stamp) (use small assms(2) j_less in simp_all)
  also have "\<dots> = stamp (word_of_nat l + 1) (drop l ?hist)"
    using j_le unfolding kept drop_stamp by (simp add: add.commute flip: of_nat_add)
  finally have rest: "filter (\<lambda>t. word_of_nat l + 1 \<le> sx_lsn t) (sg_txns g) = stamp (word_of_nat l + 1) (drop l ?hist)"
    unfolding asked .
  have "last (sg_txns g) \<in> set (filter (\<lambda>t. word_of_nat l + 1 \<le> sx_lsn t) (sg_txns g))"
    using g(2,4) by simp
  then have "l < length ?hist" unfolding rest by (cases "l < length ?hist") auto
  moreover have "ts = stamp (word_of_nat l + 1) (take m (drop l ?hist))"
    using g(5) unfolding rest take_stamp .
  moreover have "take m (drop l ?hist) = take (min m (length ?hist - l)) (drop l ?hist)"
    by (cases "m \<le> length ?hist - l") simp_all
  ultimately show ?thesis using assms(3) by (intro exI [of _ "min m (length ?hist - l)"]) simp
qed

lemma set_position_effect:
  assumes "set_position fault s pos f = (f', r)"
  shows "fo_db f' = fo_db f \<and> (\<forall>t. t \<noteq> s \<longrightarrow> position_of f' t = position_of f t) \<and>
    (position_of f' s = pos \<or> position_of f' s = position_of f s)"
  using assms by (auto simp: set_position_def position_of_def split: prod.splits sum.splits)

lemma db_bytes_cong: "fo_db f = fo_db g \<Longrightarrow> db_bytes f t = db_bytes g t"
  by (simp add: db_bytes_def)

lemma write_pages_effect:
  assumes "write_pages pages s txns f = (f', r)"
  shows "(\<forall>t. position_of f' t = position_of f t) \<and> (\<forall>t. t \<noteq> s \<longrightarrow> db_bytes f' t = db_bytes f t) \<and>
    (f' = f \<and> (\<exists>e. r = Inl e) \<or> (\<exists>af. (db_bytes f' s, r) = apply_to_db_file af (map sx_txn txns) (db_bytes f s)))"
proof (cases pages)
  case (Some af)
  obtain b where "apply_to_db_file af (map sx_txn txns) (db_bytes f s) = (b, r)" and "f' = f\<lparr>fo_db := (fo_db f)(s := Some b)\<rparr>"
    using assms Some by (auto simp: write_pages_def split: prod.splits)
  then show ?thesis by (auto simp: position_of_def db_bytes_def intro!: exI [of _ af])
qed (use assms in \<open>auto simp: write_pages_def\<close>)

lemma last_stamp:
  assumes "0 < k" and "l + k \<le> length hist" and "length hist < 2 ^ 63"
  shows "unat (sx_lsn (last (stamp (word_of_nat l + 1) (take k (drop l hist))))) = l + k"
proof -
  let ?ts = "take k (drop l hist)"
  have len: "length ?ts = k" using assms(2) by simp
  have "last (stamp (word_of_nat l + 1) ?ts) = stamp (word_of_nat l + 1) ?ts ! (k - 1)"
    using assms(1,2) len by (subst last_conv_nth) auto
  also have "sx_lsn \<dots> = word_of_nat l + 1 + word_of_nat (k - 1)"
    using assms(1) len by (subst nth_stamp) auto
  also have "\<dots> = word_of_nat (l + k)" using assms(1) by (cases k) (simp_all add: algebra_simps)
  finally show ?thesis using assms(2,3) by (simp add: unsigned_of_nat take_bit_eq_mod del: of_nat_add)
qed

lemma follower_apply_copy:
  assumes "copy_inv E hist h (position_of f s) (db_bytes f s)" and "sound_txns hist" and "length hist < 2 ^ 63"
    and l: "unat (ps_applied_lsn (position_of f s)) = l" and "0 < k" and "l + k \<le> length hist"
    and "follower_apply pages persist s E (stamp (word_of_nat l + 1) (take k (drop l hist))) f = (f', res)"
  shows "copy_inv E hist (max h (l + k)) (position_of f' s) (db_bytes f' s) \<and>
    l \<le> unat (ps_applied_lsn (position_of f' s)) \<and>
    (\<forall>t. t \<noteq> s \<longrightarrow> position_of f' t = position_of f t \<and> db_bytes f' t = db_bytes f t)"
proof -
  let ?ts = "stamp (word_of_nat l + 1) (take k (drop l hist))"
  have ok: "copy_ok hist l h (db_bytes f s)" and ep: "position_of f s = position_default \<or> ps_epoch (position_of f s) = E"
    using assms(1) l by (simp_all add: copy_inv_def)
  have "copy_ok hist l (max h (l + k)) (db_bytes f s)"
    by (rule copy_raise [OF ok]) (use copy_ok_bounds [OF ok] assms(6) in simp_all)
  then have same: "f' = f \<Longrightarrow> ?thesis" using ep l by (simp add: copy_inv_def)
  obtain g r where g: "write_pages pages s ?ts f = (g, r)" by (cases "write_pages pages s ?ts f")
  note eff = write_pages_effect [OF g]
  show ?thesis
  proof (cases "f' = f")
    case False
    then consider e where "r = Inl e" "f' = g" | "r = Inr ()" "set_position persist s
        \<lparr>ps_epoch = E, ps_applied_lsn = sx_lsn (last ?ts)\<rparr> g = (f', res)"
      using assms(7) g by (auto simp: follower_apply_def split: sum.splits if_splits)
    then show ?thesis
    proof cases
      case 1
      from eff 1 False obtain af where "db_bytes g s = fst (apply_to_db_file af (take k (drop l hist)) (db_bytes f s))"
        by (auto simp: prod_eq_iff)
      with copy_attempt [OF ok assms(2,6,5)] have "copy_ok hist l (max h (l + k)) (db_bytes g s)" by simp
      with eff ep l show ?thesis unfolding 1 copy_inv_def by simp
    next
      case 2
      from eff 2(1) obtain af where a: "apply_to_db_file af (take k (drop l hist)) (db_bytes f s) = (db_bytes g s, r)"
        by auto
      have af: "db_bytes g s = fst (apply_to_db_file af (take k (drop l hist)) (db_bytes f s))"
          "snd (apply_to_db_file af (take k (drop l hist)) (db_bytes f s)) = Inr ()"
        by (simp_all add: a 2(1))
      note pos = set_position_effect [OF 2(2)]
      from pos have db: "db_bytes f' t = db_bytes g t" for t by (blast intro: db_bytes_cong)
      from copy_attempt [OF ok assms(2,6,5), of af] copy_advance [OF ok assms(2,6,5) af(2)]
      have "copy_ok hist l (max h (l + k)) (db_bytes f' s)" "copy_ok hist (l + k) (max h (l + k)) (db_bytes f' s)"
        unfolding db af(1) by simp_all
      moreover have "position_of f' s = position_of f s \<or>
          position_of f' s = \<lparr>ps_epoch = E, ps_applied_lsn = sx_lsn (last ?ts)\<rparr>"
        using pos eff by metis
      moreover have "\<forall>t. t \<noteq> s \<longrightarrow> position_of f' t = position_of f t \<and> db_bytes f' t = db_bytes f t"
        using pos eff db by metis
      ultimately show ?thesis
        using ep l last_stamp [OF assms(5,6,3)] unfolding copy_inv_def by (elim disjE) simp_all
    qed
  qed (rule same)
qed

lemma serve_keeps_log: "serve s l m log = (log', reply) \<Longrightarrow> fl_shards log' = fl_shards log"
  by (auto simp: serve_def Let_def split: option.splits list.splits if_splits)

lemma repl_inv_log:
  assumes "repl_inv E r" and "fl_shards log = fl_shards (wr_sink (rp_writer r))"
  shows "repl_inv E (r\<lparr>rp_writer := (rp_writer r)\<lparr>wr_sink := log\<rparr>\<rparr>)"
proof -
  have "log_kept log t = log_kept (wr_sink (rp_writer r)) t" for t
    using assms(2) by (simp add: log_kept_def)
  then show ?thesis using assms(1) by (simp add: repl_inv_def stream_inv_def acks_inv_def applied_def)
qed

lemma repl_inv_ack:
  assumes "repl_inv E r"
  shows "repl_inv E (r\<lparr>rp_acks := ack_record n s (ps_applied_lsn (position_of (rp_followers r n) s)) (rp_acks r)\<rparr>)"
proof -
  let ?a = "ack_record n s (ps_applied_lsn (position_of (rp_followers r n) s)) (rp_acks r)"
  have a: "bt_wf (ak_positions (rp_acks r))"
      "\<And>n s h. bt_get (ak_positions (rp_acks r)) (s, n) = Some h \<Longrightarrow> unat h \<le> applied r n s"
    using assms by (auto simp: repl_inv_def acks_inv_def)
  have "unat h \<le> applied r m t" if "bt_get (ak_positions ?a) (t, m) = Some h" for m t h
    using that a(2) [of t m h] a(2) [of s n]
    by (auto simp: ack_record_def Let_def applied_def max_def split: if_splits option.splits)
  then have "acks_inv (r\<lparr>rp_acks := ?a\<rparr>)"
    using a(1) by (simp add: acks_inv_def applied_def ack_record_def Let_def)
  with assms show ?thesis by (simp add: repl_inv_def)
qed

lemma repl_inv_follower:
  assumes "repl_inv E r" and "copy_inv E (rp_history r s) h (position_of f s) (db_bytes f s)"
    and "applied r n s \<le> unat (ps_applied_lsn (position_of f s))"
    and "\<forall>t. t \<noteq> s \<longrightarrow> position_of f t = position_of (rp_followers r n) t \<and> db_bytes f t = db_bytes (rp_followers r n) t"
  shows "repl_inv E (r\<lparr>rp_followers := (rp_followers r)(n := f), rp_mark := (rp_mark r)(n := (rp_mark r n)(s := h))\<rparr>)"
    (is "repl_inv E ?r")
proof -
  have "applied r m t \<le> applied ?r m t" for m t
    using assms(3,4) by (cases "m = n"; cases "t = s") (simp_all add: applied_def)
  then have "acks_inv ?r"
    using assms(1) unfolding repl_inv_def acks_inv_def by simp (meson order_trans)
  moreover have "copy_inv E (rp_history ?r t) (rp_mark ?r m t) (position_of (rp_followers ?r m) t) (db_bytes (rp_followers ?r m) t)" for m t
    using assms(1,2,4) by (cases "m = n"; cases "t = s") (simp_all add: repl_inv_def)
  ultimately show ?thesis using assms(1) by (simp add: repl_inv_def)
qed

lemma repl_inv_bounds:
  assumes "repl_inv E r"
  shows "applied r n s \<le> rp_mark r n s \<and> rp_mark r n s \<le> length (rp_history r s) \<and>
    length (rp_history r s) < 2 ^ 63 \<and> sound_txns (rp_history r s)"
  using assms copy_ok_bounds unfolding repl_inv_def stream_inv_def copy_inv_def applied_def by blast

lemma epoch_of_inv: "repl_inv E r \<Longrightarrow> epoch_of r = Some E"
  by (auto simp: repl_inv_def stream_inv_def epoch_of_def)

text \<open>What the primary answers to a follower: it never sends anything but the next transactions.\<close>

lemma subscribe_reply:
  assumes inv: "repl_inv E r" and "n \<noteq> 0" and req: "sync_request (rp_followers r n) s = (e, from_lsn)"
    and sub: "handle_subscribe (epoch_of r) n s e from_lsn batch (Some (rp_acks r), Some (wr_sink (rp_writer r))) =
       ((Some acks, Some log), resp)"
  shows "acks = ack_record n s (ps_applied_lsn (position_of (rp_followers r n) s)) (rp_acks r) \<and>
    fl_shards log = fl_shards (wr_sink (rp_writer r)) \<and>
    (\<forall>s' e' ts. resp = RespFrames s' e' ts \<longrightarrow> e' = E \<and>
       (\<exists>k > 0. applied r n s + k \<le> length (rp_history r s) \<and>
          ts = stamp (word_of_nat (applied r n s) + 1) (take k (drop (applied r n s) (rp_history r s)))))"
proof -
  let ?l = "applied r n s" and ?pos = "position_of (rp_followers r n) s"
  have bounds: "?l \<le> length (rp_history r s)" "length (rp_history r s) < 2 ^ 63"
    using repl_inv_bounds [OF inv, of n s] by simp_all
  have word: "word_of_nat ?l = ps_applied_lsn ?pos" by (simp add: applied_def)
  have asked: "from_lsn = word_of_nat ?l + 1" "e = ps_epoch ?pos"
    using req by (auto simp: sync_request_def Let_def word)
  have "unat from_lsn = ?l + 1"
    using bounds unfolding asked
    by (simp add: unat_word_ariths unsigned_of_nat take_bit_eq_mod)
  then have "0 < from_lsn" by (simp add: word_less_nat_alt)
  then have acks: "acks = ack_record n s (ps_applied_lsn ?pos) (rp_acks r)"
    using sub assms(2) asked word by (simp add: handle_subscribe_def Let_def split: prod.splits)
  have stream: "stream_inv E (rp_history r) (rp_writer r)" using inv by (simp add: repl_inv_def)
  from sub have srv: "serve_subscribe (Some E) s e from_lsn batch (Some (wr_sink (rp_writer r))) = (Some log, resp)"
    by (simp add: handle_subscribe_def Let_def epoch_of_inv [OF inv] split: prod.splits)
  obtain log' reply where serve: "serve s from_lsn (min (max batch 1) 512) (wr_sink (rp_writer r)) = (log', reply)"
    by (cases "serve s from_lsn (min (max batch 1) 512) (wr_sink (rp_writer r))")
  have "fl_shards log = fl_shards (wr_sink (rp_writer r))"
    using srv serve serve_keeps_log [OF serve] by (auto simp: serve_subscribe_def split: if_splits served.splits)
  moreover have "e' = E \<and> reply = ServedFrames ts" if "resp = RespFrames s' e' ts" for s' e' ts
    using srv serve that by (auto simp: serve_subscribe_def split: if_splits served.splits)
  moreover have "0 < min (max batch 1) 512" by simp
  ultimately show ?thesis
    using acks served_batch [OF stream bounds(1)] serve unfolding asked(1) by metis
qed

lemma repl_pull:
  assumes inv: "repl_inv E r" and "n \<noteq> 0" and "sync_request (rp_followers r n) s = (e, from_lsn)"
    and "handle_subscribe (epoch_of r) n s e from_lsn batch (Some (rp_acks r), Some (wr_sink (rp_writer r))) =
       ((Some acks, Some log), resp)"
    and respond: "sync_respond pages persist batch s resp (rp_followers r n) = (f, res)"
    and h: "h = max (rp_mark r n s) (case resp of RespFrames _ _ ts \<Rightarrow> applied r n s + length ts | _ \<Rightarrow> 0)"
  shows "repl_inv E (r\<lparr>rp_acks := acks, rp_writer := (rp_writer r)\<lparr>wr_sink := log\<rparr>,
    rp_followers := (rp_followers r)(n := f), rp_mark := (rp_mark r)(n := (rp_mark r n)(s := h))\<rparr>)"
proof -
  note reply = subscribe_reply [OF assms(1-4)]
  let ?l = "applied r n s" and ?f = "rp_followers r n"
  have copy: "copy_inv E (rp_history r s) (rp_mark r n s) (position_of ?f s) (db_bytes ?f s)"
    using inv by (simp add: repl_inv_def)
  have good: "copy_inv E (rp_history r s) h (position_of f s) (db_bytes f s) \<and>
      ?l \<le> unat (ps_applied_lsn (position_of f s)) \<and>
      (\<forall>t. t \<noteq> s \<longrightarrow> position_of f t = position_of ?f t \<and> db_bytes f t = db_bytes ?f t)"
  proof (cases "\<exists>s' e' ts. resp = RespFrames s' e' ts")
    case True
    then obtain s' e' ts where resp: "resp = RespFrames s' e' ts" by blast
    with reply obtain k where k: "e' = E" "0 < k" "?l + k \<le> length (rp_history r s)"
        "ts = stamp (word_of_nat ?l + 1) (take k (drop ?l (rp_history r s)))" by blast
    then have "ts \<noteq> []" "length ts = k" by auto
    with respond resp k(1) obtain res' where "follower_apply pages persist s E ts ?f = (f, res')"
      by (auto simp: sync_respond_def split: prod.splits sum.splits)
    from follower_apply_copy [OF copy _ _ _ k(2,3) this [unfolded k(4)]] repl_inv_bounds [OF inv, of n s]
    show ?thesis by (simp add: h resp \<open>length ts = k\<close> applied_def)
  next
    case False
    with respond have "f = ?f" by (auto simp: sync_respond_def split: response.splits)
    moreover have "h = rp_mark r n s" using False h by (auto split: response.splits)
    ultimately show ?thesis using copy by (simp add: applied_def)
  qed
  let ?r = "r\<lparr>rp_acks := acks, rp_writer := (rp_writer r)\<lparr>wr_sink := log\<rparr>\<rparr>"
  have "repl_inv E (r\<lparr>rp_acks := acks\<rparr>)" using repl_inv_ack [OF inv, of n s] reply by simp
  from repl_inv_log [OF this, of log] reply have "repl_inv E ?r" by simp
  from repl_inv_follower [OF this, of s h f n] good show ?thesis by (simp add: applied_def)
qed

subsection \<open>Snapshots\<close>

lemma install_file_effect:
  assumes "install_file env s img f = (f', r)"
  shows "(\<forall>t. position_of f' t = position_of f t) \<and> (\<forall>t. t \<noteq> s \<longrightarrow> db_bytes f' t = db_bytes f t) \<and>
    (db_bytes f' s = img \<or> db_bytes f' s = db_bytes f s \<and> (\<exists>e. r = Inl e))"
  using assms unfolding install_file_def
  by (auto simp: position_of_def db_bytes_def Let_def split: install_fault.splits sum.splits if_splits)

lemma install_effect:
  assumes "install_snapshot env s E l img f = (f', r)"
  shows "(\<forall>t. t \<noteq> s \<longrightarrow> position_of f' t = position_of f t \<and> db_bytes f' t = db_bytes f t) \<and>
    (db_bytes f' s = db_bytes f s \<and> position_of f' s = position_of f s \<or>
     db_bytes f' s = img \<and> position_of f' s \<in> {position_of f s, \<lparr>ps_epoch = E, ps_applied_lsn = l\<rparr>})"
proof -
  obtain g q where g: "install_file env s img f = (g, q)" by (cases "install_file env s img f")
  note fx = install_file_effect [OF g]
  show ?thesis
  proof (cases q)
    case (Inl e)
    with assms g have "f' = g" by (simp add: install_snapshot_def)
    with fx show ?thesis by auto
  next
    case (Inr u)
    with assms g have "set_position (ie_persist env) s \<lparr>ps_epoch = E, ps_applied_lsn = l\<rparr> g = (f', r)"
      by (simp add: install_snapshot_def)
    note pos = set_position_effect [OF this]
    then have "db_bytes f' t = db_bytes g t" for t by (blast intro: db_bytes_cong)
    with pos fx Inr show ?thesis by auto
  qed
qed

lemma last_allocated_length:
  assumes "repl_inv E r" and "wr_positions (rp_writer r) = Some p"
  shows "po_epoch (st_positions p) = E \<and> unat (last_allocated p s) = length (rp_history r s)"
proof -
  let ?n = "length (rp_history r s)"
  have next_pos: "(case bt_get (po_next (st_positions p)) s of Some n \<Rightarrow> n | None \<Rightarrow> 1) = 1 + word_of_nat ?n"
    and "po_epoch (st_positions p) = E" and small: "?n < 2 ^ 63"
    using assms by (simp_all add: repl_inv_def stream_inv_def)
  moreover have "unat (1 + word_of_nat ?n :: lsn) = Suc ?n" "unat (word_of_nat ?n :: lsn) = ?n"
    using small by (simp_all add: unat_word_ariths unsigned_of_nat take_bit_eq_mod)
  moreover from this have "(1 :: lsn) \<le> 1 + word_of_nat ?n" by (simp add: word_le_nat_alt)
  ultimately show ?thesis
    by (auto simp: last_allocated_def saturating_sub_def split: option.splits)
qed

lemma repl_install:
  assumes inv: "repl_inv E r" and pos: "wr_positions (rp_writer r) = Some p"
    and "install_snapshot env s (po_epoch (st_positions p)) (last_allocated p s)
       (db_image (rp_history r s) (length (rp_history r s))) (rp_followers r n) = (f, res)"
  shows "repl_inv E (r\<lparr>rp_followers := (rp_followers r)(n := f),
    rp_mark := (rp_mark r)(n := (rp_mark r n)(s := length (rp_history r s)))\<rparr>)"
proof -
  let ?f = "rp_followers r n" and ?hist = "rp_history r s" and ?l = "applied r n s"
  note eff = install_effect [OF assms(3)] and pl = last_allocated_length [OF inv pos, of s]
  have copy: "copy_inv E ?hist (rp_mark r n s) (position_of ?f s) (db_bytes ?f s)"
    using inv by (simp add: repl_inv_def)
  have bounds: "?l \<le> length ?hist" "rp_mark r n s \<le> length ?hist" and sound: "sound_txns ?hist"
    using repl_inv_bounds [OF inv, of n s] by auto
  have "copy_ok ?hist ?l (length ?hist) (db_bytes ?f s)"
    by (rule copy_raise [OF _ bounds(2)]) (use copy in \<open>simp_all add: copy_inv_def applied_def\<close>)
  moreover have "copy_ok ?hist ?l (length ?hist) (db_image ?hist (length ?hist))"
      "copy_ok ?hist (length ?hist) (length ?hist) (db_image ?hist (length ?hist))"
    by (rule copy_installed [OF sound]; use bounds in simp)+
  moreover have "position_of ?f s = position_default \<or> ps_epoch (position_of ?f s) = E"
    using copy by (simp add: copy_inv_def)
  ultimately have "copy_inv E ?hist (length ?hist) (position_of f s) (db_bytes f s) \<and>
      ?l \<le> unat (ps_applied_lsn (position_of f s))"
    using eff pl bounds unfolding copy_inv_def applied_def by auto
  with repl_inv_follower [OF inv] eff show ?thesis by blast
qed

lemma repl_step_inv: "repl_step r r' \<Longrightarrow> repl_inv E r \<Longrightarrow> repl_inv E r'"
proof (induction rule: repl_step.induct)
  case commit
  then show ?case by (blast intro: repl_commit)
next
  case pull
  then show ?case by (blast intro: repl_pull)
next
  case install
  then show ?case by (blast intro: repl_install)
qed

lemma reachable_inv:
  assumes "repl_step\<^sup>*\<^sup>* r0 r" and "repl_start E cfg v r0"
  shows "repl_inv E r"
  using assms by (induction rule: rtranclp_induct) (blast intro: repl_start_inv repl_step_inv)+

subsection \<open>Position files\<close>

text \<open>The position a restart of the follower reads back from the shard's position file.\<close>

definition disk_position :: "follower \<Rightarrow> shard_id \<Rightarrow> position" where
  "disk_position f s = (case fs_file (fo_position_file f s) of Some text \<Rightarrow> position_read text | None \<Rightarrow> position_default)"

definition files_inv :: "u64 \<Rightarrow> follower \<Rightarrow> bool" where
  "files_inv E f \<longleftrightarrow>
     (\<forall>s. ps_applied_lsn (position_of f s) \<le> ps_applied_lsn (disk_position f s) \<and>
        (disk_position f s = position_default \<or> ps_epoch (disk_position f s) = E))"

lemma position_read_body [simp]: "position_read (position_body p) = p"
proof -
  let ?lines = "[''epoch='' @ show_word (ps_epoch p), ''lsn='' @ show_word (ps_applied_lsn p)]"
  have "position_body p = concat (map (\<lambda>l. l @ [newline]) ?lines)"
    by (simp add: position_body_def)
  moreover have "list_all clean_line ?lines"
    by (auto simp: show_word_clean [unfolded newline_def] newline_def intro!: clean_lineI)
  ultimately have "text_lines (position_body p) = ?lines" by (simp only: text_lines_unlines)
  moreover have "split_once CHR ''='' (''epoch='' @ show_word (ps_epoch p)) = Some (''epoch'', show_word (ps_epoch p))"
      "split_once CHR ''='' (''lsn='' @ show_word (ps_applied_lsn p)) = Some (''lsn'', show_word (ps_applied_lsn p))"
    using split_once_field [of "CHR ''=''" "''epoch''"] split_once_field [of "CHR ''=''" "''lsn''"] by simp_all
  ultimately show ?thesis
    by (simp add: position_read_def position_read_line_def position_default_def)
qed

lemma files_inv_cong:
  "fo_positions f' = fo_positions f \<Longrightarrow> fo_position_file f' = fo_position_file f \<Longrightarrow> files_inv E f' = files_inv E f"
  by (simp add: files_inv_def position_of_def disk_position_def)

lemma set_position_disk:
  assumes "set_position fault s pos f = (f', r)"
  shows "(\<forall>t. t \<noteq> s \<longrightarrow> position_of f' t = position_of f t \<and> disk_position f' t = disk_position f t) \<and>
    (disk_position f' s = pos \<and> position_of f' s \<in> {pos, position_of f s} \<or>
     disk_position f' s = disk_position f s \<and> position_of f' s = position_of f s)"
  by (rule replace_file_cases [of fault "position_body pos" "fo_position_file f s"];
      use assms in \<open>simp add: set_position_def; clarsimp simp: position_of_def disk_position_def\<close>)

lemma set_position_files:
  assumes "set_position fault s pos f = (f', r)" and "files_inv E f" and "ps_epoch pos = E"
    and "ps_applied_lsn (position_of f s) \<le> ps_applied_lsn pos"
  shows "files_inv E f'"
  using set_position_disk [OF assms(1)] assms(2-4) unfolding files_inv_def
  by (metis insertE order_refl singletonD)

lemma follower_apply_files:
  assumes "follower_apply pages persist s E txns f = (f', r)" and "files_inv E f"
    and "ps_applied_lsn (position_of f s) \<le> sx_lsn (last txns)"
  shows "files_inv E f'"
proof -
  obtain g q where g: "write_pages pages s txns f = (g, q)" by (cases "write_pages pages s txns f")
  then have same: "fo_positions g = fo_positions f" "fo_position_file g = fo_position_file f"
    by (auto simp: write_pages_def split: option.splits prod.splits)
  then have "files_inv E g" "position_of g s = position_of f s"
    using assms(2) files_inv_cong [OF same] by (simp_all add: position_of_def)
  with assms g show ?thesis
    by (auto simp: follower_apply_def split: sum.splits if_splits intro: set_position_files)
qed

lemma install_files:
  assumes "install_snapshot env s E l img f = (f', r)" and "files_inv E f"
    and "ps_applied_lsn (position_of f s) \<le> l"
  shows "files_inv E f'"
proof -
  obtain g q where g: "install_file env s img f = (g, q)" by (cases "install_file env s img f")
  then have same: "fo_positions g = fo_positions f" "fo_position_file g = fo_position_file f"
    unfolding install_file_def by (auto simp: Let_def split: install_fault.splits sum.splits if_splits)
  then have "files_inv E g" "position_of g s = position_of f s"
    using assms(2) files_inv_cong [OF same] by (simp_all add: position_of_def)
  with assms g show ?thesis
    by (auto simp: install_snapshot_def split: sum.splits intro: set_position_files)
qed

lemma pull_files:
  assumes inv: "repl_inv E r" and "n \<noteq> 0" and "sync_request (rp_followers r n) s = (e, from_lsn)"
    and "handle_subscribe (epoch_of r) n s e from_lsn batch (Some (rp_acks r), Some (wr_sink (rp_writer r))) =
       ((Some acks, Some log), resp)"
    and respond: "sync_respond pages persist batch s resp (rp_followers r n) = (f, res)"
    and files: "files_inv E (rp_followers r n)"
  shows "files_inv E f"
proof (cases "\<exists>s' e' ts. resp = RespFrames s' e' ts")
  case True
  let ?l = "applied r n s"
  from True obtain s' e' ts where resp: "resp = RespFrames s' e' ts" by blast
  with subscribe_reply [OF assms(1-4)] obtain k where k: "e' = E" "0 < k" "?l + k \<le> length (rp_history r s)"
      "ts = stamp (word_of_nat ?l + 1) (take k (drop ?l (rp_history r s)))" by blast
  then have "ts \<noteq> []" by auto
  with respond resp k(1) obtain res' where a: "follower_apply pages persist s E ts (rp_followers r n) = (f, res')"
    by (auto simp: sync_respond_def split: prod.splits sum.splits)
  have "unat (sx_lsn (last ts)) = ?l + k"
    unfolding k(4) by (rule last_stamp) (use k repl_inv_bounds [OF inv, of n s] in auto)
  with follower_apply_files [OF a files] show ?thesis by (simp add: word_le_nat_alt applied_def)
next
  case False
  with respond files show ?thesis by (auto simp: sync_respond_def split: response.splits)
qed

lemma repl_step_files:
  "repl_step r r' \<Longrightarrow> repl_inv E r \<Longrightarrow> \<forall>n. files_inv E (rp_followers r n) \<Longrightarrow> \<forall>n. files_inv E (rp_followers r' n)"
proof (induction rule: repl_step.induct)
  case commit
  then show ?case by simp
next
  case pull
  then show ?case using pull_files by auto
next
  case (install r p env s n f res)
  note last = last_allocated_length [OF install(3,1), of s]
  have "ps_applied_lsn (position_of (rp_followers r n) s) \<le> last_allocated p s"
    using last repl_inv_bounds [OF install(3), of n s] by (simp add: word_le_nat_alt applied_def)
  with install last show ?case using install_files by auto
qed

lemma reachable_files:
  assumes "repl_step\<^sup>*\<^sup>* r0 r" and "repl_start E cfg v r0"
    and "\<forall>n s. fs_file (fo_position_file (rp_followers r0 n) s) = None"
  shows "files_inv E (rp_followers r n)"
proof -
  have "\<forall>n. files_inv E (rp_followers r0 n)"
    using assms(2,3) by (simp add: files_inv_def disk_position_def repl_start_def)
  with assms(1) have "repl_inv E r \<and> (\<forall>n. files_inv E (rp_followers r n))"
  proof (induction rule: rtranclp_induct)
    case base
    with repl_start_inv [OF assms(2)] show ?case by blast
  next
    case (step y z)
    then show ?case using repl_step_inv repl_step_files by blast
  qed
  then show ?thesis by blast
qed

section \<open>What replication promises\<close>

lemma holders_set:
  assumes "bt_wf (ak_positions a)"
  shows "\<exists>F. finite F \<and> holders a s l = card F + 1 \<and>
    (\<forall>n \<in> F. \<exists>h. bt_get (ak_positions a) (s, n) = Some h \<and> l \<le> h)"
proof -
  let ?sel = "filter (\<lambda>((t, _), h). t = s \<and> l \<le> h) (ak_positions a)"
  let ?F = "set (map (\<lambda>e. snd (fst e)) ?sel)"
  have "distinct (map fst ?sel)" using bt_wf_distinct [OF assms] by (simp add: distinct_map_filter)
  then have "distinct (map (\<lambda>e. snd (fst e)) ?sel)"
    by (auto simp: distinct_map inj_on_def)
  then have "holders a s l = card ?F + 1" by (simp add: holders_def distinct_card del: set_map)
  moreover have "\<exists>h. bt_get (ak_positions a) (s, n) = Some h \<and> l \<le> h" if "n \<in> ?F" for n
    using that bt_mem_get [OF assms] by force
  ultimately show ?thesis by blast
qed

text \<open>
  (C9) A follower's copy is the primary's database. Whatever commits, pulls and snapshots came
  before within one epoch, with faults at any write of the followers' files, a copy that is not in the
  middle of a failed attempt is the file that the primary's transactions up to the follower's position
  give, and no position is ahead of what the primary committed. A snapshot is installed in one step,
  with the image of the primary's file at the position it is labelled with; followers do not restart.
\<close>

theorem settled_copy_is_the_primary_database:
  assumes "repl_step\<^sup>*\<^sup>* r0 r" and "repl_start E cfg v r0" and "rp_mark r n s = applied r n s"
  shows "applied r n s \<le> length (rp_history r s) \<and>
    db_bytes (rp_followers r n) s = db_image (rp_history r s) (applied r n s)"
proof -
  have "copy_inv E (rp_history r s) (rp_mark r n s) (position_of (rp_followers r n) s) (db_bytes (rp_followers r n) s)"
    using reachable_inv [OF assms(1,2)] unfolding repl_inv_def by blast
  then show ?thesis unfolding assms(3) copy_inv_def copy_ok_def applied_def by blast
qed

text \<open>
  (C10) A confirmed write is held by a quorum. From a primary with a new epoch and followers without
  copies or position files, after any commits, pulls and snapshots, with faults at any write of the
  followers' files: when the wait of a writer for position \<open>l\<close> ends well, there are enough followers to make a
  quorum with the primary, each of which has every page of the transactions up to its position outside
  those that a later attempt was writing, has reached \<open>l\<close>, and has a position file on disk that names the
  primary's epoch and a position no smaller. The epoch stays the same throughout, a snapshot is
  installed in one step with the image of the primary's file at the position it is labelled with, and
  followers do not restart.
\<close>

theorem confirmed_write_is_held_by_a_quorum:
  assumes "repl_step\<^sup>*\<^sup>* r0 r" and "repl_start E cfg v r0"
    and "\<forall>n s. fs_file (fo_position_file (rp_followers r0 n) s) = None"
    and "snd (wait_for_quorum s l [] (rp_acks r)) = Inr ()"
  shows "\<exists>F. finite F \<and> ack_quorum (rp_acks r) \<le> card F + 1 \<and>
    (\<forall>n \<in> F. unat l \<le> applied r n s \<and>
       copy_ok (rp_history r s) (applied r n s) (rp_mark r n s) (db_bytes (rp_followers r n) s) \<and>
       l \<le> ps_applied_lsn (disk_position (rp_followers r n) s) \<and>
       (l \<noteq> 0 \<longrightarrow> ps_epoch (disk_position (rp_followers r n) s) = E))"
proof -
  note inv = reachable_inv [OF assms(1,2)] and files = reachable_files [OF assms(1-3)]
  from inv have acks: "acks_inv r" by (simp add: repl_inv_def)
  then obtain F where F: "finite F" "holders (rp_acks r) s l = card F + 1"
      "\<And>n. n \<in> F \<Longrightarrow> \<exists>h. bt_get (ak_positions (rp_acks r)) (s, n) = Some h \<and> l \<le> h"
    using holders_set [of "rp_acks r" s l] unfolding acks_inv_def by blast
  moreover have "ack_quorum (rp_acks r) \<le> holders (rp_acks r) s l"
    using assms(4) by (subst (asm) wait_for_quorum.simps) (auto split: if_splits)
  moreover have reached: "unat l \<le> applied r n s" if "n \<in> F" for n
    using F(3) [OF that] acks unfolding acks_inv_def by (auto simp: word_le_nat_alt intro: order_trans)
  moreover have on_disk: "l \<le> ps_applied_lsn (disk_position (rp_followers r n) s)" if "n \<in> F" for n
    using reached [OF that] files [of n]
    by (auto simp: files_inv_def applied_def word_le_nat_alt intro: order_trans)
  moreover have "ps_epoch (disk_position (rp_followers r n) s) = E" if "n \<in> F" "l \<noteq> 0" for n
  proof (rule ccontr)
    assume "ps_epoch (disk_position (rp_followers r n) s) \<noteq> E"
    with files [of n] have "disk_position (rp_followers r n) s = position_default" by (auto simp: files_inv_def)
    with on_disk [OF that(1)] that(2) show False by (simp add: position_default_def)
  qed
  moreover have "copy_ok (rp_history r s) (applied r n s) (rp_mark r n s) (db_bytes (rp_followers r n) s)" for n
    using inv by (simp add: repl_inv_def copy_inv_def applied_def)
  ultimately show ?thesis using F(1,2) by (intro exI [of _ F]) simp
qed

subsection \<open>A run\<close>

definition commit_of :: "shard_id \<Rightarrow> committed_txn list \<Rightarrow> repl \<Rightarrow> repl" where
  "commit_of s ts r =
     r\<lparr>rp_writer := fst (drain_capture (Some frame_log_sink) s
         (set_capture s ((capture_with_limit 9)\<lparr>wc_committed := ts\<rparr>) (rp_writer r))),
       rp_history := (rp_history r)(s := rp_history r s @ ts)\<rparr>"

definition pull_of :: "node_id \<Rightarrow> shard_id \<Rightarrow> repl \<Rightarrow> repl" where
  "pull_of n s r =
     (case sync_request (rp_followers r n) s of (e, from_lsn) \<Rightarrow>
      case handle_subscribe (epoch_of r) n s e from_lsn 64 (Some (rp_acks r), Some (wr_sink (rp_writer r))) of
        ((acks, log), resp) \<Rightarrow>
          r\<lparr>rp_acks := the acks, rp_writer := (rp_writer r)\<lparr>wr_sink := the log\<rparr>,
            rp_followers := (rp_followers r)(n := fst (sync_respond (Some ApplyOk) WfOk 64 s resp (rp_followers r n))),
            rp_mark := (rp_mark r)(n := (rp_mark r n)(s := max (rp_mark r n s)
              (case resp of RespFrames _ _ ts \<Rightarrow> applied r n s + length ts | _ \<Rightarrow> 0)))\<rparr>)"

lemma commit_of_step:
  "ts \<noteq> [] \<Longrightarrow> sound_txns ts \<Longrightarrow> length (rp_history r s) + length ts < 2 ^ 63 \<Longrightarrow> repl_step r (commit_of s ts r)"
  unfolding commit_of_def by (rule repl_step.commit [OF prod.collapse [symmetric]]) simp_all

lemma handle_subscribe_keeps:
  "\<exists>a l resp. handle_subscribe cur n s e from_lsn b (Some acks, Some log) = ((Some a, Some l), resp)"
  by (auto simp: handle_subscribe_def serve_subscribe_def Let_def split: option.splits prod.splits served.splits)

lemma pull_of_step: "n \<noteq> 0 \<Longrightarrow> repl_step r (pull_of n s r)"
proof -
  assume "n \<noteq> 0"
  obtain e from_lsn where req: "sync_request (rp_followers r n) s = (e, from_lsn)" by fastforce
  obtain a l resp where sub: "handle_subscribe (epoch_of r) n s e from_lsn 64 (Some (rp_acks r), Some (wr_sink (rp_writer r))) =
      ((Some a, Some l), resp)"
    using handle_subscribe_keeps by blast
  show ?thesis
    unfolding pull_of_def req prod.case sub option.sel
    by (rule repl_step.pull [OF \<open>n \<noteq> 0\<close> req sub prod.collapse [symmetric]])
qed

definition demo_page :: committed_txn where
  "demo_page = \<lparr>ct_db_size_pages = 1, ct_page_size = 4,
     ct_frames = [\<lparr>fr_page_no = 1, fr_data = [7, 7, 7, 7]\<rparr>], ct_generation = 0\<rparr>"

abbreviation demo_config :: frame_log_config where
  "demo_config \<equiv> \<lparr>fc_total_bytes = 9, fc_shard_count = 1\<rparr>"

definition demo_start :: repl where
  "demo_start =
     \<lparr>rp_writer = \<lparr>wr_shards = (\<lambda>_. \<lparr>os_capture = None, os_hold = False, os_invalidated = False\<rparr>),
        wr_positions = Some \<lparr>st_positions = \<lparr>po_epoch = 1, po_next = [], po_clean = False\<rparr>, st_file = None\<rparr>,
        wr_sink = frame_log_new demo_config\<rparr>,
      rp_acks = ack_new 3,
      rp_followers = (\<lambda>_. \<lparr>fo_positions = [], fo_db = (\<lambda>_. None), fo_installing = (\<lambda>_. None),
        fo_wal = (\<lambda>_. None), fo_position_file = (\<lambda>_. \<lparr>fs_file = None, fs_tmp = None\<rparr>)\<rparr>),
      rp_history = (\<lambda>_. []), rp_mark = (\<lambda>_ _. 0)\<rparr>"

definition demo_pulled :: repl where
  "demo_pulled = pull_of 7 0 (commit_of 0 [demo_page] demo_start)"

definition demo_run :: repl where
  "demo_run = pull_of 7 0 demo_pulled"

lemma demo_pulled_reached: "repl_step\<^sup>*\<^sup>* demo_start demo_pulled"
proof -
  let ?c = "commit_of 0 [demo_page] demo_start"
  have "repl_step demo_start ?c"
    by (rule commit_of_step) (simp_all add: sound_txns_def demo_page_def demo_start_def)
  then have "repl_step\<^sup>*\<^sup>* demo_start ?c" by (rule r_into_rtranclp)
  then show ?thesis
    unfolding demo_pulled_def by (rule rtranclp.rtrancl_into_rtrancl) (simp add: pull_of_step)
qed

lemma demo_run_reached: "repl_step\<^sup>*\<^sup>* demo_start demo_run"
  unfolding demo_run_def
  by (rule rtranclp.rtrancl_into_rtrancl [OF demo_pulled_reached]) (simp add: pull_of_step)

lemma demo_start_ok: "repl_start 1 demo_config 3 demo_start"
  by (simp add: repl_start_def demo_start_def position_of_def)

theorem settled_copy_is_the_primary_database_witness:
  "applied demo_pulled 7 0 = 1 \<and> db_bytes (rp_followers demo_pulled 7) 0 = db_image [demo_page] 1"
proof -
  have "rp_history demo_pulled 0 = [demo_page]" by code_simp
  moreover have "rp_mark demo_pulled 7 0 = 1" by code_simp
  moreover have "applied demo_pulled 7 0 = 1" by code_simp
  ultimately show ?thesis
    using settled_copy_is_the_primary_database [OF demo_pulled_reached demo_start_ok, of 7 0] by simp
qed

theorem confirmed_write_is_held_by_a_quorum_witness:
  "snd (wait_for_quorum 0 1 [] (rp_acks demo_run)) = Inr () \<and>
   (\<exists>F. finite F \<and> ack_quorum (rp_acks demo_run) \<le> card F + 1 \<and>
      (\<forall>n \<in> F. 1 \<le> ps_applied_lsn (disk_position (rp_followers demo_run n) 0) \<and>
         ps_epoch (disk_position (rp_followers demo_run n) 0) = 1)) \<and>
   ack_quorum (rp_acks demo_run) = 2"
proof -
  have "snd (wait_for_quorum 0 1 [] (rp_acks demo_run)) = Inr ()" by code_simp
  moreover have "\<forall>n s. fs_file (fo_position_file (rp_followers demo_start n) s) = None" by (simp add: demo_start_def)
  moreover have "ack_quorum (rp_acks demo_run) = 2" by code_simp
  ultimately show ?thesis
    using confirmed_write_is_held_by_a_quorum [OF demo_run_reached demo_start_ok, of 0 1] by simp blast
qed

section \<open>A position file ahead of the memory\<close>

definition page_version :: "lsn \<Rightarrow> u8 \<Rightarrow> stream_txn" where
  "page_version l x = \<lparr>sx_lsn = l, sx_txn = \<lparr>ct_db_size_pages = 1, ct_page_size = 4,
     ct_frames = [\<lparr>fr_page_no = 1, fr_data = [x, x, x, x]\<rparr>], ct_generation = 0\<rparr>\<rparr>"

definition reload_positions :: "shard_id \<Rightarrow> string \<Rightarrow> follower \<Rightarrow> follower" where
  "reload_positions s name f = f\<lparr>fo_positions := load_positions [(name, fs_file (fo_position_file f s))]\<rparr>"

text \<open>
  A position file can be ahead of the memory: the directory could not be synced after the rename. The
  follower then pulls the same transactions again; if it stops after rewriting a page with its older
  version and starts anew, it goes on from the position in the file and the page stays old.
\<close>

lemma late_position_hides_a_torn_retry:
  assumes "f1 = fst (follower_apply (Some ApplyOk) WfDirSync 0 1 [page_version 1 7, page_version 2 8] (rp_followers demo_start 7))"
    and "f2 = reload_positions 0 ''shard_0000.position''
      (fst (follower_apply (Some (ApplyFails 2 0)) WfOk 0 1 [page_version 1 7, page_version 2 8] f1))"
  shows "follower_need f2 0 1 = NeedNext 3 \<and> db_bytes f2 0 = [7, 7, 7, 7] \<and>
    fst (apply_to_db_file ApplyOk (map sx_txn [page_version 1 7, page_version 2 8]) []) = [8, 8, 8, 8]"
  unfolding assms by code_simp

end
