(* ===== verification/Cross_Shard.thy ===== *)
theory Cross_Shard
  imports BTree Disk_File
begin

text \<open>
  Writes that touch several shards: applying statements on one shard
  (\<^verbatim>\<open>src/src/storage/apply.rs\<close>), the two phases on a shard's writer
  (\<^verbatim>\<open>prepare_shard\<close> and \<^verbatim>\<open>decide_shard\<close> of \<^verbatim>\<open>src/src/shard/writer_fleet.rs\<close>), the
  durable record (\<^verbatim>\<open>src/src/shard/txn.rs\<close>), and the coordinator with its recovery
  (\<^verbatim>\<open>run_atomic\<close> and \<^verbatim>\<open>recover_transactions\<close> of \<^verbatim>\<open>src/src/shard/mod.rs\<close>).
  Executing one statement is SQLite's: a parameter from the statement and the data to the new data.
\<close>

section \<open>Statements on one shard\<close>

record 'v statement =
  sm_sql :: string
  sm_params :: "'v list"

definition statement_new :: "string \<Rightarrow> 'v statement" where
  "statement_new sql = \<lparr>sm_sql = sql, sm_params = []\<rparr>"

datatype executed = Rows | Changed u64 u64

datatype stmt_outcome = Done executed | Rejected string

datatype sql_error = Logic string | Fatal string

type_synonym ('v, 'd) engine = "'v statement \<Rightarrow> 'd \<Rightarrow> sql_error + executed \<times> 'd"

text \<open>One file: its rows, the table of applied transactions when it exists, and the schema version.\<close>

record 'd shard_db =
  db_data :: 'd
  db_markers :: "u64 set option"
  db_version :: int

text \<open>A connection, with the transaction it may have open.\<close>

record 'd conn =
  cx_db :: "'d shard_db"
  cx_open :: "'d shard_db option"

fun apply_isolated_group ::
    "('v, 'd) engine \<Rightarrow> 'v statement list \<Rightarrow> 'd \<Rightarrow> string + stmt_outcome list \<times> 'd" where
  "apply_isolated_group run [] d = Inr ([], d)"
| "apply_isolated_group run (s # ss) d =
     (case run s d of
        Inr (x, d') \<Rightarrow> map_sum (\<lambda>e. e) (apfst (Cons (Done x))) (apply_isolated_group run ss d')
      | Inl (Logic msg) \<Rightarrow> map_sum (\<lambda>e. e) (apfst (Cons (Rejected msg))) (apply_isolated_group run ss d)
      | Inl (Fatal msg) \<Rightarrow> Inl msg)"

text \<open>All or nothing: the data the savepoint started from comes back on a rejection.\<close>

fun run_all :: "('v, 'd) engine \<Rightarrow> 'v statement list \<Rightarrow> 'd \<Rightarrow> sql_error + executed list \<times> 'd" where
  "run_all run [] d = Inr ([], d)"
| "run_all run (s # ss) d =
     (case run s d of
        Inl e \<Rightarrow> Inl e
      | Inr (x, d') \<Rightarrow> map_sum (\<lambda>e. e) (apfst (Cons x)) (run_all run ss d'))"

definition apply_atomic_group ::
    "('v, 'd) engine \<Rightarrow> 'v statement list \<Rightarrow> 'd \<Rightarrow> string + stmt_outcome list \<times> 'd" where
  "apply_atomic_group run ss d =
     (case run_all run ss d of
        Inr (xs, d') \<Rightarrow> Inr (map Done xs, d')
      | Inl (Logic msg) \<Rightarrow> Inr ([Rejected msg], d)
      | Inl (Fatal msg) \<Rightarrow> Inl msg)"

fun batch_groups ::
    "('v, 'd) engine \<Rightarrow> ('v statement list \<times> bool) list \<Rightarrow> 'd \<Rightarrow> string + stmt_outcome list list \<times> 'd" where
  "batch_groups run [] d = Inr ([], d)"
| "batch_groups run ((g, atomic) # gs) d =
     (case (if atomic then apply_atomic_group run g d else apply_isolated_group run g d) of
        Inl msg \<Rightarrow> Inl msg
      | Inr (os, d') \<Rightarrow> map_sum (\<lambda>e. e) (apfst (Cons os)) (batch_groups run gs d'))"

text \<open>The outer transaction: a failed begin or commit, or a fault in a group, applies nothing.\<close>

datatype batch_fault = BtOk | BtBegin string | BtCommit string

definition batch_with ::
    "batch_fault \<Rightarrow> ('v, 'd) engine \<Rightarrow> ('v statement list \<times> bool) list \<Rightarrow> 'd conn \<Rightarrow>
     'd conn \<times> (string + stmt_outcome list list)" where
  "batch_with fault run gs c =
     (case fault of
        BtBegin msg \<Rightarrow> (c, Inl msg)
      | _ \<Rightarrow>
          (case batch_groups run gs (db_data (cx_db c)) of
             Inl msg \<Rightarrow> (c, Inl msg)
           | Inr (os, d) \<Rightarrow>
               (case fault of
                  BtCommit msg \<Rightarrow> (c, Inl msg)
                | _ \<Rightarrow> (c\<lparr>cx_db := (cx_db c)\<lparr>db_data := d\<rparr>\<rparr>, Inr os))))"

datatype prepared = PreparedOk "stmt_outcome list" | PrepareRejected string

datatype prepare_fault = PfOk | PfBegin string | PfTable string | PfVersion string | PfMarker string

definition mark :: "u64 \<Rightarrow> 'd shard_db \<Rightarrow> 'd shard_db" where
  "mark txn db = db\<lparr>db_markers := Some (insert txn (case db_markers db of Some m \<Rightarrow> m | None \<Rightarrow> {}))\<rparr>"

definition prepare_group ::
    "prepare_fault \<Rightarrow> ('v, 'd) engine \<Rightarrow> u64 \<Rightarrow> 'v statement list \<Rightarrow> bool \<Rightarrow> 'd conn \<Rightarrow>
     'd conn \<times> (string + prepared)" where
  "prepare_group fault run txn ss bump c =
     (case fault of
        PfBegin msg \<Rightarrow> (c, Inl msg)
      | PfTable msg \<Rightarrow> (c\<lparr>cx_open := None\<rparr>, Inr (PrepareRejected msg))
      | _ \<Rightarrow>
          (case run_all run ss (db_data (cx_db c)) of
             Inl (Logic msg) \<Rightarrow> (c\<lparr>cx_open := None\<rparr>, Inr (PrepareRejected msg))
           | Inl (Fatal msg) \<Rightarrow> (c\<lparr>cx_open := None\<rparr>, Inr (PrepareRejected msg))
           | Inr (xs, d) \<Rightarrow>
               (case fault of
                  PfMarker msg \<Rightarrow> (c\<lparr>cx_open := None\<rparr>, Inr (PrepareRejected msg))
                | _ \<Rightarrow>
                    if bump \<and> (case fault of PfVersion _ \<Rightarrow> True | _ \<Rightarrow> False)
                    then (c\<lparr>cx_open := None\<rparr>,
                          Inr (PrepareRejected (case fault of PfVersion msg \<Rightarrow> msg | _ \<Rightarrow> [])))
                    else
                      (c\<lparr>cx_open := Some (mark txn ((cx_db c)\<lparr>db_data := d,
                          db_version := (if bump then db_version (cx_db c) + 1 else db_version (cx_db c))\<rparr>))\<rparr>,
                       Inr (PreparedOk (map Done xs))))))"

definition finish_prepared :: "bool \<Rightarrow> bool \<Rightarrow> 'd conn \<Rightarrow> 'd conn \<times> (string + unit)" where
  "finish_prepared works commit c =
     (if \<not> works then (c, Inl ''finishing'')
      else
        case cx_open c of
          None \<Rightarrow> (c, Inl ''no transaction is active'')
        | Some db \<Rightarrow> ((if commit then c\<lparr>cx_db := db, cx_open := None\<rparr> else c\<lparr>cx_open := None\<rparr>), Inr ()))"

definition has_marker :: "'d shard_db \<Rightarrow> u64 \<Rightarrow> bool" where
  "has_marker db txn \<longleftrightarrow> (case db_markers db of Some m \<Rightarrow> txn \<in> m | None \<Rightarrow> False)"

section \<open>The two phases on a shard's writer\<close>

text \<open>
  What the environment decides for one call: the queue that refuses it, the connection that cannot
  be opened, the gate that is shut, SQLite's faults, and the frames that do not reach the sink or,
  for a plain write, a quorum.
\<close>

record shard_env =
  se_send :: "error option"
  se_open :: "error option"
  se_gate :: "error option"
  se_prepare :: prepare_fault
  se_finish :: bool
  se_batch :: batch_fault
  se_drain :: "error option"

definition calm_env :: shard_env where
  "calm_env = \<lparr>se_send = None, se_open = None, se_gate = None, se_prepare = PfOk, se_finish = True,
     se_batch = BtOk, se_drain = None\<rparr>"

datatype decision = CommitDecision

record txn_record =
  tr_id :: u64
  tr_participants :: "(shard_id \<times> string list) list"
  tr_ddl :: bool
  tr_decision :: "decision option"

record 'd manager =
  mg_conns :: "shard_id \<Rightarrow> 'd conn"
  mg_parked :: "shard_id set"
  mg_log :: "(u64, txn_record) btree"
  mg_next :: u64

definition set_conn :: "shard_id \<Rightarrow> 'd conn \<Rightarrow> 'd manager \<Rightarrow> 'd manager" where
  "set_conn shard c m = m\<lparr>mg_conns := (mg_conns m)(shard := c)\<rparr>"

definition refused :: "error option \<Rightarrow> unit result" where
  "refused e = (case e of Some err \<Rightarrow> Inl err | None \<Rightarrow> Inr ())"

definition prepare_shard ::
    "shard_env \<Rightarrow> ('v, 'd) engine \<Rightarrow> shard_id \<Rightarrow> u64 \<Rightarrow> 'v statement list \<Rightarrow> bool \<Rightarrow> 'd manager \<Rightarrow>
     'd manager \<times> prepared result" where
  "prepare_shard e run shard txn ss ddl m =
     (case and_then (refused (se_send e)) (\<lambda>_.
           if shard \<in> mg_parked m then Inl (Protocol ''already prepared for another transaction'')
           else and_then (refused (se_open e)) (\<lambda>_. refused (se_gate e))) of
        Inl err \<Rightarrow> (m, Inl err)
      | Inr _ \<Rightarrow>
          (case prepare_group (se_prepare e) run txn ss ddl (mg_conns m shard) of
             (c, Inl msg) \<Rightarrow> (set_conn shard c m, Inl (Protocol msg))
           | (c, Inr (PreparedOk os)) \<Rightarrow>
               ((set_conn shard c m)\<lparr>mg_parked := insert shard (mg_parked m)\<rparr>, Inr (PreparedOk os))
           | (c, Inr (PrepareRejected msg)) \<Rightarrow> (set_conn shard c m, Inr (PrepareRejected msg))))"

definition decide_shard :: "shard_env \<Rightarrow> shard_id \<Rightarrow> bool \<Rightarrow> 'd manager \<Rightarrow> 'd manager \<times> unit result" where
  "decide_shard e shard commit m =
     (case refused (se_send e) of
        Inl err \<Rightarrow> (m, Inl err)
      | Inr _ \<Rightarrow>
          if shard \<notin> mg_parked m then (m, Inr ())
          else
            let m = m\<lparr>mg_parked := mg_parked m - {shard}\<rparr> in
            case refused (se_open e) of
              Inl err \<Rightarrow> (m, Inl err)
            | Inr _ \<Rightarrow>
                let commit = (commit \<and> se_gate e = None) in
                (case finish_prepared (se_finish e) commit (mg_conns m shard) of
                   (c, Inl msg) \<Rightarrow> (set_conn shard c m, Inl (Protocol msg))
                 | (c, Inr _) \<Rightarrow> (set_conn shard c m, if commit then refused (se_drain e) else Inr ())))"

text \<open>
  One participant alone: a batch of one atomic group, or a schema change. A write queued behind a
  parked shard is not answered until the decision.
\<close>

definition execute_atomic ::
    "shard_env \<Rightarrow> ('v, 'd) engine \<Rightarrow> shard_id \<Rightarrow> 'v statement list \<Rightarrow> 'd manager \<Rightarrow>
     'd manager \<times> stmt_outcome list result" where
  "execute_atomic e run shard ss m =
     (case and_then (refused (se_send e)) (\<lambda>_.
           if shard \<in> mg_parked m then Inl (WriterUnavailable ''held behind a parked shard'')
           else and_then (refused (map_option (\<lambda>_. BatchAborted ''cannot open the shard'') (se_open e))) (\<lambda>_. refused (se_gate e))) of
        Inl err \<Rightarrow> (m, Inl err)
      | Inr _ \<Rightarrow>
          (case batch_with (se_batch e) run [(ss, True)] (mg_conns m shard) of
             (c, Inl msg) \<Rightarrow> (set_conn shard c m, Inl (BatchAborted msg))
           | (c, Inr os) \<Rightarrow>
               (set_conn shard c m, and_then (refused (se_drain e)) (\<lambda>_. Inr (concat os)))))"

definition schema_op ::
    "shard_env \<Rightarrow> ('v, 'd) engine \<Rightarrow> shard_id \<Rightarrow> 'v statement \<Rightarrow> 'd manager \<Rightarrow> 'd manager \<times> int result" where
  "schema_op e run shard ddl m =
     (case and_then (refused (se_send e)) (\<lambda>_. and_then (refused (se_open e)) (\<lambda>_. refused (se_gate e))) of
        Inl err \<Rightarrow> (m, Inl err)
      | Inr _ \<Rightarrow>
          let c = mg_conns m shard; db = cx_db c; nxt = db_version db + 1 in
          (case (se_batch e, run ddl (db_data db)) of
             (BtOk, Inr (_, d)) \<Rightarrow>
               (set_conn shard (c\<lparr>cx_db := db\<lparr>db_data := d, db_version := nxt\<rparr>\<rparr>) m,
                and_then (refused (se_drain e)) (\<lambda>_. Inr nxt))
           | _ \<Rightarrow> (m, Inl (IoFailure ''sqlite''))))"

section \<open>The coordinator\<close>

fun combine_from :: "u64 \<Rightarrow> u64 \<Rightarrow> stmt_outcome list \<Rightarrow> stmt_outcome" where
  "combine_from n r [] = Done (Changed n r)"
| "combine_from n r (Done (Changed k i) # os) = combine_from (n + k) i os"
| "combine_from n r (Done Rows # os) = combine_from n r os"
| "combine_from n r (Rejected msg # os) = Rejected msg"

definition combine_writes :: "stmt_outcome list \<Rightarrow> stmt_outcome" where
  "combine_writes os = combine_from 0 0 os"

type_synonym 'v participants = "(shard_id \<times> 'v statement list) list"

record txn_env =
  te_prepare :: "shard_id \<Rightarrow> shard_env"
  te_put :: "error option"
  te_decide :: "shard_id \<Rightarrow> shard_env"
  te_remove :: "error option"

definition calm_txn :: txn_env where
  "calm_txn = \<lparr>te_prepare = (\<lambda>_. calm_env), te_put = None, te_decide = (\<lambda>_. calm_env), te_remove = None\<rparr>"

text \<open>Phase one, in shard order, up to the first participant that does not prepare.\<close>

fun prepare_all ::
    "txn_env \<Rightarrow> ('v, 'd) engine \<Rightarrow> u64 \<Rightarrow> bool \<Rightarrow> 'v participants \<Rightarrow> 'd manager \<Rightarrow>
     'd manager \<times> (string + stmt_outcome list) result" where
  "prepare_all e run txn ddl [] m = (m, Inr (Inr []))"
| "prepare_all e run txn ddl ((shard, ss) # ps) m =
     (case prepare_shard (te_prepare e shard) run shard txn ss ddl m of
        (m, Inl err) \<Rightarrow> (m, Inl err)
      | (m, Inr (PrepareRejected msg)) \<Rightarrow> (m, Inr (Inl msg))
      | (m, Inr (PreparedOk os)) \<Rightarrow>
          (case prepare_all e run txn ddl ps m of
             (m, Inr (Inr os')) \<Rightarrow> (m, Inr (Inr (os @ os')))
           | (m, r) \<Rightarrow> (m, r)))"

fun abort_all :: "txn_env \<Rightarrow> 'v participants \<Rightarrow> 'd manager \<Rightarrow> 'd manager" where
  "abort_all e [] m = m"
| "abort_all e ((shard, _) # ps) m = abort_all e ps (fst (decide_shard (te_decide e shard) shard False m))"

text \<open>Phase two: every participant is told, and the last error is the one reported.\<close>

fun commit_all :: "txn_env \<Rightarrow> 'v participants \<Rightarrow> 'd manager \<Rightarrow> 'd manager \<times> unit result" where
  "commit_all e [] m = (m, Inr ())"
| "commit_all e ((shard, _) # ps) m =
     (case decide_shard (te_decide e shard) shard True m of
        (m, r) \<Rightarrow>
          (case commit_all e ps m of
             (m, Inr _) \<Rightarrow> (m, r)
           | (m, Inl err) \<Rightarrow> (m, Inl err)))"

definition record_of :: "u64 \<Rightarrow> 'v participants \<Rightarrow> bool \<Rightarrow> txn_record" where
  "record_of txn ps ddl =
     \<lparr>tr_id = txn, tr_participants = map (\<lambda>(s, ss). (s, map sm_sql ss)) ps, tr_ddl = ddl,
      tr_decision = Some CommitDecision\<rparr>"

definition txn_put :: "error option \<Rightarrow> txn_record \<Rightarrow> 'd manager \<Rightarrow> 'd manager \<times> unit result" where
  "txn_put fault r m =
     (case fault of
        Some err \<Rightarrow> (m, Inl err)
      | None \<Rightarrow> (m\<lparr>mg_log := bt_insert (tr_id r) r (mg_log m)\<rparr>, Inr ()))"

definition txn_remove :: "error option \<Rightarrow> u64 \<Rightarrow> 'd manager \<Rightarrow> 'd manager \<times> unit result" where
  "txn_remove fault txn m =
     (case fault of
        Some err \<Rightarrow> (m, Inl err)
      | None \<Rightarrow> (m\<lparr>mg_log := bt_remove txn (mg_log m)\<rparr>, Inr ()))"

definition txn_pending :: "'d manager \<Rightarrow> txn_record list" where
  "txn_pending m = bt_values (mg_log m)"

definition next_id_after_recovery :: "'d manager \<Rightarrow> u64" where
  "next_id_after_recovery m = foldl max 0 (map tr_id (txn_pending m)) + 1"

definition two_phase ::
    "txn_env \<Rightarrow> ('v, 'd) engine \<Rightarrow> 'v participants \<Rightarrow> bool \<Rightarrow> 'd manager \<Rightarrow> 'd manager \<times> stmt_outcome result" where
  "two_phase e run ps ddl m =
     (let txn = mg_next m; m = m\<lparr>mg_next := txn + 1\<rparr> in
      case prepare_all e run txn ddl ps m of
        (m, Inl err) \<Rightarrow> (abort_all e ps m, Inl err)
      | (m, Inr (Inl msg)) \<Rightarrow> (abort_all e ps m, Inr (Rejected msg))
      | (m, Inr (Inr os)) \<Rightarrow>
          (case txn_put (te_put e) (record_of txn ps ddl) m of
             (m, Inl err) \<Rightarrow> (m, Inl err)
           | (m, Inr _) \<Rightarrow>
               (case commit_all e ps m of
                  (m, Inl err) \<Rightarrow> (m, Inl err)
                | (m, Inr _) \<Rightarrow>
                    (case txn_remove (te_remove e) txn m of
                       (m, Inl err) \<Rightarrow> (m, Inl err)
                     | (m, Inr _) \<Rightarrow> (m, Inr (if ddl then Done (Changed 0 0) else combine_writes os))))))"

definition single ::
    "shard_env \<Rightarrow> ('v, 'd) engine \<Rightarrow> shard_id \<Rightarrow> 'v statement list \<Rightarrow> bool \<Rightarrow> 'd manager \<Rightarrow>
     'd manager \<times> stmt_outcome result" where
  "single e run shard ss ddl m =
     (if ddl
      then (case schema_op e run shard (hd ss) m of
              (m, r) \<Rightarrow> (m, and_then r (\<lambda>_. Inr (combine_writes [Done (Changed 0 0)]))))
      else (case execute_atomic e run shard ss m of
              (m, r) \<Rightarrow> (m, and_then r (\<lambda>os. Inr (combine_writes os)))))"

text \<open>For participants whose files are all on this node.\<close>

definition run_atomic ::
    "txn_env \<Rightarrow> ('v, 'd) engine \<Rightarrow> 'v participants \<Rightarrow> bool \<Rightarrow> 'd manager \<Rightarrow> 'd manager \<times> stmt_outcome result" where
  "run_atomic e run ps ddl m =
     (case filter (\<lambda>p. snd p \<noteq> []) (sort_key fst ps) of
        [] \<Rightarrow> (m, Inr (Done (Changed 0 0)))
      | [(shard, ss)] \<Rightarrow> single (te_prepare e shard) run shard ss ddl m
      | ps \<Rightarrow> two_phase e run ps ddl m)"

section \<open>Restart and recovery\<close>

text \<open>A restart rolls back what was open, and chooses the next id from the records left.\<close>

definition restart :: "'d manager \<Rightarrow> 'd manager" where
  "restart m =
     m\<lparr>mg_conns := (\<lambda>s. (mg_conns m s)\<lparr>cx_open := None\<rparr>), mg_parked := {}, mg_next := next_id_after_recovery m\<rparr>"

text \<open>A query that fails, as when there is no table, counts as not applied.\<close>

definition has_applied :: "bool \<Rightarrow> shard_id \<Rightarrow> u64 \<Rightarrow> 'd manager \<Rightarrow> bool" where
  "has_applied readable shard txn m \<longleftrightarrow> readable \<and> has_marker (cx_db (mg_conns m shard)) txn"

text \<open>
  The marker is written by a statement of its own; without the table it is rejected, and a
  rejection is an answer, not an error.
\<close>

definition write_marker :: "shard_env \<Rightarrow> shard_id \<Rightarrow> u64 \<Rightarrow> 'd manager \<Rightarrow> 'd manager \<times> unit result" where
  "write_marker e shard txn m =
     (case and_then (refused (se_send e)) (\<lambda>_. and_then (refused (se_open e)) (\<lambda>_. refused (se_gate e))) of
        Inl err \<Rightarrow> (m, Inl err)
      | Inr _ \<Rightarrow>
          (case se_batch e of
             BtOk \<Rightarrow>
               let c = mg_conns m shard in
               ((if db_markers (cx_db c) = None then m else set_conn shard (c\<lparr>cx_db := mark txn (cx_db c)\<rparr>) m),
                refused (se_drain e))
           | _ \<Rightarrow> (m, Inl (BatchAborted ''marker''))))"

definition statements_for :: "txn_record \<Rightarrow> shard_id \<Rightarrow> 'v statement list option" where
  "statements_for r shard = map_option (map statement_new) (map_of (tr_participants r) shard)"

record recovery_env =
  re_readable :: "shard_id \<Rightarrow> bool"
  re_apply :: "shard_id \<Rightarrow> shard_env"
  re_mark :: "shard_id \<Rightarrow> shard_env"
  re_remove :: "error option"

definition calm_recovery :: recovery_env where
  "calm_recovery = \<lparr>re_readable = (\<lambda>_. True), re_apply = (\<lambda>_. calm_env), re_mark = (\<lambda>_. calm_env), re_remove = None\<rparr>"

definition recover_shard ::
    "recovery_env \<Rightarrow> ('v, 'd) engine \<Rightarrow> txn_record \<Rightarrow> shard_id \<Rightarrow> 'd manager \<Rightarrow> 'd manager \<times> unit result" where
  "recover_shard e run r shard m =
     (if has_applied (re_readable e shard) shard (tr_id r) m then (m, Inr ())
      else
        case statements_for r shard of
          None \<Rightarrow> (m, Inr ())
        | Some ss \<Rightarrow>
            (case (if ss = [] then (m, Inr (Done (Changed 0 0)))
                   else single (re_apply e shard) run shard ss (tr_ddl r) m) of
               (m, Inl err) \<Rightarrow> (m, Inl err)
             | (m, Inr _) \<Rightarrow> write_marker (re_mark e shard) shard (tr_id r) m))"

fun recover_shards ::
    "recovery_env \<Rightarrow> ('v, 'd) engine \<Rightarrow> txn_record \<Rightarrow> shard_id list \<Rightarrow> 'd manager \<Rightarrow> 'd manager \<times> unit result" where
  "recover_shards e run r [] m = (m, Inr ())"
| "recover_shards e run r (s # ss) m =
     (case recover_shard e run r s m of
        (m, Inl err) \<Rightarrow> (m, Inl err)
      | (m, Inr _) \<Rightarrow> recover_shards e run r ss m)"

fun recover_records ::
    "recovery_env \<Rightarrow> ('v, 'd) engine \<Rightarrow> txn_record list \<Rightarrow> 'd manager \<Rightarrow> 'd manager \<times> nat result" where
  "recover_records e run [] m = (m, Inr 0)"
| "recover_records e run (r # rs) m =
     (case (case tr_decision r of
              None \<Rightarrow> (m, Inr ())
            | Some CommitDecision \<Rightarrow> recover_shards e run r (map fst (tr_participants r)) m) of
        (m, Inl err) \<Rightarrow> (m, Inl err)
      | (m, Inr _) \<Rightarrow>
          (case txn_remove (re_remove e) (tr_id r) m of
             (m, Inl err) \<Rightarrow> (m, Inl err)
           | (m, Inr _) \<Rightarrow>
               (case recover_records e run rs m of (m, k) \<Rightarrow> (m, map_sum (\<lambda>x. x) Suc k))))"

definition recover_transactions ::
    "recovery_env \<Rightarrow> ('v, 'd) engine \<Rightarrow> 'd manager \<Rightarrow> 'd manager \<times> nat result" where
  "recover_transactions e run m = recover_records e run (txn_pending m) m"

end
