(* ===== verification/Cross_Shard_Safety.thy ===== *)
theory Cross_Shard_Safety
  imports Cross_Shard
begin

text \<open>
  What a cross-shard write promises. Interrupted anywhere and recovered, it is applied on every
  participant or on none, when its id is fresh, its statements carry no parameters and this node
  may still write. Each of those conditions is needed: without it the write comes apart.
\<close>

section \<open>A write as the sequence of its durable actions\<close>

datatype 'v txn_action = ActPrepare shard_id "'v statement list" | ActPut | ActDecide shard_id | ActRemove

definition txn_actions :: "'v participants \<Rightarrow> 'v txn_action list" where
  "txn_actions ps =
     map (\<lambda>(s, ss). ActPrepare s ss) ps @ [ActPut] @ map (\<lambda>(s, _). ActDecide s) ps @ [ActRemove]"

fun run_action ::
    "txn_env \<Rightarrow> ('v, 'd) engine \<Rightarrow> u64 \<Rightarrow> 'v participants \<Rightarrow> bool \<Rightarrow> 'v txn_action \<Rightarrow> 'd manager \<Rightarrow> 'd manager" where
  "run_action e run txn ps ddl (ActPrepare s ss) m = fst (prepare_shard (te_prepare e s) run s txn ss ddl m)"
| "run_action e run txn ps ddl ActPut m = fst (txn_put (te_put e) (record_of txn ps ddl) m)"
| "run_action e run txn ps ddl (ActDecide s) m = fst (decide_shard (te_decide e s) s True m)"
| "run_action e run txn ps ddl ActRemove m = fst (txn_remove (te_remove e) txn m)"

definition run_actions ::
    "('v, 'd) engine \<Rightarrow> u64 \<Rightarrow> 'v participants \<Rightarrow> bool \<Rightarrow> 'v txn_action list \<Rightarrow> 'd manager \<Rightarrow> 'd manager" where
  "run_actions run txn ps ddl as m = fold (run_action calm_txn run txn ps ddl) as m"

text \<open>The file a participant's statements make of another.\<close>

definition db_of :: "'d manager \<Rightarrow> shard_id \<Rightarrow> 'd shard_db" where
  "db_of m s = cx_db (mg_conns m s)"

definition effect :: "('v, 'd) engine \<Rightarrow> 'v statement list \<Rightarrow> bool \<Rightarrow> 'd shard_db \<Rightarrow> 'd shard_db" where
  "effect run ss ddl db =
     (case run_all run ss (db_data db) of
        Inr (_, d) \<Rightarrow> db\<lparr>db_data := d, db_version := (if ddl then db_version db + 1 else db_version db)\<rparr>
      | Inl _ \<Rightarrow> db)"

definition accepts :: "('v, 'd) engine \<Rightarrow> 'v statement list \<Rightarrow> 'd shard_db \<Rightarrow> bool" where
  "accepts run ss db \<longleftrightarrow> (case run_all run ss (db_data db) of Inr _ \<Rightarrow> True | Inl _ \<Rightarrow> False)"

definition idle :: "'d manager \<Rightarrow> bool" where
  "idle m \<longleftrightarrow> mg_parked m = {} \<and> mg_log m = [] \<and> (\<forall>s. cx_open (mg_conns m s) = None)"

definition well_posed :: "('v, 'd) engine \<Rightarrow> 'v participants \<Rightarrow> bool \<Rightarrow> 'd manager \<Rightarrow> bool" where
  "well_posed run ps ddl m \<longleftrightarrow>
     idle m \<and> distinct (map fst ps) \<and>
     (\<forall>(s, ss) \<in> set ps. ss \<noteq> [] \<and> (ddl \<longrightarrow> length ss = 1) \<and> (\<forall>st \<in> set ss. sm_params st = []) \<and>
        accepts run ss (db_of m s))"

definition ready :: "('v, 'd) engine \<Rightarrow> 'v participants \<Rightarrow> bool \<Rightarrow> 'd manager \<Rightarrow> bool" where
  "ready run ps ddl m \<longleftrightarrow>
     well_posed run ps ddl m \<and> (\<forall>s \<in> fst ` set ps. \<not> has_marker (db_of m s) (mg_next m))"

lemma calm_simps [simp]:
  "te_prepare calm_txn s = calm_env" "te_decide calm_txn s = calm_env" "te_put calm_txn = None"
  "te_remove calm_txn = None" "re_readable calm_recovery s" "re_apply calm_recovery s = calm_env"
  "re_mark calm_recovery s = calm_env" "re_remove calm_recovery = None"
  "se_send calm_env = None" "se_open calm_env = None" "se_gate calm_env = None" "se_prepare calm_env = PfOk"
  "se_finish calm_env" "se_batch calm_env = BtOk" "se_drain calm_env = None" "refused None = Inr ()"
  by (simp_all add: calm_txn_def calm_recovery_def calm_env_def refused_def)

text \<open>Changing the connections of some shards.\<close>

definition on_shards :: "shard_id set \<Rightarrow> (shard_id \<Rightarrow> 'd conn \<Rightarrow> 'd conn) \<Rightarrow> 'd manager \<Rightarrow> 'd manager" where
  "on_shards S f m = m\<lparr>mg_conns := (\<lambda>s. if s \<in> S then f s (mg_conns m s) else mg_conns m s)\<rparr>"

lemma on_shards_simps [simp]:
  "mg_parked (on_shards S f m) = mg_parked m" "mg_log (on_shards S f m) = mg_log m"
  "mg_next (on_shards S f m) = mg_next m"
  "mg_conns (on_shards S f m) s = (if s \<in> S then f s (mg_conns m s) else mg_conns m s)"
  by (simp_all add: on_shards_def)

lemma prepare_shard_calm:
  assumes "s \<notin> mg_parked m" and "accepts run ss (db_of m s)"
  shows "\<exists>os. prepare_shard calm_env run s txn ss ddl m =
    ((on_shards {s} (\<lambda>_ c. c\<lparr>cx_open := Some (mark txn (effect run ss ddl (cx_db c)))\<rparr>) m)
       \<lparr>mg_parked := insert s (mg_parked m)\<rparr>, Inr (PreparedOk os))"
proof -
  from assms(2) obtain xs d where "run_all run ss (db_data (cx_db (mg_conns m s))) = Inr (xs, d)"
    by (auto simp: accepts_def db_of_def split: sum.splits)
  with assms(1) show ?thesis
    by (auto simp: prepare_shard_def prepare_group_def effect_def set_conn_def on_shards_def fun_eq_iff)
qed

lemma decide_shard_calm:
  assumes "s \<in> mg_parked m" and "cx_open (mg_conns m s) = Some db"
  shows "decide_shard calm_env s True m =
    ((on_shards {s} (\<lambda>_ c. \<lparr>cx_db = db, cx_open = None\<rparr>) m)\<lparr>mg_parked := mg_parked m - {s}\<rparr>, Inr ())"
  using assms
  by (cases "mg_conns m s")
    (auto simp: decide_shard_def finish_prepared_def set_conn_def on_shards_def fun_eq_iff Let_def)

section \<open>The state after any number of actions\<close>

definition outcome_db ::
    "('v, 'd) engine \<Rightarrow> u64 \<Rightarrow> 'v participants \<Rightarrow> bool \<Rightarrow> 'd manager \<Rightarrow> shard_id \<Rightarrow> 'd shard_db" where
  "outcome_db run txn ps ddl m s = mark txn (effect run (the (map_of ps s)) ddl (db_of m s))"

text \<open>Participants in \<open>P\<close> have prepared, those in \<open>D\<close> have committed, and \<open>L\<close> is the log.\<close>

definition midway ::
    "(shard_id \<Rightarrow> 'd shard_db) \<Rightarrow> shard_id set \<Rightarrow> shard_id set \<Rightarrow> (u64, txn_record) btree \<Rightarrow> 'd manager \<Rightarrow> 'd manager" where
  "midway new P D L m =
     m\<lparr>mg_conns := (\<lambda>s. if s \<in> D then \<lparr>cx_db = new s, cx_open = None\<rparr>
                        else if s \<in> P then (mg_conns m s)\<lparr>cx_open := Some (new s)\<rparr> else mg_conns m s),
       mg_parked := P - D, mg_log := L\<rparr>"

lemma manager_eqI:
  fixes a b :: "'d manager"
  assumes "\<And>s. mg_conns a s = mg_conns b s" and "mg_parked a = mg_parked b" and "mg_log a = mg_log b"
    and "mg_next a = mg_next b"
  shows "a = b"
  using assms by (cases a; cases b) (auto simp: fun_eq_iff)

lemma conns_midway [simp]:
  "mg_conns (midway new P D L m) s =
     (if s \<in> D then \<lparr>cx_db = new s, cx_open = None\<rparr>
      else if s \<in> P then (mg_conns m s)\<lparr>cx_open := Some (new s)\<rparr> else mg_conns m s)"
  by (simp add: midway_def)

lemma midway_start: "idle m \<Longrightarrow> midway new {} {} [] m = m"
  by (simp add: midway_def idle_def)

lemma midway_simps [simp]:
  "mg_parked (midway new P D L m) = P - D" "mg_log (midway new P D L m) = L" "mg_next (midway new P D L m) = mg_next m"
  by (simp_all add: midway_def)

lemma log_midway [simp]:
  "txn_put None (record_of txn ps ddl) (midway new P D [] m) = (midway new P D [(txn, record_of txn ps ddl)] m, Inr ())"
  "txn_remove None txn (midway new P D [(txn, r)] m) = (midway new P D [] m, Inr ())"
  by (simp_all add: txn_put_def txn_remove_def midway_def record_of_def bt_remove_def)

lemma prepare_midway:
  assumes "s \<notin> P" and "s \<notin> D" and "accepts run ss (db_of m s)"
    and "new s = mark txn (effect run ss ddl (db_of m s))"
  shows "\<exists>os. prepare_shard calm_env run s txn ss ddl (midway new P D L m) =
    (midway new (insert s P) D L m, Inr (PreparedOk os))"
proof -
  have db: "db_of (midway new P D L m) s = db_of m s" using assms(1,2) by (simp add: midway_def db_of_def)
  from prepare_shard_calm [of s "midway new P D L m" run ss txn ddl] assms db
  obtain os where "prepare_shard calm_env run s txn ss ddl (midway new P D L m) =
      ((on_shards {s} (\<lambda>_ c. c\<lparr>cx_open := Some (mark txn (effect run ss ddl (cx_db c)))\<rparr>) (midway new P D L m))
         \<lparr>mg_parked := insert s (P - D)\<rparr>, Inr (PreparedOk os))"
    by auto
  moreover have "(on_shards {s} (\<lambda>_ c. c\<lparr>cx_open := Some (mark txn (effect run ss ddl (cx_db c)))\<rparr>) (midway new P D L m))
         \<lparr>mg_parked := insert s (P - D)\<rparr> = midway new (insert s P) D L m"
    using assms by (intro manager_eqI) (auto simp: db_of_def)
  ultimately show ?thesis by auto
qed

lemma decide_midway:
  assumes "s \<in> P" and "s \<notin> D"
  shows "decide_shard calm_env s True (midway new P D L m) = (midway new P (insert s D) L m, Inr ())"
proof -
  have "s \<in> mg_parked (midway new P D L m)" "cx_open (mg_conns (midway new P D L m) s) = Some (new s)"
    using assms by (simp_all add: midway_def)
  note decided = decide_shard_calm [OF this]
  have "(on_shards {s} (\<lambda>_ c. \<lparr>cx_db = new s, cx_open = None\<rparr>) (midway new P D L m))
      \<lparr>mg_parked := mg_parked (midway new P D L m) - {s}\<rparr> = midway new P (insert s D) L m"
    by (rule manager_eqI) auto
  with decided show ?thesis by simp
qed

lemma prepares_midway:
  assumes "set qs \<subseteq> set ps" and "distinct (map fst qs)" and "fst ` set qs \<inter> P = {}"
    and "\<forall>(s, ss) \<in> set qs. accepts run ss (db_of m s) \<and> new s = mark txn (effect run ss ddl (db_of m s))"
  shows "(\<exists>os. prepare_all calm_txn run txn ddl qs (midway new P {} L m) =
      (midway new (P \<union> fst ` set qs) {} L m, Inr (Inr os))) \<and>
    run_actions run txn ps ddl (map (\<lambda>(s, ss). ActPrepare s ss) qs) (midway new P {} L m) =
      midway new (P \<union> fst ` set qs) {} L m"
  using assms
proof (induction qs arbitrary: P)
  case (Cons q qs)
  obtain s ss where q: "q = (s, ss)" by (cases q)
  obtain os where one: "prepare_shard calm_env run s txn ss ddl (midway new P {} L m) =
      (midway new (insert s P) {} L m, Inr (PreparedOk os))"
    using prepare_midway [of s P "{}" run ss m new txn ddl L] Cons.prems q by auto
  have "fst ` set qs \<inter> insert s P = {}" using Cons.prems q by auto
  with Cons.IH [of "insert s P"] Cons.prems one show ?case by (auto simp: q run_actions_def)
qed (simp add: run_actions_def)

lemma decides_midway:
  assumes "distinct (map fst qs)" and "fst ` set qs \<subseteq> P" and "fst ` set qs \<inter> D = {}"
  shows "commit_all calm_txn qs (midway new P D L m) = (midway new P (D \<union> fst ` set qs) L m, Inr ()) \<and>
    run_actions run txn ps ddl (map (\<lambda>(s, _). ActDecide s) qs) (midway new P D L m) =
      midway new P (D \<union> fst ` set qs) L m"
  using assms
proof (induction qs arbitrary: D)
  case (Cons q qs)
  obtain s ss where q: "q = (s, ss)" by (cases q)
  have one: "decide_shard calm_env s True (midway new P D L m) = (midway new P (insert s D) L m, Inr ())"
    using Cons.prems q by (intro decide_midway) auto
  have "fst ` set qs \<inter> insert s D = {}" using Cons.prems q by auto
  with Cons.IH [of "insert s D"] Cons.prems one show ?case by (auto simp: q run_actions_def)
qed (simp add: run_actions_def)

lemma well_posed_new:
  assumes "well_posed run ps ddl m"
  shows "\<forall>(s, ss) \<in> set ps. accepts run ss (db_of m s) \<and>
    outcome_db run txn ps ddl m s = mark txn (effect run ss ddl (db_of m s))"
  using assms by (auto simp: well_posed_def outcome_db_def)

lemma run_actions_append: "run_actions run txn ps ddl (as @ bs) m = run_actions run txn ps ddl bs (run_actions run txn ps ddl as m)"
  by (simp add: run_actions_def)

text \<open>Any prefix of the actions is one of four states.\<close>

lemma run_actions_prefix:
  fixes m :: "'d manager"
  assumes "well_posed run ps ddl m" and "txn = mg_next m"
  defines "new \<equiv> outcome_db run txn ps ddl m" and "all \<equiv> fst ` set ps" and "L \<equiv> [(txn, record_of txn ps ddl)]"
  shows "\<exists>P D. run_actions run txn ps ddl (take k (txn_actions ps)) m =
      (if k \<le> length ps then midway new P {} [] m
       else if k \<le> 2 * length ps + 1 then midway new all D L m
       else midway new all all [] m) \<and> D \<subseteq> all"
proof -
  have d: "distinct (map fst ps)" and i: "idle m" using assms(1) by (auto simp: well_posed_def)
  have sub: "distinct (map fst (take j ps))" "set (take j ps) \<subseteq> set ps" for j
    using d by (auto simp: take_map [symmetric] dest: in_set_takeD)
  have prep: "run_actions run txn ps ddl (map (\<lambda>(s, ss). ActPrepare s ss) (take j ps)) m =
      midway new (fst ` set (take j ps)) {} [] m" for j
    using prepares_midway [of "take j ps" ps "{}" run m new txn ddl "[]"] sub [of j]
      well_posed_new [OF assms(1), of txn] midway_start [OF i, of new]
    by (force simp: new_def)
  have put: "run_actions run txn ps ddl [ActPut] (midway new all {} [] m) = midway new all {} L m"
    by (simp add: run_actions_def L_def)
  have dec: "run_actions run txn ps ddl (map (\<lambda>(s, _). ActDecide s) (take j ps)) (midway new all {} L m) =
      midway new all (fst ` set (take j ps)) L m" for j
    using decides_midway [of "take j ps" all "{}" new L m run txn ps ddl] sub [of j] by (auto simp: all_def)
  have rem: "run_actions run txn ps ddl [ActRemove] (midway new all all L m) = midway new all all [] m"
    by (simp add: run_actions_def L_def)
  have whole: "fst ` set (take (length ps) ps) = all" by (simp add: all_def)
  note prep' = prep [of "length ps", unfolded whole, simplified]
  note dec' = dec [of "length ps", unfolded whole, simplified]
  have "k \<le> length ps \<or> (\<exists>j. k = Suc (length ps + j) \<and> j \<le> length ps) \<or> 2 * length ps + 1 < k"
    by presburger
  then consider (one) "k \<le> length ps" | (two) j where "k = Suc (length ps + j)" "j \<le> length ps"
    | (three) "2 * length ps + 1 < k"
    by blast
  then show ?thesis
  proof cases
    case one
    then show ?thesis using prep [of k] by (auto simp: txn_actions_def take_map)
  next
    case two
    then have "take k (txn_actions ps) = map (\<lambda>(s, ss). ActPrepare s ss) ps @ [ActPut] @ map (\<lambda>(s, _). ActDecide s) (take j ps)"
      by (simp add: txn_actions_def take_map)
    moreover have "fst ` set (take j ps) \<subseteq> all" using set_take_subset by (force simp: all_def)
    ultimately show ?thesis using two dec [of j]
      by (auto simp: run_actions_append prep' put intro!: exI [of _ "fst ` set (take j ps)"] simp del: append.simps append_Cons)
  next
    case three
    then have "take k (txn_actions ps) = txn_actions ps" by (simp add: txn_actions_def)
    then show ?thesis using three
      by (auto simp: txn_actions_def run_actions_append prep' put dec' rem simp del: append.simps append_Cons)
  qed
qed

section \<open>Recovery\<close>

definition same_rows :: "'d shard_db \<Rightarrow> 'd shard_db \<Rightarrow> bool" where
  "same_rows a b \<longleftrightarrow> db_data a = db_data b \<and> db_version a = db_version b"

lemma same_rows_refl [simp]: "same_rows a a"
  by (simp add: same_rows_def)

lemma same_rows_mark [simp]: "same_rows (mark txn a) b = same_rows a b" "has_marker (mark txn a) txn"
  by (simp_all add: same_rows_def mark_def has_marker_def)

lemma single_calm:
  assumes "s \<notin> mg_parked m" and "accepts run ss (db_of m s)" and "ss \<noteq> []" and "ddl \<longrightarrow> length ss = 1"
  shows "\<exists>out. single calm_env run s ss ddl m =
    (set_conn s ((mg_conns m s)\<lparr>cx_db := effect run ss ddl (db_of m s)\<rparr>) m, Inr out)"
proof -
  from assms(2) obtain xs d where r: "run_all run ss (db_data (cx_db (mg_conns m s))) = Inr (xs, d)"
    by (auto simp: accepts_def db_of_def split: sum.splits)
  show ?thesis
  proof (cases ddl)
    case True
    with assms(4) obtain st where "ss = [st]" by (cases ss) auto
    with True r show ?thesis
      by (auto simp: single_def schema_op_def effect_def db_of_def Let_def split: sum.splits prod.splits)
  next
    case False
    with r assms(1) show ?thesis
      by (simp add: single_def execute_atomic_def batch_with_def apply_atomic_group_def effect_def db_of_def)
  qed
qed

lemma recover_shard_calm:
  assumes "s \<notin> mg_parked m" and "statements_for r s = Some ss" and "\<not> has_marker (db_of m s) (tr_id r)"
    and "accepts run ss (db_of m s)" and "ss \<noteq> []" and "tr_ddl r \<longrightarrow> length ss = 1"
  shows "\<exists>m'. recover_shard calm_recovery run r s m = (m', Inr ()) \<and>
    same_rows (db_of m' s) (effect run ss (tr_ddl r) (db_of m s)) \<and> (\<forall>t. t \<noteq> s \<longrightarrow> db_of m' t = db_of m t) \<and>
    mg_parked m' = mg_parked m \<and> mg_log m' = mg_log m"
proof -
  obtain out where one: "single calm_env run s ss (tr_ddl r) m =
      (set_conn s ((mg_conns m s)\<lparr>cx_db := effect run ss (tr_ddl r) (db_of m s)\<rparr>) m, Inr out)"
    using single_calm [OF assms(1,4-6)] by blast
  have "\<not> has_applied True s (tr_id r) m" using assms(3) by (simp add: has_applied_def db_of_def)
  with one assms(2,5) show ?thesis
    by (auto simp: recover_shard_def write_marker_def set_conn_def db_of_def Let_def)
qed

definition recoverable :: "('v, 'd) engine \<Rightarrow> txn_record \<Rightarrow> (shard_id \<Rightarrow> 'd shard_db) \<Rightarrow> 'd manager \<Rightarrow> shard_id \<Rightarrow> bool" where
  "recoverable run r target m s \<longleftrightarrow>
     (if has_marker (db_of m s) (tr_id r) then same_rows (db_of m s) (target s)
      else \<exists>ss. statements_for r s = Some ss \<and> ss \<noteq> [] \<and> (tr_ddl r \<longrightarrow> length ss = 1) \<and>
        accepts run ss (db_of m s) \<and> same_rows (effect run ss (tr_ddl r) (db_of m s)) (target s))"

lemma recoverable_cong: "db_of m1 s = db_of m s \<Longrightarrow> recoverable run r target m1 s = recoverable run r target m s"
  by (simp add: recoverable_def)

lemma recover_shards_calm:
  assumes "distinct qs" and "mg_parked m = {}" and "\<forall>s \<in> set qs. recoverable run r target m s"
  shows "\<exists>m'. recover_shards calm_recovery run r qs m = (m', Inr ()) \<and>
    (\<forall>s \<in> set qs. same_rows (db_of m' s) (target s)) \<and> (\<forall>s. s \<notin> set qs \<longrightarrow> db_of m' s = db_of m s) \<and>
    mg_log m' = mg_log m"
  using assms
proof (induction qs arbitrary: m)
  case (Cons s qs)
  obtain m1 where m1: "recover_shard calm_recovery run r s m = (m1, Inr ())" "same_rows (db_of m1 s) (target s)"
      "\<forall>t. t \<noteq> s \<longrightarrow> db_of m1 t = db_of m t" "mg_parked m1 = {}" "mg_log m1 = mg_log m"
  proof (cases "has_marker (db_of m s) (tr_id r)")
    case True
    then have "recover_shard calm_recovery run r s m = (m, Inr ())"
      by (simp add: recover_shard_def has_applied_def db_of_def)
    with True Cons.prems that show thesis by (auto simp: recoverable_def)
  next
    case False
    with Cons.prems(3) obtain ss where ss: "statements_for r s = Some ss" "ss \<noteq> []" "tr_ddl r \<longrightarrow> length ss = 1"
        "accepts run ss (db_of m s)" "same_rows (effect run ss (tr_ddl r) (db_of m s)) (target s)"
      by (auto simp: recoverable_def)
    from recover_shard_calm [OF _ ss(1) False ss(4) ss(2,3)] Cons.prems(2) ss(5) that
    show thesis by (auto simp: same_rows_def)
  qed
  have "\<forall>t \<in> set qs. recoverable run r target m1 t"
  proof
    fix t
    assume t: "t \<in> set qs"
    then have "db_of m1 t = db_of m t" using Cons.prems(1) m1(3) by auto
    from recoverable_cong [OF this] show "recoverable run r target m1 t" using Cons.prems(3) t by auto
  qed
  with Cons.IH [of m1] Cons.prems(1) m1 obtain m' where m': "recover_shards calm_recovery run r qs m1 = (m', Inr ())"
      "\<forall>t \<in> set qs. same_rows (db_of m' t) (target t)" "\<forall>t. t \<notin> set qs \<longrightarrow> db_of m' t = db_of m1 t"
      "mg_log m' = mg_log m1" by auto
  moreover have "s \<notin> set qs" using Cons.prems(1) by simp
  ultimately show ?case using m1 by (intro exI [of _ m']) auto
qed auto

lemma db_of_restart_midway:
  "db_of (restart (midway new P D L m)) s = (if s \<in> D then new s else db_of m s)"
  by (simp add: restart_def db_of_def)

lemma statements_for_record:
  assumes "distinct (map fst ps)" and "(s, ss) \<in> set ps" and "\<forall>st \<in> set ss. sm_params st = []"
  shows "statements_for (record_of txn ps ddl) s = Some ss"
proof -
  have "map_of (map (\<lambda>(s, ss). (s, map sm_sql ss)) ps) s = Some (map sm_sql ss)"
    using assms(1,2) by (intro map_of_is_SomeI) (force simp: comp_def case_prod_beta)+
  moreover have "map statement_new (map sm_sql ss) = ss"
    using assms(3) by (induction ss) (auto simp: statement_new_def)
  ultimately show ?thesis by (simp add: statements_for_def record_of_def)
qed

text \<open>The happy path of the coordinator performs exactly its actions, in order.\<close>

lemma two_phase_runs_its_actions:
  assumes "well_posed run ps ddl m"
  shows "fst (two_phase calm_txn run ps ddl m) =
      run_actions run (mg_next m) ps ddl (txn_actions ps) (m\<lparr>mg_next := mg_next m + 1\<rparr>) \<and>
    (\<exists>out. two_phase calm_txn run ps ddl m =
      (midway (outcome_db run (mg_next m) ps ddl m) (fst ` set ps) (fst ` set ps) []
         (m\<lparr>mg_next := mg_next m + 1\<rparr>), Inr out))"
proof -
  define M where "M = m\<lparr>mg_next := mg_next m + 1\<rparr>"
  let ?t = "mg_next m" and ?all = "fst ` set ps" and ?L = "[(mg_next m, record_of (mg_next m) ps ddl)]"
  define new where "new = outcome_db run ?t ps ddl m"
  have same: "db_of M s = db_of m s" for s by (simp add: db_of_def M_def)
  have d: "distinct (map fst ps)" and i: "idle M" using assms by (auto simp: well_posed_def idle_def M_def)
  have acc: "\<forall>(s, ss) \<in> set ps. accepts run ss (db_of M s) \<and> new s = mark ?t (effect run ss ddl (db_of M s))"
    unfolding same new_def by (rule well_posed_new [OF assms])
  obtain os where
    p: "prepare_all calm_txn run ?t ddl ps M = (midway new ?all {} [] M, Inr (Inr os))"
      "run_actions run ?t ps ddl (map (\<lambda>(s, ss). ActPrepare s ss) ps) M = midway new ?all {} [] M"
    using prepares_midway [OF subset_refl d _ acc, of "{}" "[]", unfolded midway_start [OF i]] by auto
  have c: "commit_all calm_txn ps (midway new ?all {} ?L M) = (midway new ?all ?all ?L M, Inr ())"
    "run_actions run ?t ps ddl (map (\<lambda>(s, _). ActDecide s) ps) (midway new ?all {} ?L M) = midway new ?all ?all ?L M"
    using decides_midway [OF d subset_refl, of "{}" new ?L M run ?t ps ddl] by auto
  have put: "run_actions run ?t ps ddl [ActPut] (midway new ?all {} [] M) = midway new ?all {} ?L M"
    and rem: "run_actions run ?t ps ddl [ActRemove] (midway new ?all ?all ?L M) = midway new ?all ?all [] M"
    by (simp_all add: run_actions_def)
  have "run_actions run ?t ps ddl (txn_actions ps) M = midway new ?all ?all [] M"
    unfolding txn_actions_def run_actions_append p(2) put c(2) rem ..
  moreover have "two_phase calm_txn run ps ddl m =
      (midway new ?all ?all [] M, Inr (if ddl then Done (Changed 0 0) else combine_writes os))"
    unfolding two_phase_def Let_def M_def [symmetric] p(1) by (simp add: c(1))
  ultimately show ?thesis unfolding M_def [symmetric] new_def [symmetric] by (simp only: fst_conv) blast
qed

text \<open>Nothing recorded, nothing to do.\<close>

lemma recover_quiet:
  "recover_transactions e run (restart (midway new P D [] m)) = (restart (midway new P D [] m), Inr 0) \<and>
    txn_pending (restart (midway new P D [] m)) = []"
  by (simp add: recover_transactions_def txn_pending_def restart_def bt_values_def)

lemma outcome_rows:
  "well_posed run ps ddl m \<Longrightarrow> (s, ss) \<in> set ps \<Longrightarrow>
    same_rows (outcome_db run txn ps ddl m s) (effect run ss ddl (db_of m s))"
  using well_posed_new [of run ps ddl m txn] by (fastforce simp: same_rows_def mark_def)

lemma record_recoverable:
  assumes "ready run ps ddl m" and "(s, ss) \<in> set ps"
  shows "recoverable run (record_of (mg_next m) ps ddl) (\<lambda>s. effect run (the (map_of ps s)) ddl (db_of m s))
    (restart (midway (outcome_db run (mg_next m) ps ddl m) P D L m)) s"
proof -
  have ps: "distinct (map fst ps)" using assms(1) by (simp add: ready_def well_posed_def)
  then have the: "the (map_of ps s) = ss" using assms(2) by simp
  have r: "tr_id (record_of (mg_next m) ps ddl) = mg_next m" "tr_ddl (record_of (mg_next m) ps ddl) = ddl"
    by (simp_all add: record_of_def)
  have "ss \<noteq> []" "ddl \<longrightarrow> length ss = 1" "\<forall>st \<in> set ss. sm_params st = []" "accepts run ss (db_of m s)"
      "\<not> has_marker (db_of m s) (mg_next m)"
    using assms by (auto simp: ready_def well_posed_def)
  then show ?thesis
    using statements_for_record [OF ps assms(2), of "mg_next m" ddl] outcome_rows [OF _ assms(2), of run ddl m "mg_next m"] assms(1)
    by (cases "s \<in> D") (simp_all add: ready_def recoverable_def db_of_restart_midway the r outcome_db_def)
qed

lemma recover_decided:
  assumes "ready run ps ddl m" and "D \<subseteq> fst ` set ps"
  shows "\<exists>m'. recover_transactions calm_recovery run
      (restart (midway (outcome_db run (mg_next m) ps ddl m) P D [(mg_next m, record_of (mg_next m) ps ddl)] m)) = (m', Inr 1) \<and>
    txn_pending m' = [] \<and> (\<forall>(s, ss) \<in> set ps. same_rows (db_of m' s) (effect run ss ddl (db_of m s))) \<and>
    (\<forall>s. s \<notin> fst ` set ps \<longrightarrow> db_of m' s = db_of m s)"
proof -
  let ?r = "record_of (mg_next m) ps ddl"
  let ?target = "\<lambda>s. effect run (the (map_of ps s)) ddl (db_of m s)"
  define R where "R = restart (midway (outcome_db run (mg_next m) ps ddl m) P D [(mg_next m, ?r)] m)"
  have ps: "distinct (map fst ps)" using assms(1) by (simp add: ready_def well_posed_def)
  have rec: "\<forall>s \<in> set (map fst ps). recoverable run ?r ?target R s"
    using record_recoverable [OF assms(1)] by (auto simp: R_def)
  have R: "mg_parked R = {}" "mg_log R = [(mg_next m, ?r)]" by (simp_all add: R_def restart_def)
  from recover_shards_calm [OF ps R(1) rec] obtain m' where
    m': "recover_shards calm_recovery run ?r (map fst ps) R = (m', Inr ())"
      "\<forall>s \<in> set (map fst ps). same_rows (db_of m' s) (?target s)"
      "\<forall>s. s \<notin> set (map fst ps) \<longrightarrow> db_of m' s = db_of R s" "mg_log m' = mg_log R" by blast
  have parts: "map fst (tr_participants ?r) = map fst ps" "tr_decision ?r = Some CommitDecision"
      "tr_id ?r = mg_next m" by (simp_all add: record_of_def comp_def case_prod_beta)
  have "recover_transactions calm_recovery run R = (m'\<lparr>mg_log := []\<rparr>, Inr 1)"
    using m'(1,4) parts R(2)
    by (simp add: recover_transactions_def txn_pending_def bt_values_def txn_remove_def bt_remove_def)
  moreover have "db_of (m'\<lparr>mg_log := []\<rparr>) s = db_of m' s" for s by (simp add: db_of_def)
  moreover have "db_of R s = db_of m s" if "s \<notin> fst ` set ps" for s
    using that assms(2) by (auto simp: R_def db_of_restart_midway)
  ultimately show ?thesis
    unfolding R_def [symmetric] using m'(2,3) ps
    by (intro exI [of _ "m'\<lparr>mg_log := []\<rparr>"]) (auto simp: txn_pending_def bt_values_def)
qed

text \<open>
  (C8) A cross-shard write interrupted at any point is all or nothing. Stop the coordinator after any
  number of its durable actions, restart and recover: if the decision had been recorded every
  participant carries the write exactly once, otherwise none does; no other shard changes and no
  record is left. The conditions: at the start nothing is prepared and no record is left; the
  participants are distinct; each has at least one statement, exactly one for a schema change, every one
  accepted by SQLite and without bound parameters; no participant has a marker with the id the write
  gets; until the stop no action fails, and the gates are open and nothing fails during recovery.
\<close>

theorem interrupted_cross_shard_write_is_all_or_nothing:
  assumes "ready run ps ddl m"
  shows "\<exists>m' n. recover_transactions calm_recovery run
        (restart (run_actions run (mg_next m) ps ddl (take k (txn_actions ps)) m)) = (m', Inr n) \<and>
      txn_pending m' = [] \<and>
      (\<forall>(s, ss) \<in> set ps. same_rows (db_of m' s)
         (if length ps < k then effect run ss ddl (db_of m s) else db_of m s)) \<and>
      (\<forall>s. s \<notin> fst ` set ps \<longrightarrow> db_of m' s = db_of m s)"
proof -
  let ?t = "mg_next m" and ?new = "outcome_db run (mg_next m) ps ddl m" and ?all = "fst ` set ps"
  have wp: "well_posed run ps ddl m" using assms by (simp add: ready_def)
  obtain P D where D: "D \<subseteq> ?all" and st: "run_actions run ?t ps ddl (take k (txn_actions ps)) m =
      (if k \<le> length ps then midway ?new P {} [] m
       else if k \<le> 2 * length ps + 1 then midway ?new ?all D [(?t, record_of ?t ps ddl)] m
       else midway ?new ?all ?all [] m)"
    using run_actions_prefix [OF wp refl, of k] by blast
  have part: "s \<in> ?all" if "(s, ss) \<in> set ps" for s ss using that by force
  consider (before) "k \<le> length ps" | (decided) "length ps < k" "k \<le> 2 * length ps + 1" | (after) "2 * length ps + 1 < k"
    by linarith
  then show ?thesis
  proof cases
    case before
    then show ?thesis
      using recover_quiet [of calm_recovery run ?new P "{}" m] by (auto simp: st db_of_restart_midway)
  next
    case decided
    then show ?thesis using recover_decided [OF assms D, of ?all] by (auto simp: st)
  next
    case after
    then show ?thesis
      using recover_quiet [of calm_recovery run ?new ?all ?all m] outcome_rows [OF wp, of _ _ ?t] part
      by (auto simp: st db_of_restart_midway)
  qed
qed

definition demo_engine :: "(unit, string list) engine" where
  "demo_engine st d = Inr (Changed 1 0, d @ [sm_sql st])"

definition demo_parts :: "unit participants" where
  "demo_parts = [(0, [statement_new ''a'']), (1, [statement_new ''b''])]"

definition demo_manager :: "string list manager" where
  "demo_manager =
     \<lparr>mg_conns = (\<lambda>_. \<lparr>cx_db = \<lparr>db_data = [], db_markers = Some {}, db_version = 0\<rparr>, cx_open = None\<rparr>),
      mg_parked = {}, mg_log = [], mg_next = 1\<rparr>"

lemma demo_ready: "ready demo_engine demo_parts False demo_manager"
  by (simp add: ready_def well_posed_def idle_def demo_engine_def demo_parts_def demo_manager_def db_of_def
    accepts_def has_marker_def statement_new_def)

theorem interrupted_cross_shard_write_is_all_or_nothing_witness:
  "\<exists>m' n. recover_transactions calm_recovery demo_engine
      (restart (run_actions demo_engine 1 demo_parts False (take 4 (txn_actions demo_parts)) demo_manager)) = (m', Inr n) \<and>
    db_data (db_of m' 0) = [''a''] \<and> db_data (db_of m' 1) = [''b'']"
proof -
  have id: "mg_next demo_manager = 1" by (simp add: demo_manager_def)
  from interrupted_cross_shard_write_is_all_or_nothing [OF demo_ready, of 4, unfolded id] obtain m' n where
    "recover_transactions calm_recovery demo_engine
      (restart (run_actions demo_engine 1 demo_parts False (take 4 (txn_actions demo_parts)) demo_manager)) = (m', Inr n)"
    "\<forall>(s, ss) \<in> set demo_parts. same_rows (db_of m' s)
      (if length demo_parts < 4 then effect demo_engine ss False (db_of demo_manager s) else db_of demo_manager s)"
    by blast
  then show ?thesis
    by (intro exI [of _ m'] exI [of _ n])
      (simp add: demo_parts_def same_rows_def effect_def demo_engine_def demo_manager_def db_of_def statement_new_def)
qed

section \<open>What breaks it\<close>

text \<open>A participant whose gate has shut rolls back, and says the decision was carried out.\<close>

definition shut_env :: "error \<Rightarrow> shard_env" where
  "shut_env e = calm_env\<lparr>se_gate := Some e\<rparr>"

definition gate_shut_at :: "shard_id \<Rightarrow> error \<Rightarrow> txn_env" where
  "gate_shut_at t e = calm_txn\<lparr>te_decide := (\<lambda>s. if s = t then shut_env e else calm_env)\<rparr>"

lemma gate_shut_simps [simp]:
  "te_prepare (gate_shut_at t e) s = calm_env" "te_put (gate_shut_at t e) = None" "te_remove (gate_shut_at t e) = None"
  "te_decide (gate_shut_at t e) s = (if s = t then shut_env e else calm_env)"
  by (simp_all add: gate_shut_at_def)

lemma prepare_all_cong: "(\<And>s. te_prepare e s = te_prepare e' s) \<Longrightarrow> prepare_all e run txn ddl ps m = prepare_all e' run txn ddl ps m"
  by (induction ps arbitrary: m) (auto split: prod.splits sum.splits prepared.splits)

lemma rollback_midway:
  assumes "t \<in> P" and "t \<notin> D" and "cx_open (mg_conns m t) = None"
  shows "decide_shard (shut_env e) t True (midway new P D L m) = (midway new (P - {t}) D L m, Inr ())"
proof -
  have "decide_shard (shut_env e) t True (midway new P D L m) =
      (set_conn t ((mg_conns m t)\<lparr>cx_open := None\<rparr>) ((midway new P D L m)\<lparr>mg_parked := P - D - {t}\<rparr>), Inr ())"
    using assms(1,2) by (simp add: decide_shard_def shut_env_def finish_prepared_def Let_def)
  moreover have "set_conn t ((mg_conns m t)\<lparr>cx_open := None\<rparr>) ((midway new P D L m)\<lparr>mg_parked := P - D - {t}\<rparr>) =
      midway new (P - {t}) D L m"
    using assms by (intro manager_eqI) (auto simp: set_conn_def)
  ultimately show ?thesis by simp
qed

lemma commits_with_gate_shut:
  assumes "distinct (map fst qs)" and "fst ` set qs \<subseteq> P" and "fst ` set qs \<inter> D = {}"
    and "cx_open (mg_conns m t) = None"
  shows "commit_all (gate_shut_at t e) qs (midway new P D L m) =
    (midway new (P - ({t} \<inter> fst ` set qs)) (D \<union> (fst ` set qs - {t})) L m, Inr ())"
  using assms
proof (induction qs arbitrary: P D)
  case (Cons q qs)
  obtain s ss where q: "q = (s, ss)" by (cases q)
  show ?case
  proof (cases "s = t")
    case True
    then have "t \<notin> fst ` set qs" using Cons.prems(1) q by auto
    then have "fst ` set qs \<subseteq> P - {t}" using Cons.prems(2) q by auto
    with Cons.IH [of "P - {t}" D] Cons.prems True q \<open>t \<notin> fst ` set qs\<close> rollback_midway [of t P D m e new L]
    show ?thesis by auto
  next
    case False
    have "decide_shard calm_env s True (midway new P D L m) = (midway new P (insert s D) L m, Inr ())"
      using Cons.prems q by (intro decide_midway) auto
    moreover have "fst ` set qs \<inter> insert s D = {}" using Cons.prems q by auto
    ultimately show ?thesis
      using Cons.IH [of P "insert s D"] Cons.prems False q by (auto simp: insert_Diff_if Un_commute)
  qed
qed simp

text \<open>
  (C27) A node that loses a shard between the two phases breaks a cross-shard write without saying so:
  the shard's writer rolls its part back and reports the decision as carried out, the coordinator
  forgets the record and answers success, and every other participant keeps its part.
\<close>

theorem shut_gate_tears_a_cross_shard_write:
  assumes "well_posed run ps ddl m" and "t \<in> fst ` set ps"
  shows "\<exists>m' out. two_phase (gate_shut_at t e) run ps ddl m = (m', Inr out) \<and> txn_pending m' = [] \<and>
    db_of m' t = db_of m t \<and>
    (\<forall>(s, ss) \<in> set ps. s \<noteq> t \<longrightarrow> same_rows (db_of m' s) (effect run ss ddl (db_of m s)))"
proof -
  define M where "M = m\<lparr>mg_next := mg_next m + 1\<rparr>"
  let ?t = "mg_next m" and ?all = "fst ` set ps" and ?L = "[(mg_next m, record_of (mg_next m) ps ddl)]"
  let ?new = "outcome_db run ?t ps ddl m"
  have d: "distinct (map fst ps)" and i: "idle M" using assms(1) by (auto simp: well_posed_def idle_def M_def)
  have acc: "\<forall>(s, ss) \<in> set ps. accepts run ss (db_of M s) \<and> ?new s = mark ?t (effect run ss ddl (db_of M s))"
    using well_posed_new [OF assms(1), of ?t] by (simp add: db_of_def M_def)
  obtain os where p: "prepare_all (gate_shut_at t e) run ?t ddl ps M = (midway ?new ?all {} [] M, Inr (Inr os))"
    using prepares_midway [OF subset_refl d _ acc, of "{}" "[]", unfolded midway_start [OF i]]
      prepare_all_cong [of "gate_shut_at t e" calm_txn run ?t ddl ps M] by auto
  have c: "commit_all (gate_shut_at t e) ps (midway ?new ?all {} ?L M) =
      (midway ?new (?all - {t}) (?all - {t}) ?L M, Inr ())"
    using commits_with_gate_shut [OF d subset_refl, of "{}" M t e ?new ?L] assms(2) i by (simp add: idle_def)
  define M' where "M' = midway ?new (?all - {t}) (?all - {t}) [] M"
  have "\<exists>out. two_phase (gate_shut_at t e) run ps ddl m = (M', Inr out)"
    unfolding two_phase_def Let_def M_def [symmetric] p M'_def by (simp add: c)
  moreover have "db_of M' s = (if s \<in> ?all - {t} then ?new s else db_of m s)" for s
    by (simp add: M'_def db_of_def M_def)
  moreover have "txn_pending M' = []" by (simp add: M'_def txn_pending_def bt_values_def)
  moreover have "s \<in> ?all" if "(s, ss) \<in> set ps" for s ss using that by force
  ultimately show ?thesis using outcome_rows [OF assms(1)] by (intro exI [of _ M']) auto
qed

theorem shut_gate_tears_a_cross_shard_write_witness:
  "\<exists>m' out. two_phase (gate_shut_at 1 (NotLeader 5)) demo_engine demo_parts False demo_manager = (m', Inr out) \<and>
    txn_pending m' = [] \<and> db_data (db_of m' 0) = [''a''] \<and> db_data (db_of m' 1) = []"
proof -
  have "well_posed demo_engine demo_parts False demo_manager" using demo_ready by (simp add: ready_def)
  from shut_gate_tears_a_cross_shard_write [OF this, of 1 "NotLeader 5"] show ?thesis
    by (auto simp: demo_parts_def same_rows_def effect_def demo_engine_def demo_manager_def db_of_def statement_new_def)
qed

text \<open>
  A restart forgets which ids were used: the records of finished writes are gone and their markers
  are not.
\<close>

lemma finished_ids_come_back:
  assumes "well_posed run ps ddl m" and "m1 = restart (fst (two_phase calm_txn run ps ddl m))"
  shows "mg_next m1 = 1 \<and> idle m1 \<and> (\<forall>s \<in> fst ` set ps. has_marker (db_of m1 s) (mg_next m)) \<and>
    (\<forall>(s, ss) \<in> set ps. same_rows (db_of m1 s) (effect run ss ddl (db_of m s)))"
proof -
  let ?new = "outcome_db run (mg_next m) ps ddl m" and ?all = "fst ` set ps"
  from two_phase_runs_its_actions [OF assms(1)] have
    m1: "m1 = restart (midway ?new ?all ?all [] (m\<lparr>mg_next := mg_next m + 1\<rparr>))" using assms(2) by auto
  have "has_marker (db_of m1 s) (mg_next m)" if "s \<in> ?all" for s
    using that by (simp add: m1 db_of_restart_midway outcome_db_def)
  moreover have "same_rows (db_of m1 s) (effect run ss ddl (db_of m s))" if "(s, ss) \<in> set ps" for s ss
  proof -
    have "s \<in> ?all" using that by force
    then show ?thesis using outcome_rows [OF assms(1) that] by (simp add: m1 db_of_restart_midway)
  qed
  ultimately show ?thesis
    by (auto simp: m1 idle_def restart_def next_id_after_recovery_def txn_pending_def bt_values_def)
qed

lemma decided_first:
  assumes "well_posed run [(s, ss), (t, ts)] ddl m"
  shows "run_actions run (mg_next m) [(s, ss), (t, ts)] ddl (take 4 (txn_actions [(s, ss), (t, ts)])) m =
    midway (outcome_db run (mg_next m) [(s, ss), (t, ts)] ddl m) {s, t} {s}
      [(mg_next m, record_of (mg_next m) [(s, ss), (t, ts)] ddl)] m"
proof -
  let ?ps = "[(s, ss), (t, ts)]" and ?x = "mg_next m"
  let ?new = "outcome_db run ?x ?ps ddl m" and ?L = "[(mg_next m, record_of (mg_next m) [(s, ss), (t, ts)] ddl)]"
  have d: "distinct (map fst ?ps)" and i: "idle m" using assms by (auto simp: well_posed_def)
  have p: "run_actions run ?x ?ps ddl (map (\<lambda>(s, ss). ActPrepare s ss) ?ps) m = midway ?new {s, t} {} [] m"
    using prepares_midway [OF subset_refl d _ well_posed_new [OF assms, of ?x], of "{}" "[]", unfolded midway_start [OF i]]
    by auto
  have c: "run_actions run ?x ?ps ddl (map (\<lambda>(s, _). ActDecide s) [(s, ss)]) (midway ?new {s, t} {} ?L m) =
      midway ?new {s, t} {s} ?L m"
    using decides_midway [of "[(s, ss)]" "{s, t}" "{}" ?new ?L m run ?x ?ps ddl] by auto
  have put: "run_actions run ?x ?ps ddl [ActPut] (midway ?new {s, t} {} [] m) = midway ?new {s, t} {} ?L m"
    by (simp add: run_actions_def)
  have "take 4 (txn_actions ?ps) = map (\<lambda>(s, ss). ActPrepare s ss) ?ps @ [ActPut] @ map (\<lambda>(s, _). ActDecide s) [(s, ss)]"
    by (simp add: txn_actions_def)
  then show ?thesis by (simp only: run_actions_append p put c)
qed

text \<open>
  (C28) A transaction id used again makes recovery lose half a write. Once a cross-shard write has
  finished and the node has restarted, the first id comes round again while its markers stay; a
  later write with that id, interrupted after its decision and its first commit, is taken for applied
  on every shard that has the old marker: recovery succeeds, the record is dropped, one participant
  carries the write and the other never does.
\<close>

theorem reused_id_loses_half_a_write:
  assumes "well_posed run ps ddl m" and "mg_next m = 1" and "t \<in> fst ` set ps"
    and "m1 = restart (fst (two_phase calm_txn run ps ddl m))"
    and "well_posed run [(s, ss), (t, ts)] ddl' m1"
  shows "\<exists>m'. recover_transactions calm_recovery run
        (restart (run_actions run (mg_next m1) [(s, ss), (t, ts)] ddl' (take 4 (txn_actions [(s, ss), (t, ts)])) m1)) = (m', Inr 1) \<and>
      txn_pending m' = [] \<and> same_rows (db_of m' s) (effect run ss ddl' (db_of m1 s)) \<and> db_of m' t = db_of m1 t"
proof -
  let ?r = "record_of (mg_next m1) [(s, ss), (t, ts)] ddl'" and ?new = "outcome_db run (mg_next m1) [(s, ss), (t, ts)] ddl' m1"
  define R where "R = restart (midway ?new {s, t} {s} [(mg_next m1, ?r)] m1)"
  have st: "s \<noteq> t" using assms(5) by (simp add: well_posed_def)
  have marker: "has_marker (db_of m1 t) (mg_next m1)" "mg_next m1 = 1"
    using finished_ids_come_back [OF assms(1,4)] assms(2,3) by auto
  have db: "db_of R x = (if x = s then ?new s else db_of m1 x)" for x by (simp add: R_def db_of_restart_midway)
  have "has_marker (db_of R s) (mg_next m1)" "has_marker (db_of R t) (mg_next m1)"
    using marker st by (simp_all add: db outcome_db_def)
  then have "recover_shards calm_recovery run ?r [s, t] R = (R, Inr ())"
    by (simp add: recover_shard_def has_applied_def db_of_def record_of_def)
  moreover have "mg_log R = [(mg_next m1, ?r)]" by (simp add: R_def restart_def)
  moreover have "map fst (tr_participants ?r) = [s, t]" "tr_decision ?r = Some CommitDecision" "tr_id ?r = mg_next m1"
    by (simp_all add: record_of_def)
  ultimately have rec: "recover_transactions calm_recovery run R = (R\<lparr>mg_log := []\<rparr>, Inr 1)"
    by (simp add: recover_transactions_def txn_pending_def bt_values_def txn_remove_def bt_remove_def)
  have "db_of (R\<lparr>mg_log := []\<rparr>) x = db_of R x" for x by (simp add: db_of_def)
  with db st rec outcome_rows [OF assms(5), of s ss "mg_next m1"] show ?thesis
    unfolding decided_first [OF assms(5)] R_def [symmetric]
    by (intro exI [of _ "R\<lparr>mg_log := []\<rparr>"]) (simp add: txn_pending_def bt_values_def)
qed

theorem reused_id_loses_half_a_write_witness:
  "\<exists>m1 m'. m1 = restart (fst (two_phase calm_txn demo_engine demo_parts False demo_manager)) \<and>
    recover_transactions calm_recovery demo_engine
      (restart (run_actions demo_engine 1 demo_parts False (take 4 (txn_actions demo_parts)) m1)) = (m', Inr 1) \<and>
    db_data (db_of m' 0) = [''a'', ''a''] \<and> db_data (db_of m' 1) = [''b'']"
proof -
  define m1 where "m1 = restart (fst (two_phase calm_txn demo_engine demo_parts False demo_manager))"
  have wp: "well_posed demo_engine demo_parts False demo_manager" using demo_ready by (simp add: ready_def)
  have again: "mg_next m1 = 1" "idle m1" using finished_ids_come_back [OF wp m1_def] by auto
  have rows: "db_data (db_of m1 0) = [''a'']" "db_data (db_of m1 1) = [''b'']"
    using finished_ids_come_back [OF wp m1_def]
    by (simp_all add: same_rows_def effect_def demo_parts_def demo_engine_def demo_manager_def db_of_def statement_new_def)
  have wp1: "well_posed demo_engine [(0, [statement_new ''a'']), (1, [statement_new ''b''])] False m1"
    using again(2) by (simp add: well_posed_def accepts_def demo_engine_def statement_new_def)
  have "mg_next demo_manager = 1" "1 \<in> fst ` set demo_parts" by (simp_all add: demo_manager_def demo_parts_def)
  from reused_id_loses_half_a_write [OF wp this m1_def wp1] show ?thesis
    unfolding m1_def [symmetric] again(1) demo_parts_def [symmetric]
    using rows by (auto simp: same_rows_def effect_def demo_engine_def statement_new_def)
qed

text \<open>
  A decision that cannot be recorded is not told to anyone: every participant stays parked, and a
  later write to one of them is never answered.
\<close>

lemma failed_record_parks_every_participant:
  assumes "well_posed run ps ddl m" and "s \<in> fst ` set ps"
  shows "\<exists>m'. two_phase (calm_txn\<lparr>te_put := Some e\<rparr>) run ps ddl m = (m', Inl e) \<and> mg_parked m' = fst ` set ps \<and>
    execute_atomic calm_env run s ss m' = (m', Inl (WriterUnavailable ''held behind a parked shard''))"
proof -
  define M where "M = m\<lparr>mg_next := mg_next m + 1\<rparr>"
  let ?t = "mg_next m" and ?all = "fst ` set ps"
  let ?new = "outcome_db run ?t ps ddl m"
  have d: "distinct (map fst ps)" and i: "idle M" using assms(1) by (auto simp: well_posed_def idle_def M_def)
  have acc: "\<forall>(s, ss) \<in> set ps. accepts run ss (db_of M s) \<and> ?new s = mark ?t (effect run ss ddl (db_of M s))"
    using well_posed_new [OF assms(1), of ?t] by (simp add: db_of_def M_def)
  obtain os where p: "prepare_all (calm_txn\<lparr>te_put := Some e\<rparr>) run ?t ddl ps M = (midway ?new ?all {} [] M, Inr (Inr os))"
    using prepares_midway [OF subset_refl d _ acc, of "{}" "[]", unfolded midway_start [OF i]]
      prepare_all_cong [of "calm_txn\<lparr>te_put := Some e\<rparr>" calm_txn run ?t ddl ps M] by auto
  then have "two_phase (calm_txn\<lparr>te_put := Some e\<rparr>) run ps ddl m = (midway ?new ?all {} [] M, Inl e)"
    unfolding two_phase_def Let_def M_def [symmetric] by (simp add: txn_put_def)
  then show ?thesis using assms(2) by (simp add: execute_atomic_def)
qed

text \<open>Recovery writes through the same gate, which is shut when a cluster node opens.\<close>

lemma shut_gate_refuses_recovery:
  fixes run :: "('v, 'd) engine" and ss :: "'v statement list"
  assumes "\<not> has_marker (db_of m s) (tr_id r)" and "statements_for r s = Some ss" and "ss \<noteq> []"
    and "se_gate (re_apply e s) = Some err" and "se_send (re_apply e s) = None" and "se_open (re_apply e s) = None"
    and "s \<notin> mg_parked m"
  shows "recover_shards e run r (s # qs) m = (m, Inl err)"
  using assms
  by (simp add: recover_shard_def has_applied_def db_of_def single_def schema_op_def execute_atomic_def refused_def)

end
