(* ===== verification/Shard_Cache.thy ===== *)
theory Shard_Cache
  imports BTree
begin

text \<open>
  The cache of open connections, \<^verbatim>\<open>Lru\<close> of \<^verbatim>\<open>src/src/shard/lru.rs\<close>: what it keeps, and that
  it is a list of the most recently used shards cut at the capacity. The hash map's order plays no
  part: ticks are distinct, so the entry with the least tick is one entry.
\<close>

section \<open>The cache\<close>

record cache_event =
  ev_opened :: bool
  ev_evicted :: u64

definition cache_event_default :: cache_event where
  "cache_event_default = \<lparr>ev_opened = False, ev_evicted = 0\<rparr>"

record 'v lru =
  lr_capacity :: nat
  lr_tick :: u64
  lr_entries :: "(shard_id, u64 \<times> 'v) btree"
  lr_evictions :: u64
  lr_opens :: u64

definition lru_new :: "nat \<Rightarrow> 'v lru result" where
  "lru_new capacity =
     (if capacity = 0 then Inl (Panicked ''an LRU with no capacity can hold nothing'')
      else Inr \<lparr>lr_capacity = capacity, lr_tick = 0, lr_entries = [], lr_evictions = 0, lr_opens = 0\<rparr>)"

definition lru_contains :: "'v lru \<Rightarrow> shard_id \<Rightarrow> bool" where
  "lru_contains l i = bt_mem (lr_entries l) i"

definition lru_peek :: "'v lru \<Rightarrow> shard_id \<Rightarrow> 'v option" where
  "lru_peek l i = map_option snd (bt_get (lr_entries l) i)"

definition lru_remove :: "shard_id \<Rightarrow> 'v lru \<Rightarrow> 'v lru \<times> 'v option" where
  "lru_remove i l = (l\<lparr>lr_entries := bt_remove i (lr_entries l)\<rparr>, lru_peek l i)"

text \<open>A change through the reference that \<^verbatim>\<open>get_or_open\<close> returns.\<close>

definition lru_set :: "shard_id \<Rightarrow> 'v \<Rightarrow> 'v lru \<Rightarrow> 'v lru" where
  "lru_set i v l = l\<lparr>lr_entries := bt_adjust i (\<lambda>(t, _). (t, v)) (lr_entries l)\<rparr>"

definition colder :: "shard_id \<times> u64 \<times> 'v \<Rightarrow> shard_id \<times> u64 \<times> 'v \<Rightarrow> shard_id \<times> u64 \<times> 'v" where
  "colder best e = (if fst (snd e) < fst (snd best) then e else best)"

definition coldest :: "'v lru \<Rightarrow> shard_id option" where
  "coldest l = (case lr_entries l of [] \<Rightarrow> None | e # es \<Rightarrow> Some (fst (foldl colder e es)))"

lemma foldl_colder:
  "foldl colder e es \<in> set (e # es) \<and> (\<forall>x \<in> set (e # es). fst (snd (foldl colder e es)) \<le> fst (snd x))"
proof (induction es arbitrary: e)
  case (Cons x es)
  from Cons.IH [of "colder e x"] show ?case by (auto simp: colder_def)
qed simp

lemma coldest_mem: "coldest l = Some i \<Longrightarrow> i \<in> fst ` set (lr_entries l)"
  using foldl_colder [of "hd (lr_entries l)" "tl (lr_entries l)"]
  by (cases "lr_entries l") (auto simp: coldest_def simp del: set_simps list.set)

lemma length_bt_remove: "i \<in> fst ` set m \<Longrightarrow> length (bt_remove i m) < length m"
  unfolding bt_remove_def by (auto intro: length_filter_less)

function make_room :: "'v lru \<Rightarrow> u64 \<Rightarrow> 'v lru \<times> u64" where
  "make_room l evicted =
     (if lr_capacity l \<le> length (lr_entries l)
      then case coldest l of
             None \<Rightarrow> (l, evicted)
           | Some victim \<Rightarrow>
               make_room (l\<lparr>lr_entries := bt_remove victim (lr_entries l), lr_evictions := lr_evictions l + 1\<rparr>)
                 (evicted + 1)
      else (l, evicted))"
  by pat_completeness auto

termination make_room
  by (relation "measure (\<lambda>(l, _). length (lr_entries l))") (auto dest: coldest_mem intro: length_bt_remove)

declare make_room.simps [simp del]

text \<open>\<open>opened\<close> is what opening the connection gives; it is only looked at when there is no entry.\<close>

definition get_or_open :: "shard_id \<Rightarrow> 'v result \<Rightarrow> 'v lru \<Rightarrow> 'v lru \<times> ('v \<times> cache_event) result" where
  "get_or_open i opened l =
     (let now = lr_tick l + 1; l = l\<lparr>lr_tick := now\<rparr> in
      case bt_get (lr_entries l) i of
        Some (_, v) \<Rightarrow> (l\<lparr>lr_entries := bt_insert i (now, v) (lr_entries l)\<rparr>, Inr (v, cache_event_default))
      | None \<Rightarrow>
          (case make_room l 0 of
             (l, evicted) \<Rightarrow>
               (case opened of
                  Inl e \<Rightarrow> (l, Inl e)
                | Inr v \<Rightarrow>
                    (l\<lparr>lr_entries := bt_insert i (now, v) (lr_entries l), lr_opens := lr_opens l + 1\<rparr>,
                     Inr (v, \<lparr>ev_opened = True, ev_evicted = evicted\<rparr>)))))"

section \<open>What the fleets rely on\<close>

text \<open>
  A fleet that keeps its connections in a cache relies on this: an access gives the cached value or
  the one just opened, and the other values stay or go but never change.
\<close>

locale connection_cache =
  fixes access :: "shard_id \<Rightarrow> 'v result \<Rightarrow> 'c \<Rightarrow> 'c \<times> ('v \<times> cache_event) result"
    and look :: "'c \<Rightarrow> shard_id \<Rightarrow> 'v option"
    and forget :: "shard_id \<Rightarrow> 'c \<Rightarrow> 'c \<times> 'v option"
  assumes access_hit: "access i opened c = (c', r) \<Longrightarrow> look c i = Some v \<Longrightarrow>
      r = Inr (v, cache_event_default) \<and> look c' i = Some v"
    and access_miss: "access i opened c = (c', r) \<Longrightarrow> look c i = None \<Longrightarrow>
      (case opened of Inl e \<Rightarrow> r = Inl e \<and> look c' i = None
       | Inr v \<Rightarrow> (\<exists>n. r = Inr (v, \<lparr>ev_opened = True, ev_evicted = n\<rparr>)) \<and> look c' i = Some v)"
    and access_other: "access i opened c = (c', r) \<Longrightarrow> k \<noteq> i \<Longrightarrow> look c' k = look c k \<or> look c' k = None"
    and forget_look: "forget i c = (c', old) \<Longrightarrow> look c' k = (if k = i then None else look c k) \<and> old = look c i"
begin

text \<open>A property of the values that opening establishes holds of everything in the cache.\<close>

lemma access_keeps:
  assumes "access i opened c = (c', r)" and "\<And>k v. look c k = Some v \<Longrightarrow> P k v"
    and "\<And>v. opened = Inr v \<Longrightarrow> P i v" and "look c' k = Some v"
  shows "P k v"
proof (cases "k = i")
  case True
  show ?thesis
  proof (cases "look c i")
    case None
    from access_miss [OF assms(1) None] assms(3,4) True show ?thesis by (auto split: sum.splits)
  next
    case (Some w)
    from access_hit [OF assms(1) Some] assms(2) [OF Some] assms(4) True show ?thesis by simp
  qed
next
  case False
  from access_other [OF assms(1) this] assms(2,4) show ?thesis by auto
qed

lemma access_gives:
  assumes "access i opened c = (c', Inr (v, ev))"
  shows "look c' i = Some v \<and> (look c i = Some v \<or> look c i = None \<and> opened = Inr v)"
proof (cases "look c i")
  case None
  from access_miss [OF assms None] None show ?thesis by (auto split: sum.splits)
next
  case (Some w)
  from access_hit [OF assms Some] Some show ?thesis by auto
qed

end

lemma make_room_get:
  "make_room l n = (l', n') \<Longrightarrow> bt_get (lr_entries l') k = bt_get (lr_entries l) k \<or> bt_get (lr_entries l') k = None"
proof (induction l n arbitrary: l' n' rule: make_room.induct)
  case (1 l n)
  show ?case
  proof (cases "lr_capacity l \<le> length (lr_entries l) \<and> coldest l \<noteq> None")
    case True
    then obtain v where v: "coldest l = Some v" by blast
    let ?l = "l\<lparr>lr_entries := bt_remove v (lr_entries l), lr_evictions := lr_evictions l + 1\<rparr>"
    have "make_room ?l (n + 1) = (l', n')"
      using "1.prems" True v by (subst (asm) make_room.simps) simp
    from "1.IH" [OF _ v this] True show ?thesis by (auto split: if_splits)
  next
    case False
    then have "l' = l" using "1.prems" by (subst (asm) make_room.simps) (auto split: if_splits option.splits)
    then show ?thesis by simp
  qed
qed

interpretation lru: connection_cache get_or_open lru_peek lru_remove
proof
  fix i :: shard_id and opened :: "'v result" and l l' :: "'v lru" and r v k
  assume a: "get_or_open i opened l = (l', r)"
  show "r = Inr (v, cache_event_default) \<and> lru_peek l' i = Some v" if "lru_peek l i = Some v"
    using a that by (auto simp: get_or_open_def lru_peek_def Let_def)
  obtain q n where q: "make_room (l\<lparr>lr_tick := lr_tick l + 1\<rparr>) 0 = (q, n)" by fastforce
  note room = make_room_get [OF q]
  show "case opened of Inl e \<Rightarrow> r = Inl e \<and> lru_peek l' i = None
      | Inr v \<Rightarrow> (\<exists>n. r = Inr (v, \<lparr>ev_opened = True, ev_evicted = n\<rparr>)) \<and> lru_peek l' i = Some v"
    if "lru_peek l i = None"
    using a that q room [of i] by (auto simp: get_or_open_def lru_peek_def Let_def split: sum.splits)
  show "lru_peek l' k = lru_peek l k \<or> lru_peek l' k = None" if "k \<noteq> i"
    using a that q room [of k]
    by (auto simp: get_or_open_def lru_peek_def Let_def split: sum.splits option.splits)
next
  fix i k :: shard_id and l l' :: "'v lru" and old
  assume "lru_remove i l = (l', old)"
  then show "lru_peek l' k = (if k = i then None else lru_peek l k) \<and> old = lru_peek l i"
    by (auto simp: lru_remove_def lru_peek_def)
qed

section \<open>Its invariant\<close>

definition tick_of :: "'v lru \<Rightarrow> shard_id \<Rightarrow> u64" where
  "tick_of l i = (case bt_get (lr_entries l) i of Some (t, _) \<Rightarrow> t | None \<Rightarrow> 0)"

definition keys :: "'v lru \<Rightarrow> shard_id set" where
  "keys l = {i. bt_mem (lr_entries l) i}"

definition lru_wf :: "'v lru \<Rightarrow> bool" where
  "lru_wf l \<longleftrightarrow>
     0 < lr_capacity l \<and> bt_wf (lr_entries l) \<and> length (lr_entries l) \<le> lr_capacity l \<and>
     (\<forall>i \<in> keys l. tick_of l i \<le> lr_tick l) \<and> inj_on (tick_of l) (keys l)"

lemma card_keys: "bt_wf (lr_entries l) \<Longrightarrow> card (keys l) = length (lr_entries l)"
proof -
  assume "bt_wf (lr_entries l)"
  then have "distinct (map fst (lr_entries l))" by (rule bt_wf_distinct)
  moreover have "keys l = set (map fst (lr_entries l))" by (auto simp: keys_def bt_mem_iff)
  ultimately show ?thesis by (metis distinct_card length_map)
qed

lemma finite_keys [simp]: "finite (keys l)"
proof -
  have "keys l = set (map fst (lr_entries l))" by (auto simp: keys_def bt_mem_iff)
  then show ?thesis by simp
qed

lemma keys_entries [simp]:
  "keys (l\<lparr>lr_entries := bt_insert i v m\<rparr>) = insert i (keys (l\<lparr>lr_entries := m\<rparr>))"
  "keys (l\<lparr>lr_entries := bt_remove i m\<rparr>) = keys (l\<lparr>lr_entries := m\<rparr>) - {i}"
  "keys (l\<lparr>lr_entries := bt_adjust i f m\<rparr>) = keys (l\<lparr>lr_entries := m\<rparr>)"
  "keys (l\<lparr>lr_tick := t\<rparr>) = keys l" "keys (l\<lparr>lr_opens := n\<rparr>) = keys l" "keys (l\<lparr>lr_evictions := n\<rparr>) = keys l"
  by (auto simp: keys_def)

lemma tick_of_fields [simp]:
  "tick_of (l\<lparr>lr_tick := t\<rparr>) = tick_of l" "tick_of (l\<lparr>lr_opens := n\<rparr>) = tick_of l"
  "tick_of (l\<lparr>lr_evictions := n\<rparr>) = tick_of l"
  by (auto simp: tick_of_def)

lemma tick_of_entries [simp]:
  "tick_of (l\<lparr>lr_entries := bt_insert i (t, v) (lr_entries l)\<rparr>) k = (if k = i then t else tick_of l k)"
  "k \<noteq> i \<Longrightarrow> tick_of (l\<lparr>lr_entries := bt_remove i (lr_entries l)\<rparr>) k = tick_of l k"
  by (auto simp: tick_of_def)

lemma tick_of_set [simp]: "tick_of (lru_set i v l) k = tick_of l k"
  by (auto simp: tick_of_def lru_set_def split: option.splits)

lemma coldest_least:
  assumes "bt_wf (lr_entries l)" and "coldest l = Some i" and "k \<in> keys l"
  shows "i \<in> keys l \<and> tick_of l i \<le> tick_of l k"
proof -
  obtain e es where m: "lr_entries l = e # es" and i: "i = fst (foldl colder e es)"
    using assms(2) by (auto simp: coldest_def split: list.splits)
  let ?e = "foldl colder e es"
  from foldl_colder [of e es] have e: "?e \<in> set (lr_entries l)" and least: "\<forall>x \<in> set (lr_entries l). fst (snd ?e) \<le> fst (snd x)"
    by (simp_all add: m)
  have "bt_get (lr_entries l) i = Some (snd ?e)"
    using bt_mem_get [OF assms(1), of i "snd ?e"] e i by simp
  then have "tick_of l i = fst (snd ?e)" "i \<in> keys l"
    by (auto simp: tick_of_def keys_def bt_mem_def split: prod.splits)
  moreover obtain v where "bt_get (lr_entries l) k = Some v"
    using assms(3) by (auto simp: keys_def bt_mem_def)
  then have "(k, v) \<in> set (lr_entries l)" "tick_of l k = fst v"
    by (auto simp: tick_of_def dest: bt_get_mem split: prod.splits)
  ultimately show ?thesis using least by fastforce
qed

section \<open>A list of the most recently used\<close>

definition recency :: "'v lru \<Rightarrow> shard_id list" where
  "recency l = rev (sort_key (tick_of l) (map fst (lr_entries l)))"

lemma keys_set: "keys l = set (map fst (lr_entries l))"
  by (auto simp: keys_def bt_mem_iff)

lemma strictly_sorted_unique:
  assumes "sorted_wrt (\<lambda>a b. (f b :: u64) < f a) xs" and "sorted_wrt (\<lambda>a b. f b < f a) ys" and "set xs = set ys"
  shows "xs = ys"
  using assms
proof (induction xs arbitrary: ys)
  case (Cons x xs)
  from Cons.prems(3) obtain y ys' where ys: "ys = y # ys'" by (cases ys) auto
  have "x = y"
  proof (rule ccontr)
    assume "x \<noteq> y"
    with Cons.prems(3) ys have "x \<in> set ys'" "y \<in> set xs" by auto
    with Cons.prems(1,2) ys have "f x < f y" "f y < f x" by auto
    then show False by simp
  qed
  moreover have "x \<notin> set xs" "y \<notin> set ys'" using Cons.prems(1,2) ys by auto
  ultimately have "set xs = set ys'" using Cons.prems(3) ys by auto
  with Cons.IH [of ys'] Cons.prems(1,2) ys \<open>x = y\<close> show ?case by simp
qed simp

lemma recency_sorted:
  assumes "lru_wf l"
  shows "set (recency l) = keys l" and "sorted_wrt (\<lambda>a b. tick_of l b < tick_of l a) (recency l)"
proof -
  let ?k = "map fst (lr_entries l)"
  show "set (recency l) = keys l" by (simp add: recency_def keys_set)
  have inj: "inj_on (tick_of l) (set ?k)" and "distinct ?k"
    using assms by (auto simp: lru_wf_def keys_set bt_wf_distinct)
  then have "distinct (map (tick_of l) (sort_key (tick_of l) ?k))"
    by (simp add: distinct_map)
  then have "sorted_wrt (<) (map (tick_of l) (sort_key (tick_of l) ?k))"
    by (simp add: strict_sorted_iff)
  then show "sorted_wrt (\<lambda>a b. tick_of l b < tick_of l a) (recency l)"
    by (simp add: recency_def sorted_wrt_rev sorted_wrt_map)
qed

lemma recency_eqI:
  "lru_wf l \<Longrightarrow> set xs = keys l \<Longrightarrow> sorted_wrt (\<lambda>a b. tick_of l b < tick_of l a) xs \<Longrightarrow> recency l = xs"
  using recency_sorted strictly_sorted_unique by metis

lemma length_recency: "length (recency l) = length (lr_entries l)"
  by (simp add: recency_def)

lemma distinct_recency: "lru_wf l \<Longrightarrow> distinct (recency l)"
  by (simp add: recency_def lru_wf_def bt_wf_distinct)

lemma coldest_is_last:
  assumes "lru_wf l" and "lr_entries l \<noteq> []"
  shows "coldest l = Some (last (recency l))"
proof -
  obtain i where i: "coldest l = Some i"
    using assms(2) by (cases "lr_entries l") (auto simp: coldest_def)
  have ne: "recency l \<noteq> []" using assms(2) length_recency [of l] by auto
  let ?j = "last (recency l)"
  have j: "?j \<in> keys l" using ne recency_sorted(1) [OF assms(1)] last_in_set by blast
  have wf: "bt_wf (lr_entries l)" using assms(1) by (simp add: lru_wf_def)
  have "i \<in> keys l" "tick_of l i \<le> tick_of l ?j" using coldest_least [OF wf i j] by auto
  moreover have "tick_of l ?j \<le> tick_of l i"
  proof -
    from ne have split: "recency l = butlast (recency l) @ [?j]" by simp
    have "i \<in> set (butlast (recency l)) \<or> i = ?j"
      using \<open>i \<in> keys l\<close> recency_sorted(1) [OF assms(1)] split by (metis UnE append_Nil2 in_set_conv_decomp set_append set_ConsD empty_iff empty_set)
    moreover have "sorted_wrt (\<lambda>a b. tick_of l b < tick_of l a) (butlast (recency l) @ [?j])"
      using recency_sorted(2) [OF assms(1)] split by simp
    ultimately show ?thesis by (auto simp: sorted_wrt_append)
  qed
  ultimately have "i = ?j" using assms(1) j by (auto simp: lru_wf_def inj_on_def)
  with i show ?thesis by simp
qed

lemma lru_wf_remove:
  assumes "lru_wf l"
  shows "lru_wf (l\<lparr>lr_entries := bt_remove i (lr_entries l)\<rparr>)"
    and "recency (l\<lparr>lr_entries := bt_remove i (lr_entries l)\<rparr>) = filter (\<lambda>k. k \<noteq> i) (recency l)"
proof -
  let ?l = "l\<lparr>lr_entries := bt_remove i (lr_entries l)\<rparr>"
  have k: "keys ?l = keys l - {i}" by simp
  have len: "length (bt_remove i (lr_entries l)) \<le> length (lr_entries l)" by (simp add: bt_remove_def)
  show wf: "lru_wf ?l"
    using assms len unfolding lru_wf_def k by (auto simp: inj_on_def)
  have "sorted_wrt (\<lambda>a b. tick_of ?l b < tick_of ?l a) (filter (\<lambda>k. k \<noteq> i) (recency l))"
    using sorted_wrt_filter [OF recency_sorted(2) [OF assms]] by (rule sorted_wrt_mono_rel [rotated]) auto
  then show "recency ?l = filter (\<lambda>k. k \<noteq> i) (recency l)"
    by (intro recency_eqI [OF wf]) (auto simp: k recency_sorted(1) [OF assms])
qed

lemma recency_fields [simp]:
  "recency (l\<lparr>lr_tick := t\<rparr>) = recency l" "recency (l\<lparr>lr_opens := n\<rparr>) = recency l"
  "recency (l\<lparr>lr_evictions := n\<rparr>) = recency l"
  by (simp_all add: recency_def)

lemma lru_wf_fields [simp]:
  "lru_wf (l\<lparr>lr_opens := n\<rparr>) = lru_wf l" "lru_wf (l\<lparr>lr_evictions := n\<rparr>) = lru_wf l"
  by (simp_all add: lru_wf_def)

lemma lru_wf_tick:
  assumes "lru_wf l" and "lr_tick l \<noteq> - 1"
  shows "lru_wf (l\<lparr>lr_tick := lr_tick l + 1\<rparr>)"
proof -
  have "lr_tick l < lr_tick l + 1" using assms(2) by (rule word_succ_greater)
  with assms(1) show ?thesis unfolding lru_wf_def by (fastforce intro: order_trans less_imp_le)
qed

lemma filter_ne_last:
  "distinct xs \<Longrightarrow> xs \<noteq> [] \<Longrightarrow> filter (\<lambda>k. k \<noteq> last xs) xs = butlast xs"
  by (induction xs rule: rev_induct) (auto simp: filter_id_conv)

lemma make_room_effect:
  assumes "lru_wf l"
  shows "\<exists>l' n. make_room l 0 = (l', n) \<and> lru_wf l' \<and> recency l' = take (lr_capacity l - 1) (recency l) \<and>
    lr_capacity l' = lr_capacity l \<and> lr_tick l' = lr_tick l \<and>
    (\<forall>k \<in> set (recency l'). bt_get (lr_entries l') k = bt_get (lr_entries l) k)"
proof (cases "length (lr_entries l) = lr_capacity l")
  case False
  then have less: "length (lr_entries l) < lr_capacity l" using assms by (simp add: lru_wf_def)
  then have "make_room l 0 = (l, 0)" by (subst make_room.simps) simp
  moreover have "take (lr_capacity l - 1) (recency l) = recency l" using less by (simp add: length_recency)
  ultimately show ?thesis using assms by auto
next
  case True
  let ?v = "last (recency l)"
  let ?l = "l\<lparr>lr_entries := bt_remove ?v (lr_entries l), lr_evictions := lr_evictions l + 1\<rparr>"
  have cap: "0 < lr_capacity l" using assms by (simp add: lru_wf_def)
  then have ne: "lr_entries l \<noteq> []" using True by auto
  then have rne: "recency l \<noteq> []" using length_recency [of l] by auto
  have in_keys: "?v \<in> fst ` set (lr_entries l)"
    using coldest_mem [OF coldest_is_last [OF assms ne]] .
  have short: "length (bt_remove ?v (lr_entries l)) < lr_capacity l"
    using length_bt_remove [OF in_keys] True by simp
  have "make_room l 0 = make_room ?l 1"
    using True coldest_is_last [OF assms ne] by (subst make_room.simps) simp
  also have "\<dots> = (?l, 1)" using short by (subst make_room.simps) simp
  finally have room: "make_room l 0 = (?l, 1)" .
  have "recency ?l = butlast (recency l)"
    using lru_wf_remove(2) [OF assms, of ?v] filter_ne_last [OF distinct_recency [OF assms] rne] by simp
  also have "\<dots> = take (lr_capacity l - 1) (recency l)"
    using True by (simp add: butlast_conv_take length_recency)
  finally have rec: "recency ?l = take (lr_capacity l - 1) (recency l)" .
  have wf: "lru_wf ?l" using lru_wf_remove(1) [OF assms, of ?v] by simp
  have "k \<noteq> ?v" if "k \<in> set (recency ?l)" for k
    using that recency_sorted(1) [OF wf] by auto
  then have "\<forall>k \<in> set (recency ?l). bt_get (lr_entries ?l) k = bt_get (lr_entries l) k" by simp
  with room rec wf show ?thesis by (intro exI [of _ ?l] exI [of _ 1]) simp
qed

lemma lru_wf_insert:
  assumes "lru_wf l" and "\<forall>k \<in> keys l - {i}. tick_of l k < lr_tick l"
    and "i \<notin> keys l \<Longrightarrow> length (lr_entries l) < lr_capacity l"
  shows "lru_wf (l\<lparr>lr_entries := bt_insert i (lr_tick l, v) (lr_entries l)\<rparr>)"
    and "recency (l\<lparr>lr_entries := bt_insert i (lr_tick l, v) (lr_entries l)\<rparr>) = i # filter (\<lambda>k. k \<noteq> i) (recency l)"
proof -
  let ?l = "l\<lparr>lr_entries := bt_insert i (lr_tick l, v) (lr_entries l)\<rparr>"
  have k: "keys ?l = insert i (keys l)" by simp
  have bt: "bt_wf (lr_entries l)" "bt_wf (lr_entries ?l)" using assms(1) by (simp_all add: lru_wf_def)
  have "card (insert i (keys l)) \<le> lr_capacity l"
    using assms(1,3) card_keys [OF bt(1)] by (cases "i \<in> keys l") (auto simp: insert_absorb lru_wf_def)
  then have len: "length (lr_entries ?l) \<le> lr_capacity l"
    using card_keys [OF bt(2)] unfolding k by simp
  have t: "tick_of ?l a = (if a = i then lr_tick l else tick_of l a)" for a by simp
  have "inj_on (tick_of ?l) (insert i (keys l))"
  proof (rule inj_onI)
    fix a b
    assume ab: "a \<in> insert i (keys l)" "b \<in> insert i (keys l)" "tick_of ?l a = tick_of ?l b"
    consider "a = i" "b = i" | "a = i" "b \<noteq> i" | "a \<noteq> i" "b = i" | "a \<noteq> i" "b \<noteq> i" by blast
    then show "a = b"
    proof cases
      case 2
      then have "b \<in> keys l - {i}" "tick_of l b = lr_tick l" using ab t by auto
      then show ?thesis using assms(2) by (metis less_irrefl)
    next
      case 3
      then have "a \<in> keys l - {i}" "tick_of l a = lr_tick l" using ab t by auto
      then show ?thesis using assms(2) by (metis less_irrefl)
    next
      case 4
      then have "a \<in> keys l" "b \<in> keys l" "tick_of l a = tick_of l b" using ab t by auto
      then show ?thesis using assms(1) unfolding lru_wf_def inj_on_def by blast
    qed simp
  qed
  moreover have "\<forall>a \<in> insert i (keys l). tick_of ?l a \<le> lr_tick ?l"
    using assms(1) unfolding t lru_wf_def by simp
  ultimately show wf: "lru_wf ?l"
    using assms(1) len bt(2) unfolding lru_wf_def k by simp
  have "sorted_wrt (\<lambda>a b. tick_of ?l b < tick_of ?l a) (filter (\<lambda>k. k \<noteq> i) (recency l))"
    using sorted_wrt_filter [OF recency_sorted(2) [OF assms(1)]] by (rule sorted_wrt_mono_rel [rotated]) auto
  then show "recency ?l = i # filter (\<lambda>k. k \<noteq> i) (recency l)"
    using assms(2) recency_sorted(1) [OF assms(1)] by (intro recency_eqI [OF wf]) (auto simp: k)
qed

text \<open>Every access, with what becomes of the values.\<close>

lemma get_or_open_effect:
  assumes "lru_wf l" and "lr_tick l \<noteq> - 1" and "get_or_open i opened l = (l', r)"
  shows "lru_wf l' \<and> lr_capacity l' = lr_capacity l \<and> lr_tick l' = lr_tick l + 1 \<and>
    (case lru_peek l i of
       Some v \<Rightarrow> r = Inr (v, cache_event_default) \<and> recency l' = i # filter (\<lambda>k. k \<noteq> i) (recency l)
     | None \<Rightarrow>
         (case opened of
            Inl e \<Rightarrow> r = Inl e \<and> recency l' = take (lr_capacity l - 1) (recency l)
          | Inr v \<Rightarrow> (\<exists>n. r = Inr (v, \<lparr>ev_opened = True, ev_evicted = n\<rparr>)) \<and>
              recency l' = i # take (lr_capacity l - 1) (recency l) \<and> lru_peek l' i = Some v)) \<and>
    (\<forall>k \<in> keys l' - {i}. lru_peek l' k = lru_peek l k) \<and> (lru_peek l i \<noteq> None \<longrightarrow> lru_peek l' i = lru_peek l i)"
proof -
  let ?m = "l\<lparr>lr_tick := lr_tick l + 1\<rparr>"
  have m: "lru_wf ?m" "recency ?m = recency l" "keys ?m = keys l" "lr_entries ?m = lr_entries l"
    using lru_wf_tick [OF assms(1,2)] by simp_all
  have young: "tick_of ?m k < lr_tick ?m" if "k \<in> keys l" for k
  proof -
    have "tick_of l k \<le> lr_tick l" using assms(1) that by (simp add: lru_wf_def)
    also have "\<dots> < lr_tick l + 1" by (rule word_succ_greater [OF assms(2)])
    finally show ?thesis by simp
  qed
  show ?thesis
  proof (cases "bt_get (lr_entries l) i")
    case (Some tv)
    then have i: "i \<in> keys l" by (simp add: keys_def bt_mem_def)
    have l': "l' = ?m\<lparr>lr_entries := bt_insert i (lr_tick ?m, snd tv) (lr_entries ?m)\<rparr>" "r = Inr (snd tv, cache_event_default)"
      using assms(3) Some by (auto simp: get_or_open_def Let_def split: prod.splits)
    from lru_wf_insert [OF m(1), of i "snd tv"] young i
    have "lru_wf l'" "recency l' = i # filter (\<lambda>k. k \<noteq> i) (recency l)" unfolding l'(1) by (simp_all add: m)
    then show ?thesis using Some l' by (auto simp: lru_peek_def)
  next
    case None
    then have i: "i \<notin> keys l" by (simp add: keys_def bt_mem_def)
    obtain q n where q: "make_room ?m 0 = (q, n)" "lru_wf q" "recency q = take (lr_capacity l - 1) (recency l)"
        "lr_capacity q = lr_capacity l" "lr_tick q = lr_tick l + 1"
        "\<forall>k \<in> set (recency q). bt_get (lr_entries q) k = bt_get (lr_entries l) k"
      using make_room_effect [OF m(1)] by auto
    have sub: "keys q \<subseteq> keys l"
      using recency_sorted(1) [OF q(2)] recency_sorted(1) [OF assms(1)] q(3) set_take_subset by metis
    have same: "bt_get (lr_entries q) k = bt_get (lr_entries l) k" if "k \<in> keys q" for k
      using q(6) that recency_sorted(1) [OF q(2)] by blast
    show ?thesis
    proof (cases opened)
      case (Inl e)
      then have "l' = q" "r = Inl e" using assms(3) None q(1) by (simp_all add: get_or_open_def Let_def)
      then show ?thesis using None Inl q(2-5) same by (simp add: lru_peek_def)
    next
      case (Inr v)
      then have l': "l' = q\<lparr>lr_entries := bt_insert i (lr_tick q, v) (lr_entries q), lr_opens := lr_opens q + 1\<rparr>"
          "r = Inr (v, \<lparr>ev_opened = True, ev_evicted = n\<rparr>)"
        using assms(3) None q(1,5) by (simp_all add: get_or_open_def Let_def)
      have cap: "0 < lr_capacity l" using assms(1) by (simp add: lru_wf_def)
      have room: "length (lr_entries q) < lr_capacity q"
        using q(3,4) cap length_recency [of q] by simp
      have old: "\<forall>k \<in> keys q - {i}. tick_of q k < lr_tick q"
      proof
        fix k assume k: "k \<in> keys q - {i}"
        then have "tick_of q k = tick_of l k" using same by (simp add: tick_of_def)
        with young [of k] k sub q(5) show "tick_of q k < lr_tick q" by auto
      qed
      have "filter (\<lambda>k. k \<noteq> i) (recency q) = recency q"
        using i sub recency_sorted(1) [OF q(2)] by (auto simp: filter_id_conv)
      with lru_wf_insert [OF q(2) old, of v] room
      have "lru_wf l'" "recency l' = i # take (lr_capacity l - 1) (recency l)" unfolding l'(1) by (simp_all add: q(3))
      moreover have "bt_get (lr_entries l') k = bt_get (lr_entries l) k" if "k \<in> keys l' - {i}" for k
        using that same unfolding l'(1) by auto
      ultimately show ?thesis using None Inr l' q(4,5) by (simp add: lru_peek_def)
    qed
  qed
qed

text \<open>The shards of a sequence of accesses, the last access first.\<close>

fun most_recent :: "shard_id list \<Rightarrow> shard_id list" where
  "most_recent [] = []"
| "most_recent (i # is) = i # filter (\<lambda>k. k \<noteq> i) (most_recent is)"

lemma distinct_most_recent [simp]: "distinct (most_recent is)"
  by (induction "is") auto

lemma take_filter_ne:
  assumes "distinct xs" and "0 < c"
  shows "take (c - 1) (filter (\<lambda>k. k \<noteq> i) xs) =
    (if i \<in> set (take c xs) then filter (\<lambda>k. k \<noteq> i) (take c xs) else take (c - 1) xs)"
  using assms
proof (induction xs arbitrary: c)
  case (Cons x xs)
  show ?case
  proof (cases "x = i")
    case True
    with Cons.prems have "filter (\<lambda>k. k \<noteq> i) ys = ys" if "set ys \<subseteq> set xs" for ys
      using that by (auto simp: filter_id_conv)
    moreover have "set (take (c - 1) xs) \<subseteq> set xs" by (rule set_take_subset)
    ultimately show ?thesis using True Cons.prems(2) by (simp add: take_Cons')
  next
    case False
    with Cons.IH [of "c - 1"] Cons.prems show ?thesis by (cases "c = 1") (auto simp: take_Cons')
  qed
qed simp

lemma lru_peek_None_iff: "lru_wf l \<Longrightarrow> lru_peek l i = None \<longleftrightarrow> i \<notin> set (recency l)"
  using recency_sorted(1) [of l]
  by (simp add: lru_peek_def keys_def bt_mem_def del: split_paired_All split_paired_Ex)

lemma recency_touch:
  assumes "lru_wf l" and "lr_tick l \<noteq> - 1" and "get_or_open i (Inr v) l = (l', r)"
    and "recency l = take (lr_capacity l) xs" and "distinct xs"
  shows "recency l' = take (lr_capacity l) (i # filter (\<lambda>k. k \<noteq> i) xs)"
proof -
  have cap: "0 < lr_capacity l" using assms(1) by (simp add: lru_wf_def)
  have "recency l' = (if i \<in> set (recency l) then i # filter (\<lambda>k. k \<noteq> i) (recency l)
      else i # take (lr_capacity l - 1) (recency l))"
    using get_or_open_effect [OF assms(1-3)] lru_peek_None_iff [OF assms(1), of i] by (auto split: option.splits)
  also have "\<dots> = i # take (lr_capacity l - 1) (filter (\<lambda>k. k \<noteq> i) xs)"
    using take_filter_ne [OF assms(5) cap, of i] cap by (auto simp: assms(4) min_def)
  finally show ?thesis using cap by (simp add: take_Cons')
qed

fun touch_all :: "(shard_id \<times> 'v) list \<Rightarrow> 'v lru \<Rightarrow> 'v lru" where
  "touch_all [] l = l"
| "touch_all ((i, v) # is) l = touch_all is (fst (get_or_open i (Inr v) l))"

text \<open>
  (C25) The cache holds the most recently used shards and no more. After any sequence of accesses
  the open entries are the distinct shards accessed last, as many as the capacity allows, in that
  order; in particular the capacity is never exceeded, and an entry goes only when as many other
  shards have been used since.
\<close>

theorem cache_keeps_the_most_recently_used:
  assumes "lru_new c = Inr l0" and "length accesses < 2 ^ 64"
  shows "recency (touch_all accesses l0) = take c (most_recent (rev (map fst accesses)))"
  using assms(2)
proof -
  have "lru_wf (touch_all as l0) \<and> lr_capacity (touch_all as l0) = c \<and>
      lr_tick (touch_all as l0) = word_of_nat (length as) \<and>
      recency (touch_all as l0) = take c (most_recent (rev (map fst as)))" if "length as < 2 ^ 64" for as
    using that
  proof (induction as rule: rev_induct)
    case Nil
    show ?case using assms(1)
      by (auto simp: lru_new_def lru_wf_def recency_def keys_def bt_mem_def split: if_splits)
  next
    case (snoc a as)
    let ?l = "touch_all as l0"
    obtain i v where a: "a = (i, v)" by (cases a)
    have snoc_touch: "touch_all (as @ [(i, v)]) m = fst (get_or_open i (Inr v) (touch_all as m))" for m
      by (induction as m rule: touch_all.induct) simp_all
    from snoc have IH: "lru_wf ?l" "lr_capacity ?l = c" "lr_tick ?l = word_of_nat (length as)"
        "recency ?l = take c (most_recent (rev (map fst as)))" by simp_all
    have "unat (lr_tick ?l) = length as" using snoc.prems IH(3) by (simp add: unsigned_of_nat take_bit_eq_mod)
    moreover have "unat (- 1 :: u64) = 2 ^ 64 - 1" by (simp add: unsigned_minus_1_eq_mask mask_eq_exp_minus_1)
    ultimately have tick: "lr_tick ?l \<noteq> - 1" using snoc.prems by auto
    obtain l' r where l': "get_or_open i (Inr v) ?l = (l', r)" by fastforce
    from recency_touch [OF IH(1) tick l', of "most_recent (rev (map fst as))"] IH(2,4)
      get_or_open_effect [OF IH(1) tick l']
    show ?case by (simp add: a snoc_touch l' IH(3) add.commute)
  qed
  then show ?thesis using assms(2) by blast
qed

theorem cache_keeps_the_most_recently_used_witness:
  "recency (touch_all [(1, ''a''), (2, ''b''), (1, ''a''), (3, ''c'')]
     \<lparr>lr_capacity = 2, lr_tick = 0, lr_entries = [], lr_evictions = 0, lr_opens = 0\<rparr>) = [3, 1]"
  using cache_keeps_the_most_recently_used [of 2
    "\<lparr>lr_capacity = 2, lr_tick = 0, lr_entries = [], lr_evictions = 0, lr_opens = 0\<rparr>"
    "[(1, ''a''), (2, ''b''), (1, ''a''), (3, ''c'')]"]
  by (simp add: lru_new_def)

end
