(* ===== verification/Reader_Fleet.thy ===== *)
theory Reader_Fleet
  imports Shard_Cache Promotion
begin

text \<open>
  Reading a shard whose file the replication path rewrites: the lock and the generation of
  \<^verbatim>\<open>ShardAccess\<close> (\<^verbatim>\<open>src/src/shard/mode.rs\<close>) and the connection cache of a reader thread
  (\<^verbatim>\<open>ensure_shard\<close> of \<^verbatim>\<open>src/src/shard/reader_fleet.rs\<close>). A connection sees the file as it was
  when the connection was opened: a rewrite behind its back makes it stale for good.
\<close>

section \<open>A reader thread\<close>

text \<open>A connection: the rewrites the file had seen when it was opened, and the generation noted then.\<close>

record read_handle =
  rh_rewrites :: nat
  rh_generation :: u64

text \<open>
  What opening meets: whether the writer fleet still exists, what it answers when asked to bring the
  file into existence, and the two attempts to open.
\<close>

record open_env =
  oe_alive :: bool
  oe_warm :: "error option"
  oe_first :: "error option"
  oe_rewarm :: "error option"
  oe_second :: "error option"

definition open_reader :: "open_env \<Rightarrow> read_handle \<Rightarrow> read_handle result" where
  "open_reader e h =
     (case oe_first e of
        None \<Rightarrow> Inr h
      | Some err \<Rightarrow>
          if \<not> oe_alive e then Inl err
          else
            case oe_rewarm e of
              Some err2 \<Rightarrow> Inl err2
            | None \<Rightarrow> (case oe_second e of Some err3 \<Rightarrow> Inl err3 | None \<Rightarrow> Inr h))"

definition drop_stale :: "shard_id \<Rightarrow> u64 \<Rightarrow> read_handle lru \<Rightarrow> read_handle lru" where
  "drop_stale s generation c =
     (case lru_peek c s of
        Some h \<Rightarrow> if rh_generation h \<noteq> generation then fst (lru_remove s c) else c
      | None \<Rightarrow> c)"

definition reader_ensure ::
    "open_env \<Rightarrow> shard_mode \<Rightarrow> shard_id \<Rightarrow> read_handle \<Rightarrow> read_handle lru \<Rightarrow> read_handle lru \<times> read_handle result" where
  "reader_ensure e mode s fresh c =
     (let c = drop_stale s (rh_generation fresh) c in
      if \<not> lru_contains c s \<and> mode = Led \<and> oe_alive e \<and> oe_warm e \<noteq> None then (c, Inl (the (oe_warm e)))
      else
        case get_or_open s (open_reader e fresh) c of
          (c, Inl err) \<Rightarrow> (c, Inl err)
        | (c, Inr (h, _)) \<Rightarrow> (c, Inr h))"

lemma open_reader_fresh: "open_reader e h = Inr h' \<Longrightarrow> h' = h"
  by (auto simp: open_reader_def split: option.splits if_splits)

lemma lru_peek_remove [simp]: "lru_peek (fst (lru_remove s c)) k = (if k = s then None else lru_peek c k)"
  using lru.forget_look [OF prod.collapse [symmetric]] by blast

lemma drop_stale_look:
  "lru_peek (drop_stale s g c) k = Some h \<Longrightarrow> lru_peek c k = Some h \<and> (k = s \<longrightarrow> rh_generation h = g)"
  by (auto simp: drop_stale_def split: option.splits if_splits)

lemma reader_ensure_keeps:
  assumes "reader_ensure e mode s fresh c = (c', r)" and "\<And>k h. lru_peek c k = Some h \<Longrightarrow> P k h" and "P s fresh"
    and "lru_peek c' k = Some h"
  shows "P k h"
proof -
  let ?c = "drop_stale s (rh_generation fresh) c"
  have P: "\<And>k h. lru_peek ?c k = Some h \<Longrightarrow> P k h" using drop_stale_look assms(2) by blast
  from assms(1) consider "c' = ?c" | q where "get_or_open s (open_reader e fresh) ?c = (c', q)"
    by (auto simp: reader_ensure_def Let_def split: if_splits prod.splits sum.splits)
  then show ?thesis
  proof cases
    case 1
    with P assms(4) show ?thesis by simp
  next
    case 2
    from lru.access_keeps [OF 2, of P] P assms(3,4) open_reader_fresh show ?thesis by blast
  qed
qed

lemma reader_ensure_gives:
  assumes "reader_ensure e mode s fresh c = (c', Inr h)"
  shows "lru_peek c s = Some h \<and> rh_generation h = rh_generation fresh \<or> h = fresh"
proof -
  let ?c = "drop_stale s (rh_generation fresh) c"
  from assms obtain ev where "get_or_open s (open_reader e fresh) ?c = (c', Inr (h, ev))"
    by (auto simp: reader_ensure_def Let_def split: if_splits prod.splits sum.splits)
  from lru.access_gives [OF this] drop_stale_look open_reader_fresh show ?thesis by blast
qed

section \<open>Readers and the replication path\<close>

text \<open>
  Readers hold the lock shared for the whole of a read, opening included; an apply holds it alone,
  rewrites the file as often as it likes, and bumps the generation before it lets go. A shard's
  connections can be closed at any time, and marks can change.
\<close>

record fleet =
  ft_rewrites :: "shard_id \<Rightarrow> nat"
  ft_applies :: "shard_id \<Rightarrow> nat"
  ft_generation :: "shard_id \<Rightarrow> u64"
  ft_reading :: "shard_id \<Rightarrow> nat set"
  ft_applying :: "shard_id \<Rightarrow> bool"
  ft_cache :: "nat \<Rightarrow> read_handle lru"
  ft_using :: "nat \<Rightarrow> (shard_id \<times> read_handle) option"
  ft_modes :: shard_modes

definition fresh_handle :: "fleet \<Rightarrow> shard_id \<Rightarrow> read_handle" where
  "fresh_handle f s = \<lparr>rh_rewrites = ft_rewrites f s, rh_generation = ft_generation f s\<rparr>"

inductive fleet_step :: "fleet \<Rightarrow> fleet \<Rightarrow> bool" where
  read_lock: "\<not> ft_applying f s \<Longrightarrow> ft_using f t = None \<Longrightarrow>
     fleet_step f (f\<lparr>ft_reading := (ft_reading f)(s := insert t (ft_reading f s))\<rparr>)"
| read_open: "t \<in> ft_reading f s \<Longrightarrow>
     reader_ensure e (modes_mode (ft_modes f) s) s (fresh_handle f s) (ft_cache f t) = (c, Inr h) \<Longrightarrow>
     fleet_step f (f\<lparr>ft_cache := (ft_cache f)(t := c), ft_using := (ft_using f)(t := Some (s, h))\<rparr>)"
| read_fails: "t \<in> ft_reading f s \<Longrightarrow>
     reader_ensure e (modes_mode (ft_modes f) s) s (fresh_handle f s) (ft_cache f t) = (c, Inl err) \<Longrightarrow>
     fleet_step f (f\<lparr>ft_cache := (ft_cache f)(t := c)\<rparr>)"
| read_done: "t \<in> ft_reading f s \<Longrightarrow>
     fleet_step f (f\<lparr>ft_reading := (ft_reading f)(s := ft_reading f s - {t}), ft_using := (ft_using f)(t := None)\<rparr>)"
| apply_lock: "ft_reading f s = {} \<Longrightarrow> \<not> ft_applying f s \<Longrightarrow>
     fleet_step f (f\<lparr>ft_applying := (ft_applying f)(s := True)\<rparr>)"
| rewrite: "ft_applying f s \<Longrightarrow> fleet_step f (f\<lparr>ft_rewrites := (ft_rewrites f)(s := ft_rewrites f s + 1)\<rparr>)"
| bump: "ft_applying f s \<Longrightarrow> ft_applies f s + 1 < 2 ^ 64 \<Longrightarrow>
     fleet_step f (f\<lparr>ft_applying := (ft_applying f)(s := False), ft_applies := (ft_applies f)(s := ft_applies f s + 1),
       ft_generation := (ft_generation f)(s := ft_generation f s + 1)\<rparr>)"
| quiesce: "fleet_step f (f\<lparr>ft_cache := (ft_cache f)(t := fst (lru_remove s (ft_cache f t)))\<rparr>)"
| mark: "fleet_step f (f\<lparr>ft_modes := modes_set s m (ft_modes f)\<rparr>)"

definition fleet_start :: "nat \<Rightarrow> fleet \<Rightarrow> bool" where
  "fleet_start capacity f \<longleftrightarrow>
     0 < capacity \<and> (\<forall>t. Inr (ft_cache f t) = lru_new capacity \<and> ft_using f t = None) \<and>
     (\<forall>s. ft_applies f s = 0 \<and> ft_generation f s = 0 \<and> ft_reading f s = {} \<and> \<not> ft_applying f s)"

text \<open>A handle noted in generation \<open>a\<close>: if that is still the generation and nothing is being applied, it is current.\<close>

definition handle_ok :: "fleet \<Rightarrow> shard_id \<Rightarrow> read_handle \<Rightarrow> bool" where
  "handle_ok f s h \<longleftrightarrow>
     (\<exists>a \<le> ft_applies f s. rh_generation h = word_of_nat a \<and>
        (a = ft_applies f s \<and> \<not> ft_applying f s \<longrightarrow> rh_rewrites h = ft_rewrites f s))"

definition fleet_inv :: "fleet \<Rightarrow> bool" where
  "fleet_inv f \<longleftrightarrow>
     (\<forall>s. ft_applies f s < 2 ^ 64 \<and> ft_generation f s = word_of_nat (ft_applies f s)) \<and>
     (\<forall>s. ft_reading f s \<noteq> {} \<longrightarrow> \<not> ft_applying f s) \<and>
     (\<forall>t s h. lru_peek (ft_cache f t) s = Some h \<longrightarrow> handle_ok f s h) \<and>
     (\<forall>t s h. ft_using f t = Some (s, h) \<longrightarrow> t \<in> ft_reading f s \<and> rh_rewrites h = ft_rewrites f s)"

lemma fresh_handle_ok: "fleet_inv f \<Longrightarrow> handle_ok f s (fresh_handle f s)"
  by (auto simp: fleet_inv_def handle_ok_def fresh_handle_def)

lemma handle_current:
  assumes "fleet_inv f" and "handle_ok f s h" and "rh_generation h = ft_generation f s" and "\<not> ft_applying f s"
  shows "rh_rewrites h = ft_rewrites f s"
proof -
  obtain a where a: "a \<le> ft_applies f s" "rh_generation h = word_of_nat a"
      "a = ft_applies f s \<longrightarrow> rh_rewrites h = ft_rewrites f s"
    using assms(2,4) by (auto simp: handle_ok_def)
  have small: "ft_applies f s < 2 ^ 64" and "(word_of_nat a :: u64) = word_of_nat (ft_applies f s)"
    using assms(1,3) a(2) by (simp_all add: fleet_inv_def)
  then have "unat (word_of_nat a :: u64) = unat (word_of_nat (ft_applies f s) :: u64)" by simp
  with a(1) small have "a = ft_applies f s"
    by (simp only: unsigned_of_nat take_bit_eq_mod) simp
  with a(3) show ?thesis by simp
qed

lemma handle_ok_fields [simp]:
  "handle_ok (f\<lparr>ft_cache := c\<rparr>) s h = handle_ok f s h" "handle_ok (f\<lparr>ft_using := u\<rparr>) s h = handle_ok f s h"
  "handle_ok (f\<lparr>ft_reading := r\<rparr>) s h = handle_ok f s h" "handle_ok (f\<lparr>ft_modes := m\<rparr>) s h = handle_ok f s h"
  by (simp_all add: handle_ok_def)

lemma fleet_step_inv:
  assumes "fleet_step f g" and "fleet_inv f"
  shows "fleet_inv g"
  using assms
proof (induction rule: fleet_step.induct)
  case (read_open t f s e c h)
  let ?g = "f\<lparr>ft_cache := (ft_cache f)(t := c), ft_using := (ft_using f)(t := Some (s, h))\<rparr>"
  have ok: "handle_ok f k v" if "lru_peek c k = Some v" for k v
    using reader_ensure_keeps [OF read_open(2), of "handle_ok f"] that read_open.prems fresh_handle_ok
    by (auto simp: fleet_inv_def)
  have quiet: "\<not> ft_applying f s" using read_open.prems read_open(1) by (auto simp: fleet_inv_def)
  have "rh_rewrites h = ft_rewrites f s"
    using reader_ensure_gives [OF read_open(2)] read_open.prems handle_current [OF read_open.prems _ _ quiet, of h]
    by (auto simp: fresh_handle_def fleet_inv_def)
  then show ?case
    using read_open.prems read_open(1) ok unfolding fleet_inv_def by auto
next
  case (read_fails t f s e c err)
  have "handle_ok f k v" if "lru_peek c k = Some v" for k v
    using reader_ensure_keeps [OF read_fails(2), of "handle_ok f"] that read_fails.prems fresh_handle_ok
    by (auto simp: fleet_inv_def)
  then show ?case using read_fails.prems unfolding fleet_inv_def by auto
next
  case (bump f s)
  let ?g = "f\<lparr>ft_applying := (ft_applying f)(s := False), ft_applies := (ft_applies f)(s := ft_applies f s + 1),
       ft_generation := (ft_generation f)(s := ft_generation f s + 1)\<rparr>"
  have "handle_ok ?g k h" if h: "handle_ok f k h" for k h
  proof (cases "k = s")
    case True
    from h obtain a where "a \<le> ft_applies f k" "rh_generation h = word_of_nat a" by (auto simp: handle_ok_def)
    then show ?thesis unfolding handle_ok_def using True by (intro exI [of _ a]) simp
  qed (use h in \<open>simp add: handle_ok_def\<close>)
  moreover have "ft_reading f s = {}" using bump by (auto simp: fleet_inv_def)
  ultimately show ?case using bump unfolding fleet_inv_def by (auto simp: add.commute)
next
  case (rewrite f s)
  have "handle_ok (f\<lparr>ft_rewrites := (ft_rewrites f)(s := ft_rewrites f s + 1)\<rparr>) k h" if "handle_ok f k h" for k h
    using that rewrite(1) by (cases "k = s") (auto simp: handle_ok_def)
  moreover have "ft_using f t \<noteq> Some (s, h)" for t h using rewrite by (fastforce simp: fleet_inv_def)
  ultimately show ?case using rewrite unfolding fleet_inv_def by auto
next
  case (apply_lock f s)
  have "handle_ok (f\<lparr>ft_applying := (ft_applying f)(s := True)\<rparr>) k h" if "handle_ok f k h" for k h
    using that by (cases "k = s") (auto simp: handle_ok_def)
  then show ?case using apply_lock unfolding fleet_inv_def by auto
next
  case (read_lock f s t)
  then show ?case unfolding fleet_inv_def by auto
next
  case (read_done t f s)
  then show ?case unfolding fleet_inv_def by auto
next
  case (quiesce f t s)
  then show ?case unfolding fleet_inv_def by (auto split: if_splits)
next
  case (mark f s m)
  then show ?case unfolding fleet_inv_def by auto
qed

lemma fleet_start_inv: "fleet_start n f \<Longrightarrow> fleet_inv f"
  by (auto simp: fleet_start_def fleet_inv_def lru_new_def lru_peek_def split: if_splits)

text \<open>
  (C15) A read never sees a file that was rewritten under it. Whatever applies, snapshots, closings
  and changes of ownership happen on other threads, a reader that has a connection in hand has one
  opened after the last rewrite of the file, and no rewrite is in progress.
\<close>

theorem reads_never_see_a_rewritten_file:
  assumes "fleet_step\<^sup>*\<^sup>* f0 f" and "fleet_start n f0" and "ft_using f t = Some (s, h)"
  shows "rh_rewrites h = ft_rewrites f s \<and> \<not> ft_applying f s"
proof -
  have "fleet_inv f"
    using assms(1,2) by (induction rule: rtranclp_induct) (blast intro: fleet_start_inv fleet_step_inv)+
  with assms(3) show ?thesis unfolding fleet_inv_def by blast
qed

definition demo_fleet :: fleet where
  "demo_fleet =
     \<lparr>ft_rewrites = (\<lambda>_. 0), ft_applies = (\<lambda>_. 0), ft_generation = (\<lambda>_. 0), ft_reading = (\<lambda>_. {}),
      ft_applying = (\<lambda>_. False),
      ft_cache = (\<lambda>_. \<lparr>lr_capacity = 2, lr_tick = 0, lr_entries = [], lr_evictions = 0, lr_opens = 0\<rparr>),
      ft_using = (\<lambda>_. None), ft_modes = modes_set 0 Followed modes_new\<rparr>"

definition demo_open :: open_env where
  "demo_open = \<lparr>oe_alive = True, oe_warm = None, oe_first = None, oe_rewarm = None, oe_second = None\<rparr>"

text \<open>A reader opens the shard, an apply rewrites the file, and the reader comes back.\<close>

definition open_on :: "nat \<Rightarrow> shard_id \<Rightarrow> fleet \<Rightarrow> fleet" where
  "open_on t s f =
     (case reader_ensure demo_open (modes_mode (ft_modes f) s) s (fresh_handle f s) (ft_cache f t) of
        (c, Inr h) \<Rightarrow> f\<lparr>ft_cache := (ft_cache f)(t := c), ft_using := (ft_using f)(t := Some (s, h))\<rparr>
      | (c, Inl _) \<Rightarrow> f\<lparr>ft_cache := (ft_cache f)(t := c)\<rparr>)"

definition read_shard :: "nat \<Rightarrow> shard_id \<Rightarrow> fleet \<Rightarrow> fleet" where
  "read_shard t s f = open_on t s (f\<lparr>ft_reading := (ft_reading f)(s := insert t (ft_reading f s))\<rparr>)"

definition end_read :: "nat \<Rightarrow> shard_id \<Rightarrow> fleet \<Rightarrow> fleet" where
  "end_read t s f = f\<lparr>ft_reading := (ft_reading f)(s := ft_reading f s - {t}), ft_using := (ft_using f)(t := None)\<rparr>"

definition apply_shard :: "shard_id \<Rightarrow> fleet \<Rightarrow> fleet" where
  "apply_shard s f =
     f\<lparr>ft_rewrites := (ft_rewrites f)(s := ft_rewrites f s + 1), ft_applies := (ft_applies f)(s := ft_applies f s + 1),
       ft_generation := (ft_generation f)(s := ft_generation f s + 1)\<rparr>"

lemma open_on_step:
  assumes "t \<in> ft_reading f s"
  shows "fleet_step f (open_on t s f)"
proof -
  obtain c r where c: "reader_ensure demo_open (modes_mode (ft_modes f) s) s (fresh_handle f s) (ft_cache f t) = (c, r)"
    by fastforce
  show ?thesis
  proof (cases r)
    case (Inl e)
    then show ?thesis using c read_fails [OF assms] by (simp add: open_on_def)
  next
    case (Inr h)
    then show ?thesis using c read_open [OF assms] by (simp add: open_on_def)
  qed
qed

lemma read_shard_steps:
  assumes "\<not> ft_applying f s" and "ft_using f t = None"
  shows "fleet_step\<^sup>*\<^sup>* f (read_shard t s f)"
proof -
  let ?g = "f\<lparr>ft_reading := (ft_reading f)(s := insert t (ft_reading f s))\<rparr>"
  have "fleet_step f ?g" using assms by (rule read_lock)
  then have "fleet_step\<^sup>*\<^sup>* f ?g" by (rule r_into_rtranclp)
  then show ?thesis
    unfolding read_shard_def by (rule rtranclp.rtrancl_into_rtrancl) (rule open_on_step, simp)
qed

lemma apply_shard_steps:
  assumes "ft_reading f s = {}" and "\<not> ft_applying f s" and "ft_applies f s + 1 < 2 ^ 64"
  shows "fleet_step\<^sup>*\<^sup>* f (apply_shard s f)"
proof -
  let ?f = "f\<lparr>ft_applying := (ft_applying f)(s := True)\<rparr>"
  let ?g = "?f\<lparr>ft_rewrites := (ft_rewrites ?f)(s := ft_rewrites ?f s + 1)\<rparr>"
  let ?h = "?g\<lparr>ft_applying := (ft_applying ?g)(s := False), ft_applies := (ft_applies ?g)(s := ft_applies ?g s + 1),
      ft_generation := (ft_generation ?g)(s := ft_generation ?g s + 1)\<rparr>"
  have "fleet_step f ?f" using assms(1,2) by (rule apply_lock)
  moreover have "fleet_step ?f ?g" by (rule rewrite) simp
  moreover have "fleet_step ?g ?h" by (rule bump) (use assms(3) in simp_all)
  moreover have "?h = apply_shard s f" using assms(2) by (simp add: apply_shard_def fun_upd_idem)
  ultimately show ?thesis by (metis (no_types) r_into_rtranclp rtranclp.rtrancl_into_rtrancl)
qed

definition demo_reads :: fleet where
  "demo_reads = read_shard 2 0 (apply_shard 0 (end_read 2 0 (read_shard 2 0 demo_fleet)))"

lemma demo_reads_reached: "fleet_step\<^sup>*\<^sup>* demo_fleet demo_reads"
proof -
  let ?a = "read_shard 2 0 demo_fleet"
  have *: "2 \<in> ft_reading ?a 0" "ft_reading ?a 0 = {2}" "\<not> ft_applying ?a 0" "ft_applies ?a 0 = 0"
    by (simp_all add: read_shard_def open_on_def demo_fleet_def split: prod.splits sum.splits)
  have "fleet_step\<^sup>*\<^sup>* demo_fleet ?a" by (rule read_shard_steps) (simp_all add: demo_fleet_def)
  moreover have "fleet_step ?a (end_read 2 0 ?a)" unfolding end_read_def by (rule read_done [OF *(1)])
  moreover have "fleet_step\<^sup>*\<^sup>* (end_read 2 0 ?a) (apply_shard 0 (end_read 2 0 ?a))"
    by (rule apply_shard_steps) (simp_all add: end_read_def *)
  moreover have "fleet_step\<^sup>*\<^sup>* (apply_shard 0 (end_read 2 0 ?a)) demo_reads"
    unfolding demo_reads_def by (rule read_shard_steps) (simp_all add: apply_shard_def end_read_def *)
  ultimately show ?thesis by (meson r_into_rtranclp rtranclp_trans)
qed

lemma demo_fleet_start: "fleet_start 2 demo_fleet"
  by (simp add: fleet_start_def demo_fleet_def lru_new_def)

theorem reads_never_see_a_rewritten_file_witness:
  "\<exists>h. ft_using demo_reads 2 = Some (0, h) \<and> rh_rewrites h = 1 \<and> \<not> ft_applying demo_reads 0"
proof -
  have using_it: "ft_using demo_reads 2 = Some (0, \<lparr>rh_rewrites = 1, rh_generation = 1\<rparr>)" by code_simp
  from reads_never_see_a_rewritten_file [OF demo_reads_reached demo_fleet_start this] using_it
  show ?thesis by simp
qed

end
