(* ===== verification/Writer_Thread.thy ===== *)
theory Writer_Thread
  imports Shard_Cache Cross_Shard
begin

text \<open>
  One writer thread (\<^verbatim>\<open>src/src/shard/writer_fleet.rs\<close>): its cache of connections, the shards it
  has parked, and what a cached connection carries that its file does not: an open transaction, and
  the hold of a snapshot in flight. Closing a connection rolls its transaction back.
\<close>

section \<open>The thread\<close>

record 'd writer_entry =
  we_txn :: "'d shard_db option"
  we_hold :: bool
  we_invalidated :: bool

record 'd thread =
  wt_files :: "shard_id \<Rightarrow> 'd shard_db"
  wt_open :: "'d writer_entry lru"
  wt_parked :: "shard_id set"

definition new_entry :: "'d writer_entry" where
  "new_entry = \<lparr>we_txn = None, we_hold = False, we_invalidated = False\<rparr>"

text \<open>Whether the shard's mark lets a writer open it, and whether opening works.\<close>

record thread_env =
  tv_mode :: "error option"
  tv_open :: "error option"
  tv_shard :: shard_env

definition calm_thread :: thread_env where
  "calm_thread = \<lparr>tv_mode = None, tv_open = None, tv_shard = calm_env\<rparr>"

definition writer_ensure :: "thread_env \<Rightarrow> shard_id \<Rightarrow> 'd thread \<Rightarrow> 'd thread \<times> 'd writer_entry result" where
  "writer_ensure e s t =
     (case tv_mode e of
        Some err \<Rightarrow> (t, Inl err)
      | None \<Rightarrow>
          (case get_or_open s (case tv_open e of Some err \<Rightarrow> Inl err | None \<Rightarrow> Inr new_entry) (wt_open t) of
             (l, Inl err) \<Rightarrow> (t\<lparr>wt_open := l\<rparr>, Inl err)
           | (l, Inr (v, _)) \<Rightarrow> (t\<lparr>wt_open := l\<rparr>, Inr v)))"

definition conn_of :: "'d thread \<Rightarrow> shard_id \<Rightarrow> 'd writer_entry \<Rightarrow> 'd conn" where
  "conn_of t s v = \<lparr>cx_db = wt_files t s, cx_open = we_txn v\<rparr>"

definition put_conn :: "shard_id \<Rightarrow> 'd writer_entry \<Rightarrow> 'd conn \<Rightarrow> 'd thread \<Rightarrow> 'd thread" where
  "put_conn s v c t =
     t\<lparr>wt_files := (wt_files t)(s := cx_db c), wt_open := lru_set s (v\<lparr>we_txn := cx_open c\<rparr>) (wt_open t)\<rparr>"

definition thread_prepare ::
    "thread_env \<Rightarrow> ('v, 'd) engine \<Rightarrow> shard_id \<Rightarrow> u64 \<Rightarrow> 'v statement list \<Rightarrow> bool \<Rightarrow> 'd thread \<Rightarrow>
     'd thread \<times> prepared result" where
  "thread_prepare e run s txn ss ddl t =
     (if s \<in> wt_parked t then (t, Inl (Protocol ''already prepared for another transaction''))
      else
        case writer_ensure e s t of
          (t, Inl err) \<Rightarrow> (t, Inl err)
        | (t, Inr v) \<Rightarrow>
            (case se_gate (tv_shard e) of
               Some err \<Rightarrow> (t, Inl err)
             | None \<Rightarrow>
                 (case prepare_group (se_prepare (tv_shard e)) run txn ss ddl (conn_of t s v) of
                    (c, Inl msg) \<Rightarrow> (put_conn s v c t, Inl (Protocol msg))
                  | (c, Inr (PreparedOk os)) \<Rightarrow>
                      ((put_conn s v c t)\<lparr>wt_parked := insert s (wt_parked t)\<rparr>, Inr (PreparedOk os))
                  | (c, Inr (PrepareRejected msg)) \<Rightarrow> (put_conn s v c t, Inr (PrepareRejected msg)))))"

definition thread_decide :: "thread_env \<Rightarrow> shard_id \<Rightarrow> bool \<Rightarrow> 'd thread \<Rightarrow> 'd thread \<times> unit result" where
  "thread_decide e s commit t =
     (if s \<notin> wt_parked t then (t, Inr ())
      else
        let t = t\<lparr>wt_parked := wt_parked t - {s}\<rparr> in
        case writer_ensure e s t of
          (t, Inl err) \<Rightarrow> (t, Inl err)
        | (t, Inr v) \<Rightarrow>
            let commit = (commit \<and> se_gate (tv_shard e) = None) in
            (case finish_prepared (se_finish (tv_shard e)) commit (conn_of t s v) of
               (c, Inl msg) \<Rightarrow> (put_conn s v c t, Inl (Protocol msg))
             | (c, Inr _) \<Rightarrow> (put_conn s v c t, if commit then refused (se_drain (tv_shard e)) else Inr ())))"

text \<open>Handing the file over closes the connection, whatever it carries.\<close>

definition thread_quiesce :: "shard_id \<Rightarrow> 'd thread \<Rightarrow> 'd thread \<times> bool" where
  "thread_quiesce s t = (case lru_remove s (wt_open t) of (l, old) \<Rightarrow> (t\<lparr>wt_open := l\<rparr>, old \<noteq> None))"

definition thread_begin_snapshot :: "thread_env \<Rightarrow> shard_id \<Rightarrow> 'd thread \<Rightarrow> 'd thread \<times> unit result" where
  "thread_begin_snapshot e s t =
     (case writer_ensure e s t of
        (t, Inl err) \<Rightarrow> (t, Inl err)
      | (t, Inr v) \<Rightarrow>
          (case se_drain (tv_shard e) of
             Some err \<Rightarrow> (t, Inl err)
           | None \<Rightarrow>
               (t\<lparr>wt_open := lru_set s (v\<lparr>we_hold := True, we_invalidated := False\<rparr>) (wt_open t)\<rparr>, Inr ())))"

definition thread_end_snapshot :: "thread_env \<Rightarrow> shard_id \<Rightarrow> 'd thread \<Rightarrow> 'd thread \<times> bool result" where
  "thread_end_snapshot e s t =
     (case writer_ensure e s t of
        (t, Inl err) \<Rightarrow> (t, Inl err)
      | (t, Inr v) \<Rightarrow> (t\<lparr>wt_open := lru_set s (v\<lparr>we_hold := False\<rparr>) (wt_open t)\<rparr>, Inr (\<not> we_invalidated v)))"

text \<open>
  After a batch: whether the checkpointer is called on the file, and what becomes of the hold. How
  much a call writes back is up to the checkpointer and SQLite.
\<close>

definition thread_after_batch :: "bool \<Rightarrow> shard_id \<Rightarrow> 'd thread \<Rightarrow> 'd thread \<times> bool" where
  "thread_after_batch too_long s t =
     (case lru_peek (wt_open t) s of
        None \<Rightarrow> (t, False)
      | Some v \<Rightarrow>
          if we_hold v
          then if too_long
               then (t\<lparr>wt_open := lru_set s (v\<lparr>we_hold := False, we_invalidated := True\<rparr>) (wt_open t)\<rparr>, True)
               else (t, False)
          else (t, True))"

section \<open>What the cache keeps of a parked shard\<close>

lemma map_fst_adjust [simp]: "map fst (bt_adjust k f m) = map fst m"
  by (simp add: bt_adjust_def comp_def if_distrib)

lemma lru_set_fields [simp]:
  "lr_capacity (lru_set s v l) = lr_capacity l" "lr_tick (lru_set s v l) = lr_tick l"
  "keys (lru_set s v l) = keys l" "recency (lru_set s v l) = recency l"
  "length (lr_entries (lru_set s v l)) = length (lr_entries l)"
proof -
  have "tick_of (lru_set s v l) = tick_of l" by (rule ext) simp
  moreover have "map fst (lr_entries (lru_set s v l)) = map fst (lr_entries l)" by (simp add: lru_set_def)
  ultimately show "recency (lru_set s v l) = recency l" "keys (lru_set s v l) = keys l"
    by (simp_all add: recency_def keys_set del: set_map)
qed (simp_all add: lru_set_def bt_adjust_def)

lemma lru_wf_set [simp]: "lru_wf (lru_set s v l) = lru_wf l"
proof -
  have "bt_wf (lr_entries (lru_set s v l)) = bt_wf (lr_entries l)" by (simp add: lru_set_def)
  moreover have "tick_of (lru_set s v l) = tick_of l" by (rule ext) simp
  ultimately show ?thesis by (simp add: lru_wf_def)
qed

lemma lru_peek_set: "lru_peek (lru_set s v l) k = (if k = s then map_option (\<lambda>_. v) (lru_peek l s) else lru_peek l k)"
  by (auto simp: lru_peek_def lru_set_def option.map_comp comp_def split_beta)

definition thread_wf :: "'d thread \<Rightarrow> bool" where
  "thread_wf t \<longleftrightarrow>
     lru_wf (wt_open t) \<and>
     (\<forall>s v. lru_peek (wt_open t) s = Some v \<and> s \<notin> wt_parked t \<longrightarrow> we_txn v = None)"

lemma ensure_calm:
  assumes "thread_wf t" and "lr_tick (wt_open t) \<noteq> - 1"
  shows "\<exists>l v. writer_ensure calm_thread s t = (t\<lparr>wt_open := l\<rparr>, Inr v) \<and> lru_wf l \<and>
    lr_capacity l = lr_capacity (wt_open t) \<and> lr_tick l = lr_tick (wt_open t) + 1 \<and>
    v = (case lru_peek (wt_open t) s of Some v \<Rightarrow> v | None \<Rightarrow> new_entry) \<and> lru_peek l s = Some v \<and>
    (\<forall>k. k \<noteq> s \<longrightarrow> lru_peek l k = lru_peek (wt_open t) k \<or> lru_peek l k = None) \<and>
    (\<forall>xs. distinct xs \<longrightarrow> recency (wt_open t) = take (lr_capacity l) xs \<longrightarrow>
       recency l = take (lr_capacity l) (s # filter (\<lambda>k. k \<noteq> s) xs))"
proof -
  have wf: "lru_wf (wt_open t)" using assms(1) by (simp add: thread_wf_def)
  obtain l r where g: "get_or_open s (Inr new_entry) (wt_open t) = (l, r)" by fastforce
  note eff = get_or_open_effect [OF wf assms(2) g]
  obtain v ev where r: "r = Inr (v, ev)" "v = (case lru_peek (wt_open t) s of Some v \<Rightarrow> v | None \<Rightarrow> new_entry)"
    using eff by (auto split: option.splits)
  have "writer_ensure calm_thread s t = (t\<lparr>wt_open := l\<rparr>, Inr v)"
    using g r(1) by (simp add: writer_ensure_def calm_thread_def)
  moreover have "lru_peek l s = Some v" using lru.access_gives [OF g [unfolded r(1)]] by simp
  moreover have "\<forall>k. k \<noteq> s \<longrightarrow> lru_peek l k = lru_peek (wt_open t) k \<or> lru_peek l k = None"
    using lru.access_other [OF g] by blast
  moreover have "recency l = take (lr_capacity l) (s # filter (\<lambda>k. k \<noteq> s) xs)"
    if "distinct xs" "recency (wt_open t) = take (lr_capacity l) xs" for xs
    using recency_touch [OF wf assms(2) g _ that(1)] that(2) eff by simp
  ultimately show ?thesis using eff r(2) by blast
qed

lemma ensure_wf:
  assumes "thread_wf t" and "writer_ensure calm_thread s t = (t', Inr v)" and "lru_wf (wt_open t')"
  shows "thread_wf t' \<and> (s \<notin> wt_parked t \<longrightarrow> we_txn v = None)"
proof -
  obtain l ev where g: "get_or_open s (Inr new_entry) (wt_open t) = (l, Inr (v, ev))" and t': "t' = t\<lparr>wt_open := l\<rparr>"
    using assms(2) by (auto simp: writer_ensure_def calm_thread_def split: prod.splits sum.splits)
  let ?P = "\<lambda>k w. k \<notin> wt_parked t \<longrightarrow> we_txn w = None"
  have "?P k w" if "lru_peek l k = Some w" for k w
    by (rule lru.access_keeps [OF g, of ?P]) (use assms(1) that in \<open>auto simp: thread_wf_def new_entry_def\<close>)
  moreover have "lru_peek l s = Some v" using lru.access_gives [OF g] by simp
  ultimately show ?thesis using assms(3) unfolding t' thread_wf_def by auto
qed

text \<open>A prepare that is accepted parks the shard and leaves its file alone.\<close>

lemma prepare_calm:
  assumes "thread_wf t" and "lr_tick (wt_open t) \<noteq> - 1" and "s \<notin> wt_parked t"
    and "run_all run ss (db_data (wt_files t s)) = Inr (xs, d)"
    and "recency (wt_open t) = take (lr_capacity (wt_open t)) ys" and "distinct ys"
  shows "\<exists>t' os. thread_prepare calm_thread run s txn ss ddl t = (t', Inr (PreparedOk os)) \<and> thread_wf t' \<and>
    wt_files t' = wt_files t \<and> wt_parked t' = insert s (wt_parked t) \<and>
    lr_capacity (wt_open t') = lr_capacity (wt_open t) \<and> lr_tick (wt_open t') = lr_tick (wt_open t) + 1 \<and>
    recency (wt_open t') = take (lr_capacity (wt_open t)) (s # filter (\<lambda>k. k \<noteq> s) ys)"
proof -
  obtain l v where l: "writer_ensure calm_thread s t = (t\<lparr>wt_open := l\<rparr>, Inr v)" "lru_wf l"
      "lr_capacity l = lr_capacity (wt_open t)" "lr_tick l = lr_tick (wt_open t) + 1"
      "\<forall>k. k \<noteq> s \<longrightarrow> lru_peek l k = lru_peek (wt_open t) k \<or> lru_peek l k = None"
      "recency l = take (lr_capacity l) (s # filter (\<lambda>k. k \<noteq> s) ys)"
    using ensure_calm [OF assms(1,2), of s] assms(5,6) by metis
  obtain c where c: "prepare_group PfOk run txn ss ddl (conn_of (t\<lparr>wt_open := l\<rparr>) s v) = (c, Inr (PreparedOk (map Done xs)))"
      "cx_db c = wt_files t s"
    using assms(4) by (simp add: prepare_group_def conn_of_def)
  let ?t = "(put_conn s v c (t\<lparr>wt_open := l\<rparr>))\<lparr>wt_parked := insert s (wt_parked t)\<rparr>"
  have "thread_prepare calm_thread run s txn ss ddl t = (?t, Inr (PreparedOk (map Done xs)))"
    using assms(3) l(1) c(1) by (simp add: thread_prepare_def calm_thread_def calm_env_def put_conn_def)
  moreover have "thread_wf ?t"
    using assms(1) l(2,5) unfolding thread_wf_def by (fastforce simp: put_conn_def lru_peek_set split: if_splits)
  moreover have "wt_files ?t = wt_files t" using c(2) by (simp add: put_conn_def)
  ultimately show ?thesis using l(3,4,6) by (intro exI [of _ ?t] exI) (simp add: put_conn_def)
qed

text \<open>A decision for a parked shard whose connection is gone fails, and nothing is committed.\<close>

lemma decide_evicted:
  assumes "thread_wf t" and "lr_tick (wt_open t) \<noteq> - 1" and "s \<in> wt_parked t" and "s \<notin> set (recency (wt_open t))"
    and "recency (wt_open t) = take (lr_capacity (wt_open t)) ys" and "distinct ys"
  shows "\<exists>t' msg. thread_decide calm_thread s True t = (t', Inl (Protocol msg)) \<and> thread_wf t' \<and>
    wt_files t' = wt_files t \<and> wt_parked t' = wt_parked t - {s} \<and>
    lr_capacity (wt_open t') = lr_capacity (wt_open t) \<and> lr_tick (wt_open t') = lr_tick (wt_open t) + 1 \<and>
    recency (wt_open t') = take (lr_capacity (wt_open t)) (s # filter (\<lambda>k. k \<noteq> s) ys)"
proof -
  let ?u = "t\<lparr>wt_parked := wt_parked t - {s}\<rparr>"
  have wf: "lru_wf (wt_open t)" using assms(1) by (simp add: thread_wf_def)
  have none: "lru_peek (wt_open t) s = None"
    using assms(4) lru_peek_None_iff [OF wf] by simp
  then have u: "thread_wf ?u" using assms(1) by (auto simp: thread_wf_def)
  obtain l where l: "writer_ensure calm_thread s ?u = (?u\<lparr>wt_open := l\<rparr>, Inr new_entry)" "lru_wf l"
      "lr_capacity l = lr_capacity (wt_open t)" "lr_tick l = lr_tick (wt_open t) + 1"
      "\<forall>k. k \<noteq> s \<longrightarrow> lru_peek l k = lru_peek (wt_open t) k \<or> lru_peek l k = None"
      "recency l = take (lr_capacity l) (s # filter (\<lambda>k. k \<noteq> s) ys)"
    using ensure_calm [OF u, of s] assms(2,5,6) none by auto
  let ?c = "conn_of (?u\<lparr>wt_open := l\<rparr>) s new_entry"
  let ?t = "put_conn s new_entry ?c (?u\<lparr>wt_open := l\<rparr>)"
  have "finish_prepared True True ?c = (?c, Inl ''no transaction is active'')"
    by (simp add: finish_prepared_def conn_of_def new_entry_def)
  then have "thread_decide calm_thread s True t = (?t, Inl (Protocol ''no transaction is active''))"
    using assms(3) l(1) by (simp add: thread_decide_def calm_thread_def calm_env_def Let_def)
  moreover have "thread_wf ?t"
    using u l(2,5) unfolding thread_wf_def
    by (fastforce simp: put_conn_def conn_of_def new_entry_def lru_peek_set split: if_splits)
  moreover have "wt_files ?t = wt_files t" by (simp add: put_conn_def conn_of_def)
  ultimately show ?thesis using l(3,4,6) by (intro exI [of _ ?t] exI) (simp add: put_conn_def)
qed

section \<open>More participants than connections\<close>

fun thread_prepare_all ::
    "('v, 'd) engine \<Rightarrow> u64 \<Rightarrow> bool \<Rightarrow> 'v participants \<Rightarrow> 'd thread \<Rightarrow> 'd thread \<times> prepared result list" where
  "thread_prepare_all run txn ddl [] t = (t, [])"
| "thread_prepare_all run txn ddl ((s, ss) # ps) t =
     (case thread_prepare calm_thread run s txn ss ddl t of
        (t, r) \<Rightarrow> apsnd (Cons r) (thread_prepare_all run txn ddl ps t))"

fun thread_decide_all :: "bool \<Rightarrow> shard_id list \<Rightarrow> 'd thread \<Rightarrow> 'd thread \<times> unit result list" where
  "thread_decide_all commit [] t = (t, [])"
| "thread_decide_all commit (s # ss) t =
     (case thread_decide calm_thread s commit t of
        (t, r) \<Rightarrow> apsnd (Cons r) (thread_decide_all commit ss t))"

definition accepted_by :: "('v, 'd) engine \<Rightarrow> 'd thread \<Rightarrow> shard_id \<times> 'v statement list \<Rightarrow> bool" where
  "accepted_by run t p \<longleftrightarrow> (case run_all run (snd p) (db_data (wt_files t (fst p))) of Inr _ \<Rightarrow> True | Inl _ \<Rightarrow> False)"

definition ticks_left :: "nat \<Rightarrow> 'd thread \<Rightarrow> bool" where
  "ticks_left n t \<longleftrightarrow> unat (lr_tick (wt_open t)) + n < 2 ^ 64"

lemma ticks_left_step:
  assumes "ticks_left (Suc n) t" and "lr_tick (wt_open t') = lr_tick (wt_open t) + 1"
  shows "lr_tick (wt_open t) \<noteq> - 1 \<and> ticks_left n t'"
proof -
  have "unat (- 1 :: u64) = 2 ^ 64 - 1" by (simp add: unsigned_minus_1_eq_mask mask_eq_exp_minus_1)
  with assms(1) have ne: "lr_tick (wt_open t) \<noteq> - 1" by (auto simp: ticks_left_def)
  have "unat (lr_tick (wt_open t) + 1) = unat (lr_tick (wt_open t)) + 1"
    using assms(1) by (simp add: ticks_left_def unat_word_ariths)
  with assms ne show ?thesis by (simp add: ticks_left_def)
qed

lemma prepare_all_calm:
  assumes "thread_wf t" and "ticks_left (n + length ps) t" and "distinct (map fst ps)"
    and "set (map fst ps) \<inter> wt_parked t = {}" and "\<forall>p \<in> set ps. accepted_by run t p"
    and "recency (wt_open t) = take (lr_capacity (wt_open t)) ys" and "distinct ys"
    and "thread_prepare_all run txn ddl ps t = (t', rs)"
  shows "thread_wf t' \<and> wt_files t' = wt_files t \<and> wt_parked t' = wt_parked t \<union> set (map fst ps) \<and>
    lr_capacity (wt_open t') = lr_capacity (wt_open t) \<and> ticks_left n t' \<and>
    recency (wt_open t') = take (lr_capacity (wt_open t)) (rev (map fst ps) @ filter (\<lambda>k. k \<notin> set (map fst ps)) ys) \<and>
    (\<forall>r \<in> set rs. \<exists>os. r = Inr (PreparedOk os)) \<and> length rs = length ps"
  using assms
proof (induction ps arbitrary: t ys rs)
  case (Cons p ps)
  obtain s ss where p: "p = (s, ss)" by (cases p)
  obtain xs d where run: "run_all run ss (db_data (wt_files t s)) = Inr (xs, d)"
    using Cons.prems(5) p by (fastforce simp: accepted_by_def split: sum.splits)
  have tick: "lr_tick (wt_open t) \<noteq> - 1"
    using ticks_left_step [of "n + length ps" t "t\<lparr>wt_open := (wt_open t)\<lparr>lr_tick := lr_tick (wt_open t) + 1\<rparr>\<rparr>"] Cons.prems(2) by simp
  have free: "s \<notin> wt_parked t" using Cons.prems(4) p by auto
  obtain u os where u: "thread_prepare calm_thread run s txn ss ddl t = (u, Inr (PreparedOk os))" "thread_wf u"
      "wt_files u = wt_files t" "wt_parked u = insert s (wt_parked t)"
      "lr_capacity (wt_open u) = lr_capacity (wt_open t)" "lr_tick (wt_open u) = lr_tick (wt_open t) + 1"
      "recency (wt_open u) = take (lr_capacity (wt_open t)) (s # filter (\<lambda>k. k \<noteq> s) ys)"
    using prepare_calm [OF Cons.prems(1) tick free run Cons.prems(6,7)] by blast
  obtain rs' where rest: "thread_prepare_all run txn ddl ps u = (t', rs')" "rs = Inr (PreparedOk os) # rs'"
    using Cons.prems(8) p u(1) by (cases "thread_prepare_all run txn ddl ps u") auto
  have "ticks_left (n + length ps) u" using ticks_left_step [OF _ u(6)] Cons.prems(2) by simp
  moreover have "\<forall>p \<in> set ps. accepted_by run u p" using Cons.prems(5) u(3) by (simp add: accepted_by_def)
  moreover have "distinct (s # filter (\<lambda>k. k \<noteq> s) ys)" using Cons.prems(7) by simp
  moreover have "set (map fst ps) \<inter> wt_parked u = {}" "distinct (map fst ps)"
    using Cons.prems(3,4) p u(4) by auto
  ultimately have IH: "thread_wf t' \<and> wt_files t' = wt_files u \<and> wt_parked t' = wt_parked u \<union> set (map fst ps) \<and>
      lr_capacity (wt_open t') = lr_capacity (wt_open u) \<and> ticks_left n t' \<and>
      recency (wt_open t') = take (lr_capacity (wt_open u))
        (rev (map fst ps) @ filter (\<lambda>k. k \<notin> set (map fst ps)) (s # filter (\<lambda>k. k \<noteq> s) ys)) \<and>
      (\<forall>r \<in> set rs'. \<exists>os. r = Inr (PreparedOk os)) \<and> length rs' = length ps"
    using Cons.IH [OF u(2)] u(7) rest(1) unfolding u(5) by blast
  have "s \<notin> set (map fst ps)" using Cons.prems(3) p by simp
  then have "filter (\<lambda>k. k \<notin> set (map fst ps)) (s # filter (\<lambda>k. k \<noteq> s) ys) = s # filter (\<lambda>k. k \<notin> set (map fst (p # ps))) ys"
    using p by (simp add: conj_commute)
  with IH show ?case using rest(2) u(3-5) p by (simp del: filter.simps)
qed auto

text \<open>The connections of parked shards are evicted one after the other, each just before its decision.\<close>

lemma decide_all_evicted:
  assumes "thread_wf t" and "ticks_left (length ps) t" and "distinct (qs @ ps)" and "set ps \<subseteq> wt_parked t"
    and "lr_capacity (wt_open t) < length (qs @ ps)"
    and "recency (wt_open t) = take (lr_capacity (wt_open t)) (rev qs @ rev ps)"
    and "thread_decide_all True ps t = (t', rs)"
  shows "wt_files t' = wt_files t \<and> (\<forall>r \<in> set rs. \<exists>msg. r = Inl (Protocol msg)) \<and> length rs = length ps"
  using assms
proof (induction ps arbitrary: t qs rs)
  case (Cons s ps)
  let ?c = "lr_capacity (wt_open t)"
  have tick: "lr_tick (wt_open t) \<noteq> - 1"
    using ticks_left_step [of "length ps" t "t\<lparr>wt_open := (wt_open t)\<lparr>lr_tick := lr_tick (wt_open t) + 1\<rparr>\<rparr>"] Cons.prems(2) by simp
  have rec: "recency (wt_open t) = take ?c (rev qs @ rev ps)"
    using Cons.prems(5,6) by simp
  moreover have "s \<notin> set (rev qs @ rev ps)" using Cons.prems(3) by simp
  ultimately have gone: "s \<notin> set (recency (wt_open t))" by (metis in_set_takeD)
  have d: "distinct (rev qs @ rev ps)" using Cons.prems(3) by auto
  obtain u msg where u: "thread_decide calm_thread s True t = (u, Inl (Protocol msg))" "thread_wf u"
      "wt_files u = wt_files t" "wt_parked u = wt_parked t - {s}" "lr_capacity (wt_open u) = ?c"
      "lr_tick (wt_open u) = lr_tick (wt_open t) + 1"
      "recency (wt_open u) = take ?c (s # filter (\<lambda>k. k \<noteq> s) (rev qs @ rev ps))"
    using decide_evicted [OF Cons.prems(1) tick _ gone rec d] Cons.prems(4) by auto
  obtain rs' where rest: "thread_decide_all True ps u = (t', rs')" "rs = Inl (Protocol msg) # rs'"
    using Cons.prems(7) u(1) by (cases "thread_decide_all True ps u") auto
  have "filter (\<lambda>k. k \<noteq> s) (rev qs @ rev ps) = rev qs @ rev ps"
    using \<open>s \<notin> set (rev qs @ rev ps)\<close> by (intro filter_True) auto
  then have "recency (wt_open u) = take (lr_capacity (wt_open u)) (rev (qs @ [s]) @ rev ps)"
    using u(5,7) by simp
  moreover have "ticks_left (length ps) u" using ticks_left_step [OF _ u(6)] Cons.prems(2) by simp
  moreover have "distinct ((qs @ [s]) @ ps)" "lr_capacity (wt_open u) < length ((qs @ [s]) @ ps)"
      "set ps \<subseteq> wt_parked u"
    using Cons.prems(3-5) u(4,5) by auto
  ultimately have "wt_files t' = wt_files u \<and> (\<forall>r \<in> set rs'. \<exists>msg. r = Inl (Protocol msg)) \<and> length rs' = length ps"
    using Cons.IH [OF u(2)] rest(1) by blast
  then show ?case using rest(2) u(3) by auto
qed simp

text \<open>
  (C29) A write to more shards of one writer thread than the thread keeps connections for commits on
  none of them. Every participant answers that it is prepared; but opening the later ones closes the
  connections of the earlier ones, which rolls their transactions back, and when the decision is
  carried out each of them is told to commit a transaction it no longer has, and answers with an error.
\<close>

theorem more_participants_than_connections_commit_nowhere:
  assumes "thread_wf t" and "wt_parked t = {}" and "distinct (map fst ps)" and "lr_capacity (wt_open t) < length ps"
    and "ticks_left (2 * length ps) t" and "\<forall>p \<in> set ps. accepted_by run t p"
    and "thread_prepare_all run txn ddl ps t = (t1, prepares)"
    and "thread_decide_all True (map fst ps) t1 = (t2, decisions)"
  shows "(\<forall>r \<in> set prepares. \<exists>os. r = Inr (PreparedOk os)) \<and> length prepares = length ps \<and>
    (\<forall>r \<in> set decisions. \<exists>msg. r = Inl (Protocol msg)) \<and> length decisions = length ps \<and> wt_files t2 = wt_files t"
proof -
  have wf: "lru_wf (wt_open t)" using assms(1) by (simp add: thread_wf_def)
  have "length (recency (wt_open t)) \<le> lr_capacity (wt_open t)"
    using wf by (simp add: length_recency lru_wf_def)
  then have "recency (wt_open t) = take (lr_capacity (wt_open t)) (recency (wt_open t))" by simp
  then have "thread_wf t1" "wt_files t1 = wt_files t" "wt_parked t1 = set (map fst ps)"
      "lr_capacity (wt_open t1) = lr_capacity (wt_open t)" "ticks_left (length ps) t1"
      "recency (wt_open t1) = take (lr_capacity (wt_open t))
         (rev (map fst ps) @ filter (\<lambda>k. k \<notin> set (map fst ps)) (recency (wt_open t)))"
      "\<forall>r \<in> set prepares. \<exists>os. r = Inr (PreparedOk os)" "length prepares = length ps"
    using prepare_all_calm [OF assms(1) _ assms(3) _ assms(6) _ distinct_recency [OF wf] assms(7), of "length ps"]
      assms(2,5) by (simp_all add: mult_2)
  moreover from this have "recency (wt_open t1) = take (lr_capacity (wt_open t1)) (rev [] @ rev (map fst ps))"
    using assms(4) by simp
  ultimately show ?thesis
    using decide_all_evicted [of t1 "map fst ps" "[]" t2 decisions] assms(3,4,8) by simp
qed

definition demo_thread :: "nat thread" where
  "demo_thread =
     \<lparr>wt_files = (\<lambda>_. \<lparr>db_data = 0, db_markers = None, db_version = 0\<rparr>),
      wt_open = \<lparr>lr_capacity = 1, lr_tick = 0, lr_entries = [], lr_evictions = 0, lr_opens = 0\<rparr>, wt_parked = {}\<rparr>"

definition counting :: "(unit, nat) engine" where
  "counting st d = Inr (Changed 1 0, d + 1)"

lemma demo_thread_wf: "thread_wf demo_thread"
  by (simp add: thread_wf_def demo_thread_def lru_wf_def keys_def bt_mem_def lru_peek_def)

theorem more_participants_than_connections_commit_nowhere_witness:
  "\<exists>t1 prepares t2 decisions.
     thread_prepare_all counting 1 False [(0, [statement_new ''a'']), (1, [statement_new ''b''])] demo_thread = (t1, prepares) \<and>
     thread_decide_all True [0, 1] t1 = (t2, decisions) \<and>
     (\<forall>r \<in> set prepares. \<exists>os. r = Inr (PreparedOk os)) \<and> length prepares = 2 \<and>
     (\<forall>r \<in> set decisions. \<exists>msg. r = Inl (Protocol msg)) \<and> length decisions = 2 \<and> wt_files t2 = wt_files demo_thread"
proof -
  let ?ps = "[(0, [statement_new ''a'']), (1, [statement_new ''b''])] :: unit participants"
  obtain t1 prepares where p: "thread_prepare_all counting 1 False ?ps demo_thread = (t1, prepares)" by fastforce
  obtain t2 decisions where d: "thread_decide_all True (map fst ?ps) t1 = (t2, decisions)" by fastforce
  have "\<forall>p \<in> set ?ps. accepted_by counting demo_thread p" by (simp add: accepted_by_def counting_def)
  from more_participants_than_connections_commit_nowhere [OF demo_thread_wf _ _ _ _ this p d] p d
  show ?thesis by (auto simp: demo_thread_def ticks_left_def)
qed

section \<open>A snapshot hold that is evicted\<close>

fun ensure_all :: "shard_id list \<Rightarrow> 'd thread \<Rightarrow> 'd thread" where
  "ensure_all [] t = t"
| "ensure_all (s # ss) t = ensure_all ss (fst (writer_ensure calm_thread s t))"

lemma ensure_all_recency:
  assumes "thread_wf t" and "ticks_left (n + length qs) t" and "distinct qs"
    and "recency (wt_open t) = take (lr_capacity (wt_open t)) ys" and "distinct ys"
  shows "thread_wf (ensure_all qs t) \<and> ticks_left n (ensure_all qs t) \<and>
    lr_capacity (wt_open (ensure_all qs t)) = lr_capacity (wt_open t) \<and>
    recency (wt_open (ensure_all qs t)) =
      take (lr_capacity (wt_open t)) (rev qs @ filter (\<lambda>k. k \<notin> set qs) ys)"
  using assms
proof (induction qs arbitrary: t ys)
  case (Cons q qs)
  have tick: "lr_tick (wt_open t) \<noteq> - 1"
    using ticks_left_step [of "n + length qs" t "t\<lparr>wt_open := (wt_open t)\<lparr>lr_tick := lr_tick (wt_open t) + 1\<rparr>\<rparr>"] Cons.prems(2) by simp
  obtain l v where l: "writer_ensure calm_thread q t = (t\<lparr>wt_open := l\<rparr>, Inr v)" "lru_wf l"
      "lr_capacity l = lr_capacity (wt_open t)" "lr_tick l = lr_tick (wt_open t) + 1"
      "v = (case lru_peek (wt_open t) q of Some v \<Rightarrow> v | None \<Rightarrow> new_entry)" "lru_peek l q = Some v"
      "\<forall>k. k \<noteq> q \<longrightarrow> lru_peek l k = lru_peek (wt_open t) k \<or> lru_peek l k = None"
      "recency l = take (lr_capacity l) (q # filter (\<lambda>k. k \<noteq> q) ys)"
    using ensure_calm [OF Cons.prems(1) tick, of q] Cons.prems(4,5) by metis
  let ?t = "t\<lparr>wt_open := l\<rparr>"
  have wf: "thread_wf ?t" using ensure_wf [OF Cons.prems(1) l(1)] l(2) by simp
  have "q \<notin> set qs" using Cons.prems(3) by simp
  then have "filter (\<lambda>k. k \<notin> set qs) (q # filter (\<lambda>k. k \<noteq> q) ys) = q # filter (\<lambda>k. k \<notin> set (q # qs)) ys"
    by (simp add: conj_commute)
  moreover have "ticks_left (n + length qs) ?t" using ticks_left_step [of "n + length qs" t ?t] l(4) Cons.prems(2) by simp
  ultimately show ?case
    using Cons.IH [OF wf, of "q # filter (\<lambda>k. k \<noteq> q) ys"] Cons.prems(3,5) l(1,3,8) by (simp del: filter.simps)
qed simp

text \<open>
  (C32) A snapshot's hold does not survive the cache. Between the beginning and the end of a snapshot,
  use as many other shards of the thread as it keeps connections for: the entry that carried the hold
  is closed. From then on every batch on the shard calls the checkpointer on its file while it is
  being copied, and the end of the snapshot is still answered as if the copy were good.
\<close>

theorem evicted_hold_is_forgotten:
  assumes "thread_wf t" and "s \<notin> wt_parked t" and "ticks_left (length qs + 2) t"
    and "thread_begin_snapshot calm_thread s t = (t1, Inr ())"
    and "distinct qs" and "s \<notin> set qs" and "lr_capacity (wt_open t) \<le> length qs"
    and "writer_ensure calm_thread s (ensure_all qs t1) = (t2, Inr v)"
  shows "snd (thread_after_batch too_long s t2) \<and> fst (thread_after_batch too_long s t2) = t2 \<and>
    snd (thread_end_snapshot calm_thread s t2) = Inr True"
proof -
  have wf: "lru_wf (wt_open t)" using assms(1) by (simp add: thread_wf_def)
  let ?c = "lr_capacity (wt_open t)"
  have tick: "lr_tick (wt_open t) \<noteq> - 1"
    using ticks_left_step [of "length qs + 1" t "t\<lparr>wt_open := (wt_open t)\<lparr>lr_tick := lr_tick (wt_open t) + 1\<rparr>\<rparr>"] assms(3) by simp
  obtain l w where l: "writer_ensure calm_thread s t = (t\<lparr>wt_open := l\<rparr>, Inr w)" "lru_wf l" "lr_capacity l = ?c"
      "lr_tick l = lr_tick (wt_open t) + 1" "lru_peek l s = Some w"
    using ensure_calm [OF assms(1) tick, of s] by blast
  have u: "thread_wf (t\<lparr>wt_open := l\<rparr>)" "we_txn w = None"
    using ensure_wf [OF assms(1) l(1)] l(2) assms(2) by simp_all
  have t1: "t1 = t\<lparr>wt_open := lru_set s (w\<lparr>we_hold := True, we_invalidated := False\<rparr>) l\<rparr>"
    using assms(4) l(1) by (simp add: thread_begin_snapshot_def calm_thread_def calm_env_def)
  have wf1: "thread_wf t1"
    using u by (auto simp: t1 thread_wf_def lru_peek_set split: if_splits)
  have left1: "ticks_left (1 + length qs) t1"
    using ticks_left_step [of "1 + length qs" t t1] assms(3) l(4) by (simp add: t1)
  have rec1: "recency (wt_open t1) = take (lr_capacity (wt_open t1)) (recency l)"
    using l(2) by (simp add: t1 length_recency lru_wf_def)
  note all = ensure_all_recency [OF wf1 left1 assms(5) rec1 distinct_recency [OF l(2)]]
  let ?t = "ensure_all qs t1"
  have cap1: "lr_capacity (wt_open t1) = ?c" using l(3) by (simp add: t1)
  then have "recency (wt_open ?t) = take ?c (rev qs)" using all assms(7) by simp
  then have "s \<notin> set (recency (wt_open ?t))" using assms(6) by (metis in_set_takeD set_rev)
  then have none: "lru_peek (wt_open ?t) s = None"
    using lru_peek_None_iff [of "wt_open ?t" s] all by (simp add: thread_wf_def)
  have tick2: "lr_tick (wt_open ?t) \<noteq> - 1"
    using ticks_left_step [of 0 ?t "?t\<lparr>wt_open := (wt_open ?t)\<lparr>lr_tick := lr_tick (wt_open ?t) + 1\<rparr>\<rparr>"] all by simp
  obtain l2 where l2: "t2 = ?t\<lparr>wt_open := l2\<rparr>" "lru_peek l2 s = Some new_entry"
    using ensure_calm [of ?t s] all tick2 assms(8) none by auto
  obtain l3 r where l3: "get_or_open s (Inr new_entry) l2 = (l3, r)" by fastforce
  from lru.access_hit [OF l3 l2(2)] have "r = Inr (new_entry, cache_event_default)" by simp
  then have "snd (thread_end_snapshot calm_thread s t2) = Inr True"
    using l3 l2(1) by (simp add: thread_end_snapshot_def writer_ensure_def calm_thread_def new_entry_def)
  then show ?thesis using l2 by (simp add: thread_after_batch_def new_entry_def)
qed

theorem evicted_hold_is_forgotten_witness:
  "\<exists>t1 t2 v. thread_begin_snapshot calm_thread 0 demo_thread = (t1, Inr ()) \<and>
     writer_ensure calm_thread 0 (ensure_all [1] t1) = (t2, Inr v) \<and>
     snd (thread_after_batch False 0 t2) \<and> snd (thread_end_snapshot calm_thread 0 t2) = Inr True"
proof -
  obtain t1 where t1: "thread_begin_snapshot calm_thread 0 demo_thread = (t1, Inr ())"
    by (simp add: thread_begin_snapshot_def writer_ensure_def calm_thread_def calm_env_def demo_thread_def
      get_or_open_def make_room.simps Let_def)
  obtain t2 v where t2: "writer_ensure calm_thread 0 (ensure_all [1] t1) = (t2, Inr v)"
    using lru.access_miss lru.access_hit
    by (cases "get_or_open 0 (Inr new_entry) (wt_open (ensure_all [1] t1))";
      cases "lru_peek (wt_open (ensure_all [1] t1)) 0") (fastforce simp: writer_ensure_def calm_thread_def)+
  from evicted_hold_is_forgotten [OF demo_thread_wf _ _ t1 _ _ _ t2, of False] t1 t2 show ?thesis
    by (auto simp: demo_thread_def ticks_left_def)
qed

section \<open>Group commit\<close>

fun run_batches ::
    "('v, 'd) engine \<Rightarrow> ('v statement list \<times> bool) list list \<Rightarrow> 'd conn \<Rightarrow> 'd conn \<times> (string + stmt_outcome list list)" where
  "run_batches run [] c = (c, Inr [])"
| "run_batches run (b # bs) c =
     (case batch_with BtOk run b c of
        (c, Inl msg) \<Rightarrow> (c, Inl msg)
      | (c, Inr os) \<Rightarrow> apsnd (map_sum (\<lambda>e. e) ((@) os)) (run_batches run bs c))"

lemma batch_groups_append:
  "batch_groups run (gs @ hs) d =
     (case batch_groups run gs d of
        Inl msg \<Rightarrow> Inl msg
      | Inr (os, d) \<Rightarrow> map_sum (\<lambda>e. e) (apfst ((@) os)) (batch_groups run hs d))"
proof (induction run gs d rule: batch_groups.induct)
  case (1 run d)
  show ?case by (cases "batch_groups run hs d") auto
next
  case (2 run g atomic gs d)
  show ?case
  proof (cases "if atomic then apply_atomic_group run g d else apply_isolated_group run g d")
    case (Inr od)
    then obtain os d' where od: "od = (os, d')" by (cases od)
    show ?thesis using "2.IH" [OF Inr od [symmetric]] Inr od
      by (cases "batch_groups run gs d'"; cases "batch_groups run hs (snd (projr (batch_groups run gs d')))") auto
  qed simp
qed

fun done_statements :: "'v statement list \<Rightarrow> stmt_outcome list \<Rightarrow> 'v statement list" where
  "done_statements (s # ss) (Done x # os) = s # done_statements ss os"
| "done_statements (s # ss) (Rejected msg # os) = done_statements ss os"
| "done_statements _ _ = []"

fun done_results :: "stmt_outcome list \<Rightarrow> executed list" where
  "done_results [] = []"
| "done_results (Done x # os) = x # done_results os"
| "done_results (Rejected msg # os) = done_results os"

definition done_of :: "('v statement list \<times> bool) list \<Rightarrow> stmt_outcome list list \<Rightarrow> 'v statement list" where
  "done_of gs os = concat (map2 (\<lambda>(g, _). done_statements g) gs os)"

text \<open>
  The answer to a request that found the data \<open>d\<close>: an atomic one is done whole or rejected whole,
  for the reason its statements give in a row; of an isolated one every statement has an answer, and
  a rejected statement is one SQLite rejects where the statements done before it led.
\<close>

definition answers :: "('v, 'd) engine \<Rightarrow> 'v statement list \<times> bool \<Rightarrow> stmt_outcome list \<Rightarrow> 'd \<Rightarrow> bool" where
  "answers run g os d \<longleftrightarrow>
     (if snd g
      then (\<exists>xs. os = map Done xs \<and> length xs = length (fst g)) \<or>
           (\<exists>msg. os = [Rejected msg] \<and> run_all run (fst g) d = Inl (Logic msg))
      else length os = length (fst g) \<and>
           (\<forall>j < length os. \<forall>msg. os ! j = Rejected msg \<longrightarrow>
              (\<exists>xs d'. run_all run (done_statements (take j (fst g)) (take j os)) d = Inr (xs, d') \<and>
                 run (fst g ! j) d' = Inl (Logic msg))))"

lemma run_all_append:
  "run_all run (ss @ ts) d =
     (case run_all run ss d of Inl e \<Rightarrow> Inl e | Inr (xs, d') \<Rightarrow> map_sum (\<lambda>e. e) (apfst ((@) xs)) (run_all run ts d'))"
proof (induction ss arbitrary: d)
  case Nil
  show ?case by (cases "run_all run ts d") auto
next
  case (Cons s ss)
  show ?case
  proof (cases "run s d")
    case (Inr xd)
    then show ?thesis
      by (cases xd; cases "run_all run ss (snd xd)"; cases "run_all run ts (snd (projr (run_all run ss (snd xd))))")
        (auto simp: Cons.IH)
  qed simp
qed

lemma done_results_append [simp]: "done_results (os @ ps) = done_results os @ done_results ps"
  by (induction os rule: done_results.induct) simp_all

lemma done_whole: "length xs = length ss \<Longrightarrow> done_statements ss (map Done xs) = ss \<and> done_results (map Done xs) = xs"
  by (induction xs ss rule: list_induct2) simp_all

lemma run_all_length: "run_all run ss d = Inr (xs, d') \<Longrightarrow> length xs = length ss"
proof (induction ss arbitrary: d xs)
  case (Cons s ss)
  from Cons.prems obtain x e xs' where "run s d = Inr (x, e)" "run_all run ss e = Inr (xs', d')" "xs = x # xs'"
    by (cases "run s d"; cases "run_all run ss (snd (projr (run s d)))") auto
  with Cons.IH show ?case by simp
qed simp

lemma isolated_cases:
  assumes "apply_isolated_group run (s # ss) d = Inr (os, d')"
  obtains (ran) x e ps where "run s d = Inr (x, e)" "apply_isolated_group run ss e = Inr (ps, d')" "os = Done x # ps"
    | (rejected) msg ps where "run s d = Inl (Logic msg)" "apply_isolated_group run ss d = Inr (ps, d')" "os = Rejected msg # ps"
proof (cases "run s d")
  case (Inl err)
  with assms show ?thesis
    by (cases err; cases "apply_isolated_group run ss d") (auto intro: rejected)
next
  case (Inr xe)
  with assms show ?thesis
    by (cases xe; cases "apply_isolated_group run ss (snd xe)") (auto intro: ran)
qed

lemma isolated_answers:
  assumes "apply_isolated_group run ss d = Inr (os, d')"
  shows "run_all run (done_statements ss os) d = Inr (done_results os, d') \<and> answers run (ss, False) os d"
  using assms
proof (induction ss arbitrary: d os)
  case (Cons s ss)
  from Cons.prems show ?case
  proof (cases rule: isolated_cases)
    case (ran x e ps)
    note ih = Cons.IH [OF ran(2)]
    have "\<exists>xs d''. run_all run (done_statements (take j (s # ss)) (take j os)) d = Inr (xs, d'') \<and>
        run ((s # ss) ! j) d'' = Inl (Logic msg)" if j: "j < length os" "os ! j = Rejected msg" for j msg
    proof (cases j)
      case (Suc i)
      with j ran(3) have "i < length ps" "ps ! i = Rejected msg" by simp_all
      with ih obtain xs d'' where "run_all run (done_statements (take i ss) (take i ps)) e = Inr (xs, d'')"
          "run (ss ! i) d'' = Inl (Logic msg)"
        unfolding answers_def by (metis fst_conv snd_conv)
      with Suc ran(1,3) show ?thesis by simp
    qed (use j ran(3) in simp)
    with ih ran show ?thesis by (simp add: answers_def)
  next
    case (rejected m ps)
    note ih = Cons.IH [OF rejected(2)]
    have "\<exists>xs d''. run_all run (done_statements (take j (s # ss)) (take j os)) d = Inr (xs, d'') \<and>
        run ((s # ss) ! j) d'' = Inl (Logic msg)" if j: "j < length os" "os ! j = Rejected msg" for j msg
    proof (cases j)
      case (Suc i)
      with j rejected(3) have "i < length ps" "ps ! i = Rejected msg" by simp_all
      with ih obtain xs d'' where "run_all run (done_statements (take i ss) (take i ps)) d = Inr (xs, d'')"
          "run (ss ! i) d'' = Inl (Logic msg)"
        unfolding answers_def by (metis fst_conv snd_conv)
      with Suc rejected(1,3) show ?thesis by simp
    qed (use j rejected(1,3) in simp)
    with ih rejected show ?thesis by (simp add: answers_def)
  qed
qed (simp add: answers_def)

lemma atomic_answers:
  assumes "apply_atomic_group run ss d = Inr (os, d')"
  shows "run_all run (done_statements ss os) d = Inr (done_results os, d') \<and> answers run (ss, True) os d"
proof (cases "run_all run ss d")
  case (Inl err)
  with assms obtain msg where "err = Logic msg" "os = [Rejected msg]" "d' = d"
    by (cases err) (auto simp: apply_atomic_group_def)
  moreover from this have "done_statements ss os = []" by (cases ss) simp_all
  ultimately show ?thesis using Inl by (simp add: answers_def)
next
  case (Inr xd)
  with assms obtain xs where xs: "xd = (xs, d')" "os = map Done xs"
    by (cases xd) (auto simp: apply_atomic_group_def)
  with Inr done_whole [OF run_all_length [of run ss d xs d']] show ?thesis
    using run_all_length [of run ss d xs d'] by (auto simp: answers_def)
qed

lemma batch_answers:
  assumes "batch_groups run gs d = Inr (os, d')"
  shows "length os = length gs \<and> run_all run (done_of gs os) d = Inr (done_results (concat os), d') \<and>
    (\<forall>i < length gs. \<exists>xs d''. run_all run (done_of (take i gs) (take i os)) d = Inr (xs, d'') \<and> answers run (gs ! i) (os ! i) d'')"
  using assms
proof (induction run gs d arbitrary: os rule: batch_groups.induct)
  case (2 run g atomic gs d)
  let ?one = "if atomic then apply_atomic_group run g d else apply_isolated_group run g d"
  from "2.prems" obtain ps e where first: "?one = Inr (ps, e)" by (cases ?one) auto
  from "2.prems" first obtain qs where rest: "batch_groups run gs e = Inr (qs, d')" and os: "os = ps # qs"
    by (cases "batch_groups run gs e") auto
  note ih = "2.IH" [OF first refl rest]
  have one: "run_all run (done_statements g ps) d = Inr (done_results ps, e)" "answers run (g, atomic) ps d"
    using first isolated_answers [of run g d ps e] atomic_answers [of run g d ps e] by (cases atomic; simp)+
  have "\<exists>xs d''. run_all run (done_of (take i ((g, atomic) # gs)) (take i os)) d = Inr (xs, d'') \<and>
      answers run (((g, atomic) # gs) ! i) (os ! i) d''" if "i < length ((g, atomic) # gs)" for i
  proof (cases i)
    case 0
    with one os show ?thesis by (simp add: done_of_def)
  next
    case (Suc k)
    with ih that obtain xs d'' where "run_all run (done_of (take k gs) (take k qs)) e = Inr (xs, d'')"
        "answers run (gs ! k) (qs ! k) d''" by auto
    with one(1) Suc os show ?thesis by (simp add: done_of_def run_all_append)
  qed
  moreover have "length os = length ((g, atomic) # gs)" using ih os by simp
  moreover have "run_all run (done_of ((g, atomic) # gs) os) d = Inr (done_results (concat os), d')"
    using conjunct1 [OF conjunct2 [OF ih]] one(1) os by (simp add: done_of_def run_all_append)
  ultimately show ?case by blast
qed (simp add: done_of_def)

lemma batches_of_one:
  "run_batches run bs c = (c', Inr os) \<longleftrightarrow> batch_with BtOk run (concat bs) c = (c', Inr os)"
proof (induction run bs c arbitrary: os rule: run_batches.induct)
  case (2 run b bs c)
  show ?case
  proof (cases "batch_groups run b (db_data (cx_db c))")
    case (Inr od)
    then obtain os1 d1 where d1: "od = (os1, d1)" by (cases od)
    let ?c = "c\<lparr>cx_db := (cx_db c)\<lparr>db_data := d1\<rparr>\<rparr>"
    have b: "batch_with BtOk run b c = (?c, Inr os1)" using Inr d1 by (simp add: batch_with_def)
    have "run_batches run (b # bs) c = (c', Inr os) \<longleftrightarrow> (\<exists>os2. run_batches run bs ?c = (c', Inr os2) \<and> os = os1 @ os2)"
      by (cases "run_batches run bs ?c"; cases "snd (run_batches run bs ?c)") (auto simp: b)
    also have "\<dots> \<longleftrightarrow> (\<exists>os2. batch_with BtOk run (concat bs) ?c = (c', Inr os2) \<and> os = os1 @ os2)"
      using "2.IH" [OF b [symmetric] refl] by simp
    also have "\<dots> \<longleftrightarrow> batch_with BtOk run (concat (b # bs)) c = (c', Inr os)"
      using Inr d1 by (cases "batch_groups run (concat bs) d1") (auto simp: batch_with_def batch_groups_append)
    finally show ?thesis .
  qed (simp add: batch_with_def batch_groups_append)
qed (auto simp: batch_with_def)

text \<open>
  (C24) A batch does what it reports. Requests that arrived while a commit was running are put in one
  transaction. If it fails, the data is as before. If it goes through, the data is what comes of
  running, one after the other and with no savepoints, exactly the statements reported done, with the
  results reported; an atomic request is done whole or not at all, an isolated one statement by
  statement, and a rejection is SQLite's own where the work done before it led. And batching cannot be
  observed: a sequence of requests cut into batches any way goes through if and only if one batch of
  them all does, with the same data and outcomes.
\<close>

theorem batch_does_what_it_reports:
  assumes "batch_with fault run gs c = (c', r)"
  shows "(case r of
      Inl msg \<Rightarrow> c' = c
    | Inr os \<Rightarrow> \<exists>d'. c' = c\<lparr>cx_db := (cx_db c)\<lparr>db_data := d'\<rparr>\<rparr> \<and> length os = length gs \<and>
        run_all run (done_of gs os) (db_data (cx_db c)) = Inr (done_results (concat os), d') \<and>
        (\<forall>i < length gs. \<exists>xs d. run_all run (done_of (take i gs) (take i os)) (db_data (cx_db c)) = Inr (xs, d) \<and>
           answers run (gs ! i) (os ! i) d)) \<and>
    (\<forall>bs c' os. concat bs = gs \<longrightarrow>
       (run_batches run bs c = (c', Inr os) \<longleftrightarrow> batch_with BtOk run gs c = (c', Inr os)))"
proof (rule conjI)
  show "\<forall>bs c' os. concat bs = gs \<longrightarrow>
       (run_batches run bs c = (c', Inr os) \<longleftrightarrow> batch_with BtOk run gs c = (c', Inr os))"
    by (intro allI impI) (simp only: batches_of_one)
  show "case r of
      Inl msg \<Rightarrow> c' = c
    | Inr os \<Rightarrow> \<exists>d'. c' = c\<lparr>cx_db := (cx_db c)\<lparr>db_data := d'\<rparr>\<rparr> \<and> length os = length gs \<and>
        run_all run (done_of gs os) (db_data (cx_db c)) = Inr (done_results (concat os), d') \<and>
        (\<forall>i < length gs. \<exists>xs d. run_all run (done_of (take i gs) (take i os)) (db_data (cx_db c)) = Inr (xs, d) \<and>
           answers run (gs ! i) (os ! i) d)"
  proof (cases r)
    case (Inl msg)
    with assms show ?thesis by (auto simp: batch_with_def split: batch_fault.splits sum.splits)
  next
    case (Inr os)
    with assms obtain d' where d': "batch_groups run gs (db_data (cx_db c)) = Inr (os, d')"
        "c' = c\<lparr>cx_db := (cx_db c)\<lparr>db_data := d'\<rparr>\<rparr>"
      by (auto simp: batch_with_def split: batch_fault.splits sum.splits)
    show ?thesis unfolding Inr sum.case by (intro exI [of _ d'] conjI [OF d'(2)]) (rule batch_answers [OF d'(1)])
  qed
qed

text \<open>An engine that adds one for every statement but refuses the ones named \<open>no\<close>.\<close>

definition fussy :: "(nat, nat) engine" where
  "fussy s d = (if sm_sql s = ''no'' then Inl (Logic ''refused'') else Inr (Changed 1 0, d + 1))"

theorem batch_does_what_it_reports_witness:
  "\<exists>c'. batch_with BtOk fussy [([statement_new ''a'', statement_new ''no''], True), ([statement_new ''no'', statement_new ''c''], False)]
       \<lparr>cx_db = \<lparr>db_data = 0, db_markers = None, db_version = 0\<rparr>, cx_open = None\<rparr> =
     (c', Inr [[Rejected ''refused''], [Rejected ''refused'', Done (Changed 1 0)]]) \<and>
     run_all fussy [statement_new ''c''] 0 = Inr ([Changed 1 0], db_data (cx_db c'))"
proof -
  let ?c = "\<lparr>cx_db = \<lparr>db_data = 0, db_markers = None, db_version = 0\<rparr>, cx_open = None\<rparr> :: nat conn"
  let ?gs = "[([statement_new ''a'', statement_new ''no''], True), ([statement_new ''no'', statement_new ''c''], False)]"
  obtain c' where b: "batch_with BtOk fussy ?gs ?c = (c', Inr [[Rejected ''refused''], [Rejected ''refused'', Done (Changed 1 0)]])"
    by (simp add: batch_with_def apply_atomic_group_def fussy_def statement_new_def)
  from conjunct1 [OF batch_does_what_it_reports [OF b]] obtain d' where "c' = ?c\<lparr>cx_db := (cx_db ?c)\<lparr>db_data := d'\<rparr>\<rparr>"
      "run_all fussy (done_of ?gs [[Rejected ''refused''], [Rejected ''refused'', Done (Changed 1 0)]]) (db_data (cx_db ?c)) =
       Inr (done_results (concat [[Rejected ''refused''], [Rejected ''refused'', Done (Changed 1 0)]]), d')"
    unfolding sum.case by blast
  moreover from this(2) have "run_all fussy [statement_new ''c''] 0 = Inr ([Changed 1 0], d')"
    by (simp add: done_of_def)
  ultimately have "run_all fussy [statement_new ''c''] 0 = Inr ([Changed 1 0], db_data (cx_db c'))" by simp
  with b show ?thesis by blast
qed

end
