(* ===== verification/Spec2Isabelle.thy ===== *)
theory Spec2Isabelle
  imports Prelude BTree Text_Format Disk_File Routing Placement Term_Store Durability Election
    Election_Safety Fence Catalog Catalog_Validate Catalog_Membership Catalog_Operations Catalog_Store
    Rebalance Join_Tokens Control Catalog_Safety Catalog_Limits
    Promotion Replica_Loop Cluster_Node Node_Safety
    Wal_Capture Wal_Refinement Stream_Log Follower Snapshot_Transfer
    Replication Replication_Gaps Replication_Safety Cross_Shard Cross_Shard_Safety
    Shard_Cache Reader_Fleet Writer_Thread
begin

text \<open>
  A verification development for shardlite, a sharded and replicated SQLite server written in
  Rust (\<^verbatim>\<open>src/src\<close>).

  \<^bold>\<open>The program.\<close> Keys are routed to shards, each shard a SQLite file. Every shard has one primary,
  which accepts writes, and followers, which pull the pages the primary committed. Nodes elect a
  coordinator, whose placement says which node is primary of what; a write gate per shard (the
  fence) keeps a node from writing a shard it does not lead, and a handover moves a file between
  following and leading. In a cluster with a catalog, membership, placement and the running
  topology operations (join, drain, transfer, split) are one versioned value that the voters
  prepare and commit. Inside a node, writer and reader threads keep caches of connections, group
  requests into batches, and run writes that span shards in two phases with a durable record.

  \<^bold>\<open>How the code is modelled.\<close> A struct is a record, an enum a datatype, a function or method one
  definition with the state it changes passed through and every early return a branch. \<^verbatim>\<open>u8\<close>,
  \<^verbatim>\<open>u32\<close> and \<^verbatim>\<open>u64\<close> are words of their width with the checked, saturating and wrapping operations of
  the source; \<^verbatim>\<open>usize\<close> is a natural number. \<^verbatim>\<open>BTreeMap\<close> is an association list sorted by key.
  \<^verbatim>\<open>Result\<close> is a sum with the error on the left; message texts are shortened and not formatted. What
  the machine decides (a write that fails, and where; a peer's reply; a timeout) is an argument: a
  fault value or an environment record. Code of libraries (SQLite's execution of a statement, the
  hash, the value encoding) is an argument too, and what is relied on is a hypothesis, as \<open>codec_ok\<close>.
  Loops over lists are structural recursion; there is no fuel anywhere: every function is total, and
  the loops whose recursion is not structural (over the bytes of a log, the chunks of a transfer, the
  entries to evict, the actions a node performs) come with termination proofs.

  \<^bold>\<open>Foundations.\<close>
  \<^item> \<open>Prelude\<close>: integers, \<^verbatim>\<open>Result\<close>, the error type, instants, and the locale \<open>quorum_rule\<close> (two
    quorums intersect), interpreted on voter majorities in \<open>Election_Safety\<close>.
  \<^item> \<open>BTree\<close>: the ordered map, with the locale \<open>ordered_map\<close>.
  \<^item> \<open>Text_Format\<close>: printing and parsing of the small state files, with the locale \<open>text_codec\<close>,
    interpreted on the term file.
  \<^item> \<open>Disk_File\<close>: replacing a file through a temporary, with a fault at every step.

  \<^bold>\<open>Routing and placement.\<close>
  \<^item> \<open>Routing\<close> (\<^verbatim>\<open>shard/routing.rs\<close>): the hash, the modulo router and linear hashing. Every key goes to an
    existing shard; growing by one moves keys only from the split source to the new shard; a shard
    count has one canonical state. The locale \<open>router\<close> is interpreted on both routers.
  \<^item> \<open>Placement\<close> (\<^verbatim>\<open>cluster/placement.rs\<close>): each shard has one eligible owner, and the balanced map
    is even.

  \<^bold>\<open>Elections.\<close>
  \<^item> \<open>Term_Store\<close> (\<^verbatim>\<open>cluster/term.rs\<close>): the durable term and vote; one vote per term across failed
    writes and restarts. The locale \<open>vote_ledger\<close> is what the election relies on.
  \<^item> \<open>Durability\<close> (\<^verbatim>\<open>cluster/durability.rs\<close>): the rule that says who may lead whom.
  \<^item> \<open>Election\<close> (\<^verbatim>\<open>cluster/election.rs\<close>): one handler per method, with joint voter sets and leases.
    \<open>Election_Safety\<close>: nodes over a network that loses, repeats and reorders, with failed writes and
    restarts, never have two leaders of one term.
  \<^item> \<open>Fence\<close> (\<^verbatim>\<open>cluster/fence.rs\<close>): the gates; a step-down is final for its term.
  \<^item> \<open>Promotion\<close> (\<^verbatim>\<open>cluster/promotion.rs\<close>, \<^verbatim>\<open>shard/mode.rs\<close>): the steps of a handover. With a placement whose
    term is at least the highest the fence has seen, an open gate is over an owned file at every step.
  \<^item> \<open>Replica_Loop\<close> (\<^verbatim>\<open>net/replica.rs\<close>): the pull loop beside a promotion, one step per load and store.
    The flags are \<^verbatim>\<open>Relaxed\<close>: what is shown to be impossible is shown with every load of a flag
    returning any value, and what is shown to be possible happens already when each returns the last
    value stored.
  \<^item> \<open>Cluster_Node\<close> (\<^verbatim>\<open>cluster/node.rs\<close>): the driver. \<open>Node_Safety\<close>: a deposed leader has its gates shut; a due
    election with a willing majority ends in a serving leader; and three ways in which gates stay
    open or shut when they should not.

  \<^bold>\<open>The catalog\<close> (\<^verbatim>\<open>cluster/catalog.rs\<close>, \<^verbatim>\<open>cluster/control.rs\<close>, \<^verbatim>\<open>cluster/rebalance.rs\<close>).
  \<^item> \<open>Catalog\<close>, \<open>Catalog_Validate\<close>, \<open>Catalog_Membership\<close>, \<open>Catalog_Operations\<close>: the value, its validation and
    every change of it; \<open>Rebalance\<close>: the planner; \<open>Control\<close>: the commands.
  \<^item> \<open>Catalog_Safety\<close>: what each command changes; the ownership generation fixes the primary, and the
    primary moves only by the cutover of a fenced and caught-up transfer.
  \<^item> \<open>Catalog_Limits\<close>: operations move forward; a second split and the removal of a node an operation
    names get stuck on validation. For a split, whose operation records only the owner of the split
    shard, the node named is that owner.
  \<^item> \<open>Catalog_Store\<close>: the local files, with any disk fault and restart. A directory fsync that fails
    leaves a file newer than memory; the theorem asks for a restart then, and
    \<open>late_prepare_locks_the_store\<close> shows what happens without it.
  \<^item> \<open>Join_Tokens\<close>: a token is accepted once, across faults and restarts.

  \<^bold>\<open>Replication.\<close>
  \<^item> \<open>Wal_Capture\<close> (\<^verbatim>\<open>vfs/wal.rs\<close>): transactions from the bytes SQLite writes, and their application
    to a file. \<open>Wal_Refinement\<close>: within one generation of the log, the capture is the abstract log of
    frames, rollbacks and reused slots included, for all shapes of writes but one, in which it ships a
    page that was rolled back (\<open>reused_slot_ships_a_rolled_back_page\<close>); and applying a batch again
    repairs a torn file.
  \<^item> \<open>Stream_Log\<close> (\<^verbatim>\<open>replication/stream.rs\<close>, \<^verbatim>\<open>replication/log.rs\<close>, \<^verbatim>\<open>replication/ack.rs\<close>): positions,
    the log followers read, acknowledgements. \<open>Follower\<close> (\<^verbatim>\<open>replication/follower.rs\<close>): copies and
    their position files. \<open>Snapshot_Transfer\<close> (\<^verbatim>\<open>replication/bootstrap.rs\<close>): interrupted transfers never
    mix two snapshots. \<open>Replication\<close>: draining the capture, answering a subscription, a round of the pull
    loop, the bootstrap; its locale \<open>frame_sink\<close> is interpreted on the log and the in-memory sink.
  \<^item> \<open>Replication_Safety\<close>: along commits, pulls and snapshot installs with faults on the followers'
    disks, a settled copy is the primary's database at its position, and a confirmed write is on the
    disks of a quorum. Its step relation stays within one epoch of one primary, installs a snapshot
    in one step with the exact image of the primary's file, and has no restart of a follower:
    \<open>late_position_hides_a_torn_retry\<close> is a restart that breaks a copy. \<open>Replication_Gaps\<close>: what
    goes wrong between epochs, for data older than the stream, and with an invalidated snapshot.

  \<^bold>\<open>Writes and reads on a node.\<close>
  \<^item> \<open>Cross_Shard\<close> (\<^verbatim>\<open>storage/apply.rs\<close>, \<^verbatim>\<open>shard/txn.rs\<close>, and the parts of \<^verbatim>\<open>shard/writer_fleet.rs\<close> and
    \<^verbatim>\<open>shard/mod.rs\<close> they serve): batches, both phases, the record, recovery. \<open>Cross_Shard_Safety\<close>: an
    interrupted write is all or nothing under conditions stated there, and what happens when a gate
    shuts or an id is used again.
  \<^item> \<open>Shard_Cache\<close> (\<^verbatim>\<open>shard/lru.rs\<close>): the cache keeps the shards used last; its locale
    \<open>connection_cache\<close> carries the proofs about both kinds of threads. \<open>Reader_Fleet\<close>
    (\<^verbatim>\<open>shard/reader_fleet.rs\<close>): a read never uses a connection older than the file. \<open>Writer_Thread\<close>
    (\<^verbatim>\<open>shard/writer_fleet.rs\<close>): a batch does what it reports and cannot be told from smaller ones;
    eviction drops prepared transactions and snapshot holds.

  \<^bold>\<open>What is left out.\<close> A file that was written and synced is on disk: a crash may stop a sequence of
  writes anywhere, but a rename whose directory was not synced is not undone by a power failure. So
  the errors of directory syncs that \<^verbatim>\<open>cluster/term.rs\<close> and the token ledger ignore count as success, and
  what a power failure could then take back is not modelled. Calling the checkpointer is modelled,
  what it writes back is not. Sockets, TLS, HTTP, the fan-out of catalog proposals
  (\<^verbatim>\<open>cluster/catalog_quorum.rs\<close>), the workers that copy files (\<^verbatim>\<open>cluster/transfer.rs\<close>, \<^verbatim>\<open>cluster/split.rs\<close>), the
  SQL planner and merger (\<^verbatim>\<open>query\<close>), the SQLite bindings (\<^verbatim>\<open>storage\<close>, \<^verbatim>\<open>vfs/passthrough.rs\<close>), the S3
  archive, configuration, console and drivers are not modelled: they are I/O, or calls into code
  that is not in the sources. Bounds in hypotheses are those of the machine: positions below
  \<open>2 ^ 63\<close>, and cache ticks and terms that are not at their maximum.
\<close>

end
